(* ===== verification/Prelude.thy ===== *)
theory Prelude
  imports Main "HOL-Library.Word" "HOL-Library.Char_ord" "HOL-Library.List_Lexorder"
begin

text \<open>
  What every component shares: Go's error values, a state-and-error monad in which the
  operations that touch the file system, the index or the network are written, a weakest
  precondition calculus for it, and two relational combinators (a property every step
  preserves, a relation every step stays in).

  A Go function that returns \<open>(T, error)\<close> and changes state \<open>'s\<close> is a function
  \<open>'s \<Rightarrow> (error + 'a) \<times> 's\<close>: \<open>Inl\<close> is a non-nil error, and the state is returned on both
  outcomes, because an early return in Go does not undo the calls made before it.
\<close>

section \<open>Errors\<close>

text \<open>
  The sentinel errors the code tests with \<open>errors.Is\<close> are constructors. Every other error is
  \<open>Errorf format arguments\<close>, the text of an \<open>errors.New\<close> or \<open>fmt.Errorf\<close> and its arguments.
  \<open>Wrap text e\<close> is a \<open>fmt.Errorf\<close> with \<open>%w\<close>.
\<close>

datatype error =
    NotExist
  | AlreadyExists
  | NoRows
  | Canceled
  | IOError string
  | Errorf string "string list"
  | LocalChange string
  | LocallyDeleted string
  | Wrap string error

text \<open>\<open>errors.Is(err, target)\<close> looks through the wrapping.\<close>

fun errors_Is :: "error \<Rightarrow> error \<Rightarrow> bool" where
  "errors_Is (Wrap s e) t = (Wrap s e = t \<or> errors_Is e t)"
| "errors_Is e t = (e = t)"

text \<open>\<open>errors.Is(err, ErrLocalChange)\<close>: the sentinel is wrapped with the path.\<close>

fun is_local_change :: "error \<Rightarrow> bool" where
  "is_local_change (LocalChange p) = True"
| "is_local_change (LocallyDeleted p) = True"
| "is_local_change (Wrap s e) = is_local_change e"
| "is_local_change _ = False"

section \<open>The state-and-error monad\<close>

type_synonym ('s, 'a) io = "'s \<Rightarrow> (error + 'a) \<times> 's"

definition return :: "'a \<Rightarrow> ('s, 'a) io" where
  "return x = (\<lambda>s. (Inr x, s))"

definition throw :: "error \<Rightarrow> ('s, 'a) io" where
  "throw e = (\<lambda>s. (Inl e, s))"

text \<open>\<open>x, err := m(); if err != nil { return err }; f x\<close>\<close>

definition bind :: "('s, 'a) io \<Rightarrow> ('a \<Rightarrow> ('s, 'b) io) \<Rightarrow> ('s, 'b) io" where
  "bind m f = (\<lambda>s. case m s of (Inl e, s') \<Rightarrow> (Inl e, s') | (Inr x, s') \<Rightarrow> f x s')"

text \<open>\<open>x, err := m()\<close> where the code goes on and looks at \<open>err\<close> itself.\<close>

definition attempt :: "('s, 'a) io \<Rightarrow> ('s, error + 'a) io" where
  "attempt m = (\<lambda>s. case m s of (r, s') \<Rightarrow> (Inr r, s'))"

text \<open>\<open>if b { return e }\<close>\<close>

definition fail_if :: "bool \<Rightarrow> error \<Rightarrow> ('s, unit) io" where
  "fail_if b e = (if b then throw e else return ())"

text \<open>\<open>if b { m() }\<close>\<close>

definition do_if :: "bool \<Rightarrow> ('s, unit) io \<Rightarrow> ('s, unit) io" where
  "do_if b m = (if b then m else return ())"

text \<open>A pure function that may fail, as a step.\<close>

definition lift_sum :: "error + 'a \<Rightarrow> ('s, 'a) io" where
  "lift_sum r = (case r of Inl e \<Rightarrow> throw e | Inr x \<Rightarrow> return x)"

text \<open>\<open>defer c()\<close>: the result of \<open>c\<close> is dropped, its effect is not.\<close>

definition deferring :: "('s, 'b) io \<Rightarrow> ('s, 'a) io \<Rightarrow> ('s, 'a) io" where
  "deferring c m = (\<lambda>s. case m s of (r, s') \<Rightarrow> (r, snd (c s')))"

definition get_state :: "('s, 's) io" where
  "get_state = (\<lambda>s. (Inr s, s))"

definition modify :: "('s \<Rightarrow> 's) \<Rightarrow> ('s, unit) io" where
  "modify f = (\<lambda>s. (Inr (), f s))"

subsection \<open>Running the combinators\<close>

named_theorems run_simps \<open>one step of the monad applied to a state\<close>

lemma run_return [run_simps, simp]: "return x s = (Inr x, s)"
  by (simp add: return_def)

lemma run_throw [run_simps, simp]: "throw e s = (Inl e, s)"
  by (simp add: throw_def)

lemma run_bind [run_simps]:
  "bind m f s = (case m s of (Inl e, s') \<Rightarrow> (Inl e, s') | (Inr x, s') \<Rightarrow> f x s')"
  by (simp add: bind_def)

lemma run_attempt [run_simps]: "attempt m s = (case m s of (r, s') \<Rightarrow> (Inr r, s'))"
  by (simp add: attempt_def)

lemma run_fail_if [run_simps]: "fail_if b e s = (if b then (Inl e, s) else (Inr (), s))"
  by (simp add: fail_if_def)

lemma run_do_if [run_simps]: "do_if b m s = (if b then m s else (Inr (), s))"
  by (simp add: do_if_def)

lemma run_lift_sum [run_simps]: "lift_sum r s = (r, s)"
  by (simp add: lift_sum_def split: sum.split)

lemma run_deferring [run_simps]: "deferring c m s = (case m s of (r, s') \<Rightarrow> (r, snd (c s')))"
  by (simp add: deferring_def)

lemma run_get_state [run_simps, simp]: "get_state s = (Inr s, s)"
  by (simp add: get_state_def)

lemma run_modify [run_simps, simp]: "modify f s = (Inr (), f s)"
  by (simp add: modify_def)

lemma bind_Inr: "m s = (Inr x, s') \<Longrightarrow> bind m f s = f x s'"
  by (simp add: bind_def)

lemma bind_Inl: "m s = (Inl e, s') \<Longrightarrow> bind m f s = (Inl e, s')"
  by (simp add: bind_def)

lemma bind_eq_Inr:
  "bind m f s = (Inr y, s'') \<longleftrightarrow> (\<exists>x s'. m s = (Inr x, s') \<and> f x s' = (Inr y, s''))"
  by (auto simp: bind_def split: prod.splits sum.splits)

lemma bind_eq_InrE:
  assumes "bind m f s = (Inr y, s'')"
  obtains x s' where "m s = (Inr x, s')" "f x s' = (Inr y, s'')"
  using assms by (auto simp: bind_eq_Inr)

lemma fail_if_Inr: "fail_if b e w = (Inr x, w') \<longleftrightarrow> \<not> b \<and> w' = w"
  by (auto simp: fail_if_def)

lemma attempt_Inr: "attempt m w = (Inr r, w') \<longleftrightarrow> m w = (r, w')"
  by (auto simp: run_attempt split: prod.splits)

lemma lift_sum_Inr: "lift_sum r w = (Inr x, w') \<longleftrightarrow> r = Inr x \<and> w' = w"
  by (auto simp: run_lift_sum)

section \<open>Weakest preconditions\<close>

text \<open>
  \<open>wp m Q E s\<close>: run from \<open>s\<close>, the step either returns a value that satisfies \<open>Q\<close> together with
  the new state or an error that satisfies \<open>E\<close>.
\<close>

definition wp :: "('s, 'a) io \<Rightarrow> ('a \<Rightarrow> 's \<Rightarrow> bool) \<Rightarrow> (error \<Rightarrow> 's \<Rightarrow> bool) \<Rightarrow> 's \<Rightarrow> bool" where
  "wp m Q E s = (case m s of (Inl e, s') \<Rightarrow> E e s' | (Inr x, s') \<Rightarrow> Q x s')"

named_theorems wp_simps \<open>weakest preconditions of the combinators and primitives\<close>

lemma wp_return [wp_simps]: "wp (return x) Q E s = Q x s"
  by (simp add: wp_def)

lemma wp_throw [wp_simps]: "wp (throw e) Q E s = E e s"
  by (simp add: wp_def)

lemma wp_bind [wp_simps]: "wp (bind m f) Q E s = wp m (\<lambda>x. wp (f x) Q E) E s"
  by (auto simp: wp_def bind_def split: prod.split sum.split)

lemma wp_attempt [wp_simps]:
  "wp (attempt m) Q E s = wp m (\<lambda>x. Q (Inr x)) (\<lambda>e. Q (Inl e)) s"
  by (auto simp: wp_def attempt_def split: prod.split sum.split)

lemma wp_fail_if [wp_simps]: "wp (fail_if b e) Q E s = (if b then E e s else Q () s)"
  by (simp add: wp_def fail_if_def)

lemma wp_do_if [wp_simps]: "wp (do_if b m) Q E s = (if b then wp m Q E s else Q () s)"
  by (simp add: wp_def do_if_def)

lemma wp_lift_sum [wp_simps]:
  "wp (lift_sum r) Q E s = (case r of Inl e \<Rightarrow> E e s | Inr x \<Rightarrow> Q x s)"
  by (simp add: wp_def lift_sum_def split: sum.split)

lemma wp_deferring [wp_simps]:
  "wp (deferring c m) Q E s =
     wp m (\<lambda>x s'. Q x (snd (c s'))) (\<lambda>e s'. E e (snd (c s'))) s"
  by (auto simp: wp_def deferring_def split: prod.split sum.split)

lemma wp_get_state [wp_simps]: "wp get_state Q E s = Q s s"
  by (simp add: wp_def)

lemma wp_modify [wp_simps]: "wp (modify f) Q E s = Q () (f s)"
  by (simp add: wp_def)

lemma wp_if [wp_simps]: "wp (if b then m else n) Q E s = (if b then wp m Q E s else wp n Q E s)"
  by simp

lemma wp_case_sum [wp_simps]:
  "wp (case r of Inl e \<Rightarrow> f e | Inr x \<Rightarrow> g x) Q E s =
     (case r of Inl e \<Rightarrow> wp (f e) Q E s | Inr x \<Rightarrow> wp (g x) Q E s)"
  by (simp split: sum.split)

lemma wp_case_option [wp_simps]:
  "wp (case r of None \<Rightarrow> f | Some x \<Rightarrow> g x) Q E s =
     (case r of None \<Rightarrow> wp f Q E s | Some x \<Rightarrow> wp (g x) Q E s)"
  by (simp split: option.split)

lemma wp_case_prod [wp_simps]:
  "wp (case r of (x, y) \<Rightarrow> f x y) Q E s = (case r of (x, y) \<Rightarrow> wp (f x y) Q E s)"
  by (simp split: prod.split)

lemma wp_conseq:
  assumes "wp m Q' E' s" and "\<And>x s'. Q' x s' \<Longrightarrow> Q x s'" and "\<And>e s'. E' e s' \<Longrightarrow> E e s'"
  shows "wp m Q E s"
  using assms by (auto simp: wp_def split: prod.splits sum.splits)

lemma wp_conj:
  assumes "wp m Q E s" and "wp m Q' E' s"
  shows "wp m (\<lambda>x t. Q x t \<and> Q' x t) (\<lambda>e t. E e t \<and> E' e t) s"
  using assms by (auto simp: wp_def split: prod.splits sum.splits)

lemma wp_InrD: "wp m Q E s \<Longrightarrow> m s = (Inr x, s') \<Longrightarrow> Q x s'"
  by (simp add: wp_def)

lemma wp_InlD: "wp m Q E s \<Longrightarrow> m s = (Inl e, s') \<Longrightarrow> E e s'"
  by (simp add: wp_def)

section \<open>Relations every run stays in\<close>

text \<open>
  \<open>within R m\<close>: whatever the outcome, the state after \<open>m\<close> is related to the state before. With
  \<open>R\<close> reflexive and transitive it composes; \<open>R = (\<lambda>s s'. I s \<longrightarrow> I s')\<close> is the preservation of an
  invariant and \<open>R = (\<lambda>s s'. f s' = f s)\<close> a frame condition.
\<close>

definition within :: "('s \<Rightarrow> 's \<Rightarrow> bool) \<Rightarrow> ('s, 'a) io \<Rightarrow> bool" where
  "within R m \<longleftrightarrow> (\<forall>s. R s (snd (m s)))"

definition preorder_rel :: "('s \<Rightarrow> 's \<Rightarrow> bool) \<Rightarrow> bool" where
  "preorder_rel R \<longleftrightarrow> reflp R \<and> transp R"

lemma preorder_rel_refl [simp]: "preorder_rel R \<Longrightarrow> R s s"
  by (auto simp: preorder_rel_def reflp_def)

lemma preorder_rel_trans: "preorder_rel R \<Longrightarrow> R s t \<Longrightarrow> R t u \<Longrightarrow> R s u"
  by (meson preorder_rel_def transpE)

lemma preorder_rel_frame [simp, intro]: "preorder_rel (\<lambda>s s'. f s' = f s)"
  by (auto simp: preorder_rel_def reflp_def transp_def)

lemma preorder_rel_inv [simp, intro]: "preorder_rel (\<lambda>s s'. I s \<longrightarrow> I s')"
  by (auto simp: preorder_rel_def reflp_def transp_def)

named_theorems within_intros \<open>composition rules for \<open>within\<close>\<close>

lemma withinD: "within R m \<Longrightarrow> m s = (r, s') \<Longrightarrow> R s s'"
  by (metis snd_conv within_def)

lemma within_return [within_intros]: "preorder_rel R \<Longrightarrow> within R (return x)"
  by (simp add: within_def)

lemma within_throw [within_intros]: "preorder_rel R \<Longrightarrow> within R (throw e)"
  by (simp add: within_def)

lemma within_bind [within_intros]:
  "\<lbrakk> preorder_rel R; within R m; \<And>x. within R (f x) \<rbrakk> \<Longrightarrow> within R (bind m f)"
  unfolding within_def bind_def
  by (auto split: prod.splits sum.splits) (metis preorder_rel_trans snd_conv)+

lemma within_attempt [within_intros]: "within R m \<Longrightarrow> within R (attempt m)"
  by (auto simp: within_def attempt_def split: prod.split) (metis snd_conv)

lemma within_fail_if [within_intros]: "preorder_rel R \<Longrightarrow> within R (fail_if b e)"
  by (simp add: within_def fail_if_def)

lemma within_do_if [within_intros]: "preorder_rel R \<Longrightarrow> within R m \<Longrightarrow> within R (do_if b m)"
  by (simp add: within_def do_if_def)

lemma within_lift_sum [within_intros]: "preorder_rel R \<Longrightarrow> within R (lift_sum r)"
  by (simp add: within_def run_lift_sum)

lemma within_deferring [within_intros]:
  "\<lbrakk> preorder_rel R; within R c; within R m \<rbrakk> \<Longrightarrow> within R (deferring c m)"
  unfolding within_def deferring_def
  by (auto split: prod.splits) (metis preorder_rel_trans snd_conv)

lemma within_get_state [within_intros]: "preorder_rel R \<Longrightarrow> within R get_state"
  by (simp add: within_def)

lemma within_if [within_intros]:
  "\<lbrakk> b \<Longrightarrow> within R m; \<not> b \<Longrightarrow> within R n \<rbrakk> \<Longrightarrow> within R (if b then m else n)"
  by simp

lemma within_case_sum [within_intros]:
  "\<lbrakk> \<And>e. r = Inl e \<Longrightarrow> within R (f e); \<And>x. r = Inr x \<Longrightarrow> within R (g x) \<rbrakk> \<Longrightarrow>
     within R (case r of Inl e \<Rightarrow> f e | Inr x \<Rightarrow> g x)"
  by (simp split: sum.split)

lemma within_case_option [within_intros]:
  "\<lbrakk> r = None \<Longrightarrow> within R f; \<And>x. r = Some x \<Longrightarrow> within R (g x) \<rbrakk> \<Longrightarrow>
     within R (case r of None \<Rightarrow> f | Some x \<Rightarrow> g x)"
  by (simp split: option.split)

lemma within_case_prod [within_intros]:
  "\<lbrakk> \<And>x y. r = (x, y) \<Longrightarrow> within R (f x y) \<rbrakk> \<Longrightarrow> within R (case r of (x, y) \<Rightarrow> f x y)"
  by (simp split: prod.split)

lemma within_let [within_intros]: "within R (f x) \<Longrightarrow> within R (let y = x in f y)"
  by simp

lemma within_mono: "within R m \<Longrightarrow> (\<And>s s'. R s s' \<Longrightarrow> R' s s') \<Longrightarrow> within R' m"
  by (simp add: within_def)

text \<open>A relation kept by the run combines with what the run is known to reach.\<close>

lemma wp_within: "within R m \<Longrightarrow> wp m (\<lambda>_ s'. R s s') (\<lambda>_ s'. R s s') s"
  by (auto simp: wp_def within_def split: prod.split sum.split) (metis snd_conv)+

section \<open>What a run returns\<close>

text \<open>\<open>returning I m Q\<close>: a run from a state with \<open>I\<close> that returns keeps \<open>I\<close> and returns a value with
  \<open>Q\<close>.\<close>

definition returning :: "('s \<Rightarrow> bool) \<Rightarrow> ('s, 'a) io \<Rightarrow> ('a \<Rightarrow> bool) \<Rightarrow> bool" where
  "returning I m Q \<longleftrightarrow> (\<forall>w x w'. I w \<longrightarrow> m w = (Inr x, w') \<longrightarrow> I w' \<and> Q x)"

lemma returningD: "returning I m Q \<Longrightarrow> m w = (Inr x, w') \<Longrightarrow> I w \<Longrightarrow> I w' \<and> Q x"
  by (simp add: returning_def)

lemma returning_return: "Q x \<Longrightarrow> returning I (return x) Q"
  by (simp add: returning_def)

lemma returning_throw: "returning I (throw e) Q"
  by (simp add: returning_def)

lemma returning_bind:
  assumes "returning I m P" "\<And>x. P x \<Longrightarrow> returning I (f x) Q"
  shows "returning I (bind m f) Q"
  unfolding returning_def
proof (intro allI impI)
  fix w y w' assume w: "I w" and "bind m f w = (Inr y, w')"
  then obtain x w1 where x: "m w = (Inr x, w1)" and y: "f x w1 = (Inr y, w')"
    by (elim bind_eq_InrE)
  from returningD [OF assms(1) x w] show "I w' \<and> Q y"
    using returningD [OF assms(2) y] by blast
qed

lemma returning_fail_if: "(\<not> b \<Longrightarrow> Q ()) \<Longrightarrow> returning I (fail_if b e) Q"
  by (simp add: returning_def fail_if_Inr)

lemma returning_lift_sum: "(\<And>x. r = Inr x \<Longrightarrow> Q x) \<Longrightarrow> returning I (lift_sum r) Q"
  by (simp add: returning_def lift_sum_Inr)

lemma returning_if:
  "(b \<Longrightarrow> returning I m Q) \<Longrightarrow> (\<not> b \<Longrightarrow> returning I n Q) \<Longrightarrow> returning I (if b then m else n) Q"
  by simp

lemma returning_any: "within (\<lambda>w w'. I w \<longrightarrow> I w') m \<Longrightarrow> returning I m (\<lambda>_. True)"
  by (auto simp: returning_def dest: withinD)

lemma returning_weaken: "returning I m P \<Longrightarrow> (\<And>x. P x \<Longrightarrow> Q x) \<Longrightarrow> returning I m Q"
  by (auto simp: returning_def)

lemma returning_attempt:
  assumes "returning I m (\<lambda>x. Q (Inr x))" "within (\<lambda>w w'. I w \<longrightarrow> I w') m" "\<And>e. Q (Inl e)"
  shows "returning I (attempt m) Q"
  unfolding returning_def attempt_Inr
proof (intro allI impI)
  fix w r w' assume w: "I w" "m w = (r, w')"
  with withinD [OF assms(2) w(2)] assms(1,3) show "I w' \<and> Q r"
    by (cases r) (auto simp: returning_def)
qed

section \<open>Machines\<close>

text \<open>A property that the initial states have and every step keeps holds in every reachable state.\<close>

locale machine =
  fixes start :: "'s \<Rightarrow> bool" and step :: "'s \<Rightarrow> 's \<Rightarrow> bool" and good :: "'s \<Rightarrow> bool"
  assumes start_good: "start s \<Longrightarrow> good s"
    and step_good: "good s \<Longrightarrow> step s t \<Longrightarrow> good t"
begin

lemma run_good: "step\<^sup>*\<^sup>* s t \<Longrightarrow> good s \<Longrightarrow> good t"
  by (induction rule: rtranclp_induct) (simp_all add: step_good)

lemma reachable_good: "start s \<Longrightarrow> step\<^sup>*\<^sup>* s t \<Longrightarrow> good t"
  using run_good start_good by blast

end

section \<open>An operation on a part of the state\<close>

definition zoom :: "('s \<Rightarrow> 't) \<Rightarrow> ('t \<Rightarrow> 's \<Rightarrow> 's) \<Rightarrow> ('t, 'a) io \<Rightarrow> ('s, 'a) io" where
  "zoom get put m = (\<lambda>s. case m (get s) of (r, t) \<Rightarrow> (r, put t s))"

lemma zoom_eq: "zoom get put m s = (r, s') \<longleftrightarrow> (\<exists>t. m (get s) = (r, t) \<and> s' = put t s)"
  by (auto simp: zoom_def split: prod.splits)

locale substate =
  fixes get :: "'s \<Rightarrow> 't" and put :: "'t \<Rightarrow> 's \<Rightarrow> 's"
  assumes get_put [simp]: "get (put t s) = t"
    and put_get: "put (get s) s = s"
    and put_put: "put t (put u s) = put t s"
begin

lemma within_zoom: "within R m \<Longrightarrow> within (\<lambda>s s'. R (get s) (get s')) (zoom get put m)"
  by (auto simp: within_def zoom_def split: prod.split) (metis snd_conv)

text \<open>What is outside the substate stays as it is.\<close>

lemma within_rest: "(\<And>t s. rest (put t s) = rest s) \<Longrightarrow> within (\<lambda>s s'. rest s' = rest s) (zoom get put m)"
  by (simp add: within_def zoom_def split: prod.split)

lemma zoom_return: "zoom get put (return x) = return x"
  by (simp add: fun_eq_iff zoom_def put_get)

lemma zoom_bind: "zoom get put (bind m f) = bind (zoom get put m) (\<lambda>x. zoom get put (f x))"
  by (auto simp: fun_eq_iff zoom_def run_bind put_put split: prod.split sum.split)

end

end
