(* ===== verification/Bytes.thy ===== *)
theory Bytes
  imports Prelude
begin

text \<open>
  The byte-string operations of Go's standard library that the code calls. A Go \<open>string\<close> and a
  \<open>[]byte\<close> are both sequences of bytes, and a \<open>char\<close> of HOL is exactly a byte, so both are
  \<open>string\<close> here: \<open>length\<close> is \<open>len\<close>, and the order of \<open>List_Lexorder\<close> on \<open>Char_ord\<close> is Go's
  byte-wise string comparison.
\<close>

type_synonym bytes = string

abbreviation (input) quote_char :: char where "quote_char \<equiv> CHR 0x22"
abbreviation (input) bslash :: char where "bslash \<equiv> CHR 0x5C"
abbreviation (input) slash :: char where "slash \<equiv> CHR ''/''"

section \<open>Codecs\<close>

text \<open>An encoder and a decoder that gives back every value that is fit to be encoded.\<close>

locale codec =
  fixes enc :: "'a \<Rightarrow> bytes" and dec :: "bytes \<Rightarrow> 'a option" and fit :: "'a \<Rightarrow> bool"
  assumes dec_enc: "fit x \<Longrightarrow> dec (enc x) = Some x"
begin

lemma enc_inject: "fit x \<Longrightarrow> fit y \<Longrightarrow> enc x = enc y \<longleftrightarrow> x = y"
  by (metis dec_enc option.inject)

lemma decode_all: "\<forall>x \<in> set xs. fit x \<Longrightarrow> map (the \<circ> dec) (map enc xs) = xs"
  by (induction xs) (simp_all add: dec_enc)

lemma encode_all_inject:
  assumes "\<forall>x \<in> set xs. fit x" "\<forall>y \<in> set ys. fit y" "map enc xs = map enc ys"
  shows "xs = ys"
  by (metis assms decode_all)

end

section \<open>Package strings\<close>

definition has_prefix :: "string \<Rightarrow> string \<Rightarrow> bool" where
  "has_prefix s p \<longleftrightarrow> take (length p) s = p"

definition has_suffix :: "string \<Rightarrow> string \<Rightarrow> bool" where
  "has_suffix s p \<longleftrightarrow> has_prefix (rev s) (rev p)"

definition contains_any :: "string \<Rightarrow> string \<Rightarrow> bool" where
  "contains_any s cs \<longleftrightarrow> list_ex (\<lambda>c. List.member cs c) s"

text \<open>\<open>strings.Split(s, sep)\<close> for a separator of one byte: never empty, one part more than there
  are separators.\<close>

fun split_on :: "char \<Rightarrow> string \<Rightarrow> string list" where
  "split_on c [] = [[]]"
| "split_on c (x # xs) =
     (if x = c then [] # split_on c xs
      else (case split_on c xs of [] \<Rightarrow> [[x]] | y # ys \<Rightarrow> (x # y) # ys))"

text \<open>\<open>strings.Join(parts, sep)\<close>.\<close>

fun join_with :: "char \<Rightarrow> string list \<Rightarrow> string" where
  "join_with c [] = []"
| "join_with c [x] = x"
| "join_with c (x # y # ys) = x @ c # join_with c (y # ys)"

lemma has_prefix_append [simp]: "has_prefix (p @ s) p"
  by (simp add: has_prefix_def)

lemma has_prefix_Nil [simp]: "has_prefix s []"
  by (simp add: has_prefix_def)

lemma contains_any_iff: "contains_any s cs \<longleftrightarrow> (\<exists>c \<in> set s. c \<in> set cs)"
  by (auto simp: contains_any_def list_ex_iff)

lemma split_on_nonempty [simp]: "split_on c s \<noteq> []"
  by (induction s) (auto split: list.split)

lemma join_with_Cons: "join_with c (x # xs) = (if xs = [] then x else x @ c # join_with c xs)"
  by (cases xs) auto

lemma join_split_on [simp]: "join_with c (split_on c s) = s"
proof (induction s)
  case Nil
  then show ?case by simp
next
  case (Cons x xs)
  obtain y ys where "split_on c xs = y # ys"
    by (cases "split_on c xs") auto
  with Cons show ?case
    by (auto simp: join_with_Cons split: if_splits)
qed

lemma split_on_parts: "p \<in> set (split_on c s) \<Longrightarrow> c \<notin> set p"
proof (induction s arbitrary: p)
  case Nil
  then show ?case by simp
next
  case (Cons x xs)
  then show ?case by (auto split: list.splits if_splits)
qed

lemma split_on_append:
  "c \<notin> set x \<Longrightarrow> split_on c (x @ c # s) = x # split_on c s"
  by (induction x) auto

lemma split_on_no_sep: "c \<notin> set x \<Longrightarrow> split_on c x = [x]"
  by (induction x) auto

lemma split_join:
  "ps \<noteq> [] \<Longrightarrow> \<forall>p \<in> set ps. c \<notin> set p \<Longrightarrow> split_on c (join_with c ps) = ps"
  by (induction c ps rule: join_with.induct) (auto simp: split_on_append split_on_no_sep)

lemma split_on_inject: "split_on c s = split_on c t \<longleftrightarrow> s = t"
  by (metis join_split_on)

lemma length_join_with_part: "p \<in> set ps \<Longrightarrow> length p \<le> length (join_with c ps)"
  by (induction c ps rule: join_with.induct) auto

lemma length_join_with:
  "ps \<noteq> [] \<Longrightarrow> length (join_with c ps) + 1 = (\<Sum>p\<leftarrow>ps. length p + 1)"
  by (induction c ps rule: join_with.induct) auto

lemma join_with_append:
  "xs \<noteq> [] \<Longrightarrow> ys \<noteq> [] \<Longrightarrow> join_with c (xs @ ys) = join_with c xs @ c # join_with c ys"
  by (induction c xs rule: join_with.induct) (auto simp: join_with_Cons)

section \<open>Hexadecimal and decimal text\<close>

definition hex_digits :: string where
  "hex_digits = ''0123456789abcdef''"

text \<open>\<open>hex.EncodeToString\<close>.\<close>

definition hex_byte :: "char \<Rightarrow> string" where
  "hex_byte b = [hex_digits ! (of_char b div 16), hex_digits ! (of_char b mod 16)]"

definition hex_encode :: "bytes \<Rightarrow> string" where
  "hex_encode bs = concat (map hex_byte bs)"

text \<open>The value of one hexadecimal digit, either case, as \<open>hex.DecodeString\<close> reads it.\<close>

definition hex_value :: "char \<Rightarrow> nat option" where
  "hex_value c = (let n = of_char c :: nat in
     if 48 \<le> n \<and> n \<le> 57 then Some (n - 48)
     else if 97 \<le> n \<and> n \<le> 102 then Some (n - 87)
     else if 65 \<le> n \<and> n \<le> 70 then Some (n - 55)
     else None)"

fun hex_decode :: "string \<Rightarrow> bytes option" where
  "hex_decode [] = Some []"
| "hex_decode [c] = None"
| "hex_decode (c # d # cs) =
     (case (hex_value c, hex_value d, hex_decode cs) of
        (Some h, Some l, Some bs) \<Rightarrow> Some (char_of (16 * h + l) # bs)
      | _ \<Rightarrow> None)"

definition ascii_lower :: "char \<Rightarrow> char" where
  "ascii_lower c = (let n = of_char c :: nat in if 65 \<le> n \<and> n \<le> 90 then char_of (n + 32) else c)"

lemma length_hex_encode [simp]: "length (hex_encode bs) = 2 * length bs"
  by (induction bs) (auto simp: hex_encode_def hex_byte_def)

definition is_hex_digit :: "char \<Rightarrow> bool" where
  "is_hex_digit c \<longleftrightarrow> List.member hex_digits c"

lemma hex_digit_nth: "n < 16 \<Longrightarrow> hex_digits ! n \<in> set hex_digits"
  by (rule nth_mem) (simp add: hex_digits_def)

lemma hex_encode_digits: "c \<in> set (hex_encode bs) \<Longrightarrow> is_hex_digit c"
proof (induction bs)
  case Nil
  then show ?case by (simp add: hex_encode_def)
next
  case (Cons b bs)
  have "(of_char b :: nat) div 16 < 16"
    using nat_of_char_less_256 [of b] by linarith
  with Cons show ?case
    by (auto simp: hex_encode_def hex_byte_def is_hex_digit_def intro: hex_digit_nth)
qed

lemma hex_digit_cases:
  assumes "is_hex_digit c"
  shows "hex_value c \<noteq> None" "ascii_lower c = c" "(of_char c :: nat) < 128" "32 < (of_char c :: nat)"
  using assms
  by (auto simp: is_hex_digit_def hex_digits_def hex_value_def ascii_lower_def)

lemma hex_decode_total:
  "even (length s) \<Longrightarrow> \<forall>c \<in> set s. is_hex_digit c \<Longrightarrow> hex_decode s \<noteq> None"
proof (induction s rule: hex_decode.induct)
  case (3 c d cs)
  then show ?case
    using hex_digit_cases(1) [of c] hex_digit_cases(1) [of d] by auto
qed auto

lemma hex_decode_Some_digits:
  "hex_decode s = Some bs \<Longrightarrow> c \<in> set s \<Longrightarrow> hex_value c \<noteq> None"
  by (induction s arbitrary: bs rule: hex_decode.induct) (auto split: option.splits)

lemma hex_decode_hex_encode [simp]: "hex_decode (hex_encode bs) = Some bs"
proof (induction bs)
  case Nil
  then show ?case by (simp add: hex_encode_def)
next
  case (Cons b bs)
  have val: "n < 16 \<Longrightarrow> hex_value (hex_digits ! n) = Some n" for n
    by (auto simp: hex_digits_def hex_value_def numeral_eq_Suc less_Suc_eq)
  have "(of_char b :: nat) div 16 < 16"
    using nat_of_char_less_256 [of b] by linarith
  with Cons show ?case
    by (simp add: hex_encode_def hex_byte_def val)
qed

interpretation hex: codec hex_encode hex_decode "\<lambda>_. True"
  by unfold_locales simp

text \<open>Decimal text: what \<open>encoding/json\<close> writes for an integer and \<open>strconv\<close> reads.\<close>

definition digit_char :: "nat \<Rightarrow> char" where
  "digit_char n = char_of (48 + n)"

definition is_digit :: "char \<Rightarrow> bool" where
  "is_digit c \<longleftrightarrow> 48 \<le> (of_char c :: nat) \<and> (of_char c :: nat) \<le> 57"

fun show_nat :: "nat \<Rightarrow> string" where
  "show_nat n = (if n < 10 then [digit_char n] else show_nat (n div 10) @ [digit_char (n mod 10)])"

declare show_nat.simps [simp del]

definition show_int :: "int \<Rightarrow> string" where
  "show_int i = (if i < 0 then CHR ''-'' # show_nat (nat (- i)) else show_nat (nat i))"

text \<open>Digits read from the left; \<open>None\<close> on an empty string or another character.\<close>

fun read_digits :: "nat \<Rightarrow> string \<Rightarrow> nat option" where
  "read_digits acc [] = Some acc"
| "read_digits acc (c # cs) =
     (if is_digit c then read_digits (10 * acc + (of_char c - 48)) cs else None)"

definition read_nat :: "string \<Rightarrow> nat option" where
  "read_nat s = (if s = [] then None else read_digits 0 s)"

definition read_int :: "string \<Rightarrow> int option" where
  "read_int s = (case s of
       c # cs \<Rightarrow> (if c = CHR ''-'' then map_option (\<lambda>n. - int n) (read_nat cs)
                  else map_option int (read_nat s))
     | [] \<Rightarrow> None)"

lemma of_digit_char: "n < 10 \<Longrightarrow> (of_char (digit_char n) :: nat) = 48 + n"
  by (simp add: digit_char_def)

lemma is_digit_digit_char: "n < 10 \<Longrightarrow> is_digit (digit_char n)"
  by (simp add: is_digit_def of_digit_char)

lemma show_nat_nonempty [simp]: "show_nat n \<noteq> []"
  by (subst show_nat.simps) simp

lemma show_nat_digits: "c \<in> set (show_nat n) \<Longrightarrow> is_digit c"
proof (induction n rule: show_nat.induct)
  case (1 n)
  then show ?case
    by (subst (asm) (2) show_nat.simps) (auto simp: is_digit_digit_char split: if_splits)
qed

lemma read_digits_append:
  "read_digits a (xs @ ys) = (case read_digits a xs of None \<Rightarrow> None | Some b \<Rightarrow> read_digits b ys)"
  by (induction xs arbitrary: a) auto

lemma read_digits_show_nat: "read_digits 0 (show_nat n) = Some n"
proof (induction n rule: show_nat.induct)
  case (1 n)
  show ?case
  proof (cases "n < 10")
    case True
    then show ?thesis
      by (subst show_nat.simps) (simp add: is_digit_digit_char of_digit_char)
  next
    case False
    with 1 show ?thesis
      by (subst show_nat.simps) (simp add: read_digits_append is_digit_digit_char of_digit_char)
  qed
qed

lemma read_nat_show_nat [simp]: "read_nat (show_nat n) = Some n"
  by (simp add: read_nat_def read_digits_show_nat)

lemma show_nat_no_minus: "hd (show_nat n) \<noteq> CHR ''-''"
  using show_nat_digits [of "hd (show_nat n)" n] by (auto simp: is_digit_def)

lemma read_int_show_int [simp]: "read_int (show_int i) = Some i"
proof (cases "i < 0")
  case True
  then show ?thesis by (simp add: show_int_def read_int_def)
next
  case False
  obtain c cs where cs: "show_nat (nat i) = c # cs"
    by (cases "show_nat (nat i)") auto
  with show_nat_no_minus [of "nat i"] have "c \<noteq> CHR ''-''" by simp
  with False cs show ?thesis
    using read_nat_show_nat [of "nat i"] by (simp add: show_int_def read_int_def)
qed

section \<open>UTF-8\<close>

text \<open>
  \<open>rune_len s\<close> is the number of bytes of the first rune of \<open>s\<close> as \<open>unicode/utf8\<close> decodes it: 0
  where the bytes are not a valid encoding (overlong forms, surrogates and values above U+10FFFF
  are not).
\<close>

definition cont_byte :: "nat \<Rightarrow> nat \<Rightarrow> char \<Rightarrow> bool" where
  "cont_byte lo hi c \<longleftrightarrow> lo \<le> (of_char c :: nat) \<and> (of_char c :: nat) \<le> hi"

text \<open>
  \<open>lead n\<close> is the table \<open>first\<close> of \<open>unicode/utf8\<close>: for a lead byte, how many continuation bytes
  follow and the range the first of them must be in.
\<close>

definition lead :: "nat \<Rightarrow> (nat \<times> nat \<times> nat) option" where
  "lead n =
     (if n < 0x80 then Some (0, 0, 0)
      else if 0xC2 \<le> n \<and> n \<le> 0xDF then Some (1, 0x80, 0xBF)
      else if 0xE0 \<le> n \<and> n \<le> 0xEF then
        Some (2, if n = 0xE0 then 0xA0 else 0x80, if n = 0xED then 0x9F else 0xBF)
      else if 0xF0 \<le> n \<and> n \<le> 0xF4 then
        Some (3, if n = 0xF0 then 0x90 else 0x80, if n = 0xF4 then 0x8F else 0xBF)
      else None)"

fun conts :: "nat \<Rightarrow> nat \<Rightarrow> nat \<Rightarrow> string \<Rightarrow> bool" where
  "conts 0 lo hi s = True"
| "conts (Suc k) lo hi [] = False"
| "conts (Suc k) lo hi (d # ds) = (cont_byte lo hi d \<and> conts k 0x80 0xBF ds)"

fun rune_len :: "string \<Rightarrow> nat" where
  "rune_len [] = 0"
| "rune_len (c # cs) =
     (case lead (of_char c) of
        None \<Rightarrow> 0
      | Some (k, lo, hi) \<Rightarrow> if conts k lo hi cs then Suc k else 0)"

declare rune_len.simps(2) [simp del]

fun valid_utf8 :: "string \<Rightarrow> bool" where
  "valid_utf8 [] = True"
| "valid_utf8 (c # cs) =
     (rune_len (c # cs) \<noteq> 0 \<and> valid_utf8 (drop (rune_len (c # cs) - 1) cs))"

declare valid_utf8.simps(2) [simp del]

lemma lead_ascii [simp]: "n < 128 \<Longrightarrow> lead n = Some (0, 0, 0)"
  by (simp add: lead_def)

lemma lead_bound: "lead n = Some (k, lo, hi) \<Longrightarrow> k \<le> 3"
  by (auto simp: lead_def split: if_split_asm)

lemma conts_length: "conts k lo hi s \<Longrightarrow> k \<le> length s"
  by (induction k lo hi s rule: conts.induct) auto

lemma conts_append: "conts k lo hi s \<Longrightarrow> conts k lo hi (s @ t)"
  by (induction k lo hi s rule: conts.induct) auto

lemma rune_len_ascii [simp]: "(of_char c :: nat) < 128 \<Longrightarrow> rune_len (c # cs) = 1"
  by (simp add: rune_len.simps)

lemma rune_len_le: "rune_len s \<le> length s"
  by (cases s) (auto simp: rune_len.simps dest: conts_length split: option.split)

lemma rune_len_append: "rune_len s \<noteq> 0 \<Longrightarrow> rune_len (s @ t) = rune_len s"
  by (cases s) (auto simp: rune_len.simps conts_append split: option.splits if_splits)

lemma valid_utf8_ascii_Cons:
  "(of_char c :: nat) < 128 \<Longrightarrow> valid_utf8 (c # cs) = valid_utf8 cs"
  by (simp add: valid_utf8.simps)

lemma valid_utf8_ascii: "\<forall>c \<in> set s. (of_char c :: nat) < 128 \<Longrightarrow> valid_utf8 s"
  by (induction s) (auto simp: valid_utf8_ascii_Cons)

text \<open>A prefix that ends before a slash.\<close>

lemma conts_cut:
  assumes "128 \<le> lo" "conts k lo hi (a @ slash # b)"
  shows "k \<le> length a \<and> conts k lo hi a"
  using assms
proof (induction k lo hi a rule: conts.induct)
  case (2 k lo hi)
  then show ?case by (simp add: cont_byte_def)
qed auto

lemma lead_low: "lead n = Some (k, lo, hi) \<Longrightarrow> k = 0 \<or> 128 \<le> lo"
  by (auto simp: lead_def split: if_splits)

lemma rune_len_cut:
  assumes "rune_len (c # a @ slash # b) \<noteq> 0"
  shows "rune_len (c # a) = rune_len (c # a @ slash # b)" "rune_len (c # a) - 1 \<le> length a"
proof -
  obtain k lo hi where l: "lead (of_char c) = Some (k, lo, hi)" "conts k lo hi (a @ slash # b)"
    using assms by (auto simp: rune_len.simps(2) split: option.splits if_splits)
  then have "k \<le> length a \<and> conts k lo hi a" using lead_low [OF l(1)] conts_cut by (cases "k = 0") auto
  with l show "rune_len (c # a) = rune_len (c # a @ slash # b)" "rune_len (c # a) - 1 \<le> length a"
    by (simp_all add: rune_len.simps(2))
qed

lemma valid_utf8_cut: "valid_utf8 (a @ slash # b) \<Longrightarrow> valid_utf8 a"
proof (induction a rule: valid_utf8.induct)
  case (2 c cs)
  have v: "rune_len (c # cs @ slash # b) \<noteq> 0" "valid_utf8 (drop (rune_len (c # cs @ slash # b) - 1) (cs @ slash # b))"
    using 2(2) by (simp_all add: valid_utf8.simps(2))
  note r = rune_len_cut [OF v(1)]
  have d: "drop (rune_len (c # cs @ slash # b) - 1) (cs @ slash # b) = drop (rune_len (c # cs) - 1) cs @ slash # b"
    using r by simp
  have "valid_utf8 (drop (rune_len (c # cs) - 1) cs)"
    by (rule 2(1)) (use v r d in simp_all)
  with v r show ?case by (simp add: valid_utf8.simps(2))
qed simp

end
