(* ===== verification/Sha256.thy ===== *)
theory Sha256
  imports Bytes
begin

text \<open>
  SHA-256 (FIPS 180-4) on byte strings, the hash \<open>crypto/sha256\<close> computes, written out so that the
  model's digests are those of the program and not a parameter. The proofs use only that a digest
  is a function of the bytes and has 32 bytes; no collision freedom is assumed anywhere.
\<close>

unbundle bit_operations_syntax

type_synonym word32 = "32 word"

definition round_constants :: "word32 list" where
  "round_constants =
     [1116352408, 1899447441, 3049323471, 3921009573, 961987163, 1508970993, 2453635748,
      2870763221, 3624381080, 310598401, 607225278, 1426881987, 1925078388, 2162078206,
      2614888103, 3248222580, 3835390401, 4022224774, 264347078, 604807628, 770255983,
      1249150122, 1555081692, 1996064986, 2554220882, 2821834349, 2952996808, 3210313671,
      3336571891, 3584528711, 113926993, 338241895, 666307205, 773529912, 1294757372,
      1396182291, 1695183700, 1986661051, 2177026350, 2456956037, 2730485921, 2820302411,
      3259730800, 3345764771, 3516065817, 3600352804, 4094571909, 275423344, 430227734,
      506948616, 659060556, 883997877, 958139571, 1322822218, 1537002063, 1747873779,
      1955562222, 2024104815, 2227730452, 2361852424, 2428436474, 2756734187, 3204031479,
      3329325298]"

definition initial_hash :: "word32 list" where
  "initial_hash =
     [1779033703, 3144134277, 1013904242, 2773480762, 1359893119, 2600822924, 528734635,
      1541459225]"

definition rotr :: "nat \<Rightarrow> word32 \<Rightarrow> word32" where
  "rotr n x = drop_bit n x OR push_bit (32 - n) x"

section \<open>Padding and parsing\<close>

definition be_bytes :: "nat \<Rightarrow> nat \<Rightarrow> bytes" where
  "be_bytes k n = map (\<lambda>i. char_of (n div 256 ^ i)) (rev [0..<k])"

definition pad :: "bytes \<Rightarrow> bytes" where
  "pad m = m @ char_of (128 :: nat) # replicate ((119 - length m mod 64) mod 64) (char_of (0 :: nat))
           @ be_bytes 8 (8 * length m)"

fun word_of_bytes :: "bytes \<Rightarrow> word32" where
  "word_of_bytes bs = foldl (\<lambda>w b. push_bit 8 w OR of_nat (of_char b)) 0 bs"

declare word_of_bytes.simps [simp del]

fun words_of_bytes :: "bytes \<Rightarrow> word32 list" where
  "words_of_bytes (a # b # c # d # bs) = word_of_bytes [a, b, c, d] # words_of_bytes bs"
| "words_of_bytes _ = []"

section \<open>The compression function\<close>

text \<open>The message schedule, latest word first, so that the words 2, 7, 15 and 16 back are at
  positions 1, 6, 14 and 15.\<close>

definition next_word :: "word32 list \<Rightarrow> word32" where
  "next_word w =
     (let w2 = w ! 1; w7 = w ! 6; w15 = w ! 14; w16 = w ! 15;
          s0 = rotr 7 w15 XOR rotr 18 w15 XOR drop_bit 3 w15;
          s1 = rotr 17 w2 XOR rotr 19 w2 XOR drop_bit 10 w2
      in w16 + s0 + w7 + s1)"

fun schedule :: "nat \<Rightarrow> word32 list \<Rightarrow> word32 list" where
  "schedule 0 w = w"
| "schedule (Suc n) w = schedule n (next_word w # w)"

fun sha_round :: "word32 list \<Rightarrow> word32 \<times> word32 \<Rightarrow> word32 list" where
  "sha_round [a, b, c, d, e, f, g, h] (k, w) =
     (let s1 = rotr 6 e XOR rotr 11 e XOR rotr 25 e;
          ch = (e AND f) XOR (NOT e AND g);
          t1 = h + s1 + ch + k + w;
          s0 = rotr 2 a XOR rotr 13 a XOR rotr 22 a;
          maj = (a AND b) XOR (a AND c) XOR (b AND c);
          t2 = s0 + maj
      in [t1 + t2, a, b, c, d + t1, e, f, g])"
| "sha_round hs _ = hs"

definition compress :: "word32 list \<Rightarrow> word32 list \<Rightarrow> word32 list" where
  "compress hs block =
     map2 (+) hs (foldl sha_round hs (zip round_constants (rev (schedule 48 (rev block)))))"

fun digest :: "nat \<Rightarrow> word32 list \<Rightarrow> word32 list \<Rightarrow> word32 list" where
  "digest 0 hs ws = hs"
| "digest (Suc n) hs ws = digest n (compress hs (take 16 ws)) (drop 16 ws)"

definition bytes_of_word :: "word32 \<Rightarrow> bytes" where
  "bytes_of_word w = be_bytes 4 (unat w)"

definition sha256 :: "bytes \<Rightarrow> bytes" where
  "sha256 m =
     (let ws = words_of_bytes (pad m)
      in concat (map bytes_of_word (digest (length ws div 16) initial_hash ws)))"

section \<open>The digest has 32 bytes\<close>

lemma length_be_bytes [simp]: "length (be_bytes k n) = k"
  by (simp add: be_bytes_def)

lemma length_sha_round [simp]: "length (sha_round hs kw) = length hs"
  by (cases "(hs, kw)" rule: sha_round.cases) (simp_all add: Let_def)

lemma length_foldl_sha_round [simp]: "length (foldl sha_round hs kws) = length hs"
  by (induction kws arbitrary: hs) auto

lemma length_compress [simp]: "length (compress hs block) = length hs"
  by (simp add: compress_def)

lemma length_digest [simp]: "length (digest n hs ws) = length hs"
  by (induction n arbitrary: hs ws) auto

lemma length_concat_words: "length (concat (map bytes_of_word ws)) = 4 * length ws"
  by (induction ws) (auto simp: bytes_of_word_def)

lemma length_sha256 [simp]: "length (sha256 m) = 32"
  by (simp add: sha256_def Let_def length_concat_words initial_hash_def)

text \<open>The padded message is a whole number of 64-byte blocks, so no byte of it is dropped.\<close>

lemma pad_blocks: "64 dvd length (pad m)"
proof -
  define r where "r = length m mod 64"
  have "r < 64" by (simp add: r_def)
  have len: "length (pad m) = length m + (9 + (119 - r) mod 64)"
    unfolding pad_def r_def length_append list.size length_replicate length_be_bytes by simp
  have "(length m + (9 + (119 - r) mod 64)) mod 64 = (r + (9 + (119 - r))) mod 64"
    by (intro mod_add_cong) (simp_all only: r_def mod_mod_trivial)
  also have "r + (9 + (119 - r)) = 128" using \<open>r < 64\<close> by linarith
  also have "(128 :: nat) mod 64 = 0" by simp
  finally show ?thesis unfolding len dvd_eq_mod_eq_0 .
qed

end
