(* ===== verification/Model.thy ===== *)
theory Model
  imports Sha256
begin

text \<open>
  The data of \<^verbatim>\<open>internal/model/model.go\<close>, the index and wire data model: blocks, entries and the
  byte counters. Go's \<open>int64\<close> and \<open>int\<close> are \<open>int\<close> (\<open>int64_range\<close> says which values they
  have), \<open>uint32\<close> is \<open>32 word\<close>.
\<close>

definition BlockSize :: int where
  "BlockSize = 256 * 1024"

record Block =
  BOffset :: int
  BSize :: int
  BHash :: string

record Entry =
  EPath :: string
  EKind :: string
  ESize :: int
  EMode :: "32 word"
  EHash :: string
  EBlocks :: "Block list"

record Stats =
  Files :: int
  BytesReceived :: int
  BytesReused :: int

text \<open>Go's zero values, which a \<open>var\<close> declaration gives.\<close>

definition zero_block :: Block where
  "zero_block = \<lparr>BOffset = 0, BSize = 0, BHash = []\<rparr>"

definition zero_entry :: Entry where
  "zero_entry = \<lparr>EPath = [], EKind = [], ESize = 0, EMode = 0, EHash = [], EBlocks = []\<rparr>"

definition zero_stats :: Stats where
  "zero_stats = \<lparr>Files = 0, BytesReceived = 0, BytesReused = 0\<rparr>"

definition int64_range :: "int \<Rightarrow> bool" where
  "int64_range i \<longleftrightarrow> - (2 ^ 63) \<le> i \<and> i < 2 ^ 63"

text \<open>The strings are valid UTF-8 and the integers have their Go width: what \<open>encoding/json\<close>
  keeps unchanged.\<close>

definition block_text_ok :: "Block \<Rightarrow> bool" where
  "block_text_ok b \<longleftrightarrow> valid_utf8 (BHash b) \<and> int64_range (BOffset b) \<and> int64_range (BSize b)"

definition entry_text_ok :: "Entry \<Rightarrow> bool" where
  "entry_text_ok e \<longleftrightarrow> valid_utf8 (EPath e) \<and> valid_utf8 (EKind e) \<and> valid_utf8 (EHash e)
     \<and> int64_range (ESize e) \<and> list_all block_text_ok (EBlocks e)"

lemma BlockSize_pos [simp]: "0 < BlockSize"
  by (simp add: BlockSize_def)

lemma BlockSize_nonzero [simp]: "BlockSize \<noteq> 0"
  by (simp add: BlockSize_def)

lemma BlockSize_nonneg [simp]: "0 \<le> BlockSize"
  by (simp add: BlockSize_def)

end
