(* ===== verification/Json.thy ===== *)
theory Json
  imports Model
begin

text \<open>
  The part of \<open>encoding/json\<close> the code uses: \<open>Marshal\<close> of a struct into compact text with the
  HTML-safe string escapes, and \<open>Unmarshal\<close> of a text into a struct (unknown members ignored,
  member names matched without regard to ASCII case, \<open>null\<close> leaving the field as it was, a member
  of the wrong type or an integer outside its width being an error). Index rows and control frames
  are such texts. The round trip is proved for every entry whose strings are valid UTF-8.
\<close>

section \<open>Values and their text\<close>

datatype json =
    JNull
  | JBool bool
  | JNum string
  | JStr string
  | JArr "json list"
  | JObj "(string \<times> json) list"

text \<open>The escape of one byte below 0x80.\<close>

definition json_escape_ascii :: "char \<Rightarrow> string" where
  "json_escape_ascii c = (let n = of_char c :: nat in
     if n = 0x22 then [bslash, quote_char]
     else if n = 0x5C then [bslash, bslash]
     else if n = 0x08 then [bslash, CHR ''b'']
     else if n = 0x0C then [bslash, CHR ''f'']
     else if n = 0x0A then [bslash, CHR ''n'']
     else if n = 0x0D then [bslash, CHR ''r'']
     else if n = 0x09 then [bslash, CHR ''t'']
     else if n < 0x20 \<or> n = 0x3C \<or> n = 0x3E \<or> n = 0x26
       then bslash # ''u00'' @ hex_byte c
     else [c])"

text \<open>U+2028 and U+2029 in UTF-8.\<close>

definition line_sep :: string where
  "line_sep = [CHR 0xE2, CHR 0x80, CHR 0xA8]"

definition para_sep :: string where
  "para_sep = [CHR 0xE2, CHR 0x80, CHR 0xA9]"

function json_escape :: "string \<Rightarrow> string" where
  "json_escape [] = []"
| "json_escape (c # cs) =
     (if (of_char c :: nat) < 0x80 then json_escape_ascii c @ json_escape cs
      else if rune_len (c # cs) = 0 then bslash # ''ufffd'' @ json_escape cs
      else (let k = rune_len (c # cs); r = take k (c # cs) in
        (if r = line_sep then bslash # ''u2028''
         else if r = para_sep then bslash # ''u2029'' else r)
        @ json_escape (drop (k - 1) cs)))"
  by pat_completeness auto
termination
  by (relation "measure length") auto

definition json_string :: "string \<Rightarrow> string" where
  "json_string s = quote_char # json_escape s @ [quote_char]"

fun json_text :: "json \<Rightarrow> string" where
  "json_text JNull = ''null''"
| "json_text (JBool b) = (if b then ''true'' else ''false'')"
| "json_text (JNum s) = s"
| "json_text (JStr s) = json_string s"
| "json_text (JArr js) = CHR ''['' # join_with (CHR '','') (map json_text js) @ '']''"
| "json_text (JObj ms) = CHR ''{'' #
     join_with (CHR '','') (map (\<lambda>(k, v). json_string k @ CHR '':'' # json_text v) ms) @ ''}''"

section \<open>Reading\<close>

fun skip_ws :: "string \<Rightarrow> string" where
  "skip_ws [] = []"
| "skip_ws (c # cs) =
     (if (of_char c :: nat) \<in> {0x20, 0x09, 0x0A, 0x0D} then skip_ws cs else c # cs)"

text \<open>The rune \<open>n\<close> in UTF-8; a surrogate or a value out of range is U+FFFD.\<close>

definition utf8_encode :: "nat \<Rightarrow> string" where
  "utf8_encode n =
     (if n < 0x80 then [char_of n]
      else if n < 0x800 then [char_of (0xC0 + n div 0x40), char_of (0x80 + n mod 0x40)]
      else if (0xD800 \<le> n \<and> n < 0xE000) \<or> 0x110000 \<le> n then [CHR 0xEF, CHR 0xBF, CHR 0xBD]
      else if n < 0x10000 then
        [char_of (0xE0 + n div 0x1000), char_of (0x80 + n div 0x40 mod 0x40), char_of (0x80 + n mod 0x40)]
      else [char_of (0xF0 + n div 0x40000), char_of (0x80 + n div 0x1000 mod 0x40),
            char_of (0x80 + n div 0x40 mod 0x40), char_of (0x80 + n mod 0x40)])"

fun hex4 :: "string \<Rightarrow> (nat \<times> string) option" where
  "hex4 (a # b # c # d # cs) =
     (case (hex_value a, hex_value b, hex_value c, hex_value d) of
        (Some p, Some q, Some r, Some s) \<Rightarrow> Some (((p * 16 + q) * 16 + r) * 16 + s, cs)
      | _ \<Rightarrow> None)"
| "hex4 _ = None"

text \<open>\<open>\u\<close> and four digits were read as \<open>r\<close>: a high surrogate takes a low one after it.\<close>

definition unicode_escape :: "nat \<Rightarrow> string \<Rightarrow> string \<times> string" where
  "unicode_escape r rest =
     (if 0xD800 \<le> r \<and> r < 0xDC00 \<and> take 2 rest = [bslash, CHR ''u''] then
        (case hex4 (drop 2 rest) of
           Some (l, rest') \<Rightarrow>
             (if 0xDC00 \<le> l \<and> l < 0xE000
              then (utf8_encode (0x10000 + (r - 0xD800) * 0x400 + (l - 0xDC00)), rest')
              else (utf8_encode r, rest))
         | None \<Rightarrow> (utf8_encode r, rest))
      else (utf8_encode r, rest))"

definition simple_escape :: "char \<Rightarrow> char option" where
  "simple_escape c =
     map_of [(quote_char, quote_char), (bslash, bslash), (slash, slash), (CHR ''b'', CHR 0x08),
             (CHR ''f'', CHR 0x0C), (CHR ''n'', CHR 0x0A), (CHR ''r'', CHR 0x0D),
             (CHR ''t'', CHR 0x09)] c"

lemma hex4_length: "hex4 s = Some (n, t) \<Longrightarrow> length t < length s"
  by (cases s rule: hex4.cases) (auto split: option.splits)

lemma unicode_escape_length: "length (snd (unicode_escape r rest)) \<le> length rest"
  using hex4_length [of "drop 2 rest"]
  by (fastforce simp: unicode_escape_def split: option.split)

text \<open>The characters of a string after its opening quote, and what follows the closing one.\<close>

function read_string :: "string \<Rightarrow> (string \<times> string) option" where
  "read_string [] = None"
| "read_string (c # cs) =
     (if c = quote_char then Some ([], cs)
      else if c = bslash then
        (case cs of
           [] \<Rightarrow> None
         | e # es \<Rightarrow>
             (if e = CHR ''u'' then
                (case hex4 es of
                   None \<Rightarrow> None
                 | Some (r, rest) \<Rightarrow>
                     (case read_string (snd (unicode_escape r rest)) of
                        None \<Rightarrow> None
                      | Some (s, t) \<Rightarrow> Some (fst (unicode_escape r rest) @ s, t)))
              else
                (case simple_escape e of
                   None \<Rightarrow> None
                 | Some x \<Rightarrow> (case read_string es of None \<Rightarrow> None | Some (s, t) \<Rightarrow> Some (x # s, t)))))
      else if (of_char c :: nat) < 0x20 then None
      else if rune_len (c # cs) = 0 then
        (case read_string cs of
           None \<Rightarrow> None | Some (s, t) \<Rightarrow> Some ([CHR 0xEF, CHR 0xBF, CHR 0xBD] @ s, t))
      else
        (case read_string (drop (rune_len (c # cs) - 1) cs) of
           None \<Rightarrow> None
         | Some (s, t) \<Rightarrow> Some (take (rune_len (c # cs)) (c # cs) @ s, t)))"
  by pat_completeness auto
termination
proof (relation "measure length", goal_cases)
  case (2 c cs e es x rest)
  then show ?case
    using hex4_length [of es "fst x"] unicode_escape_length [of "fst x" "snd x"]
    by (cases x) fastforce
qed (auto simp: hex4_length)

declare json_escape.simps(2) [simp del] read_string.simps(2) [simp del]

text \<open>The digits at the front, and the rest.\<close>

definition take_digits :: "string \<Rightarrow> string \<times> string" where
  "take_digits s = (takeWhile is_digit s, dropWhile is_digit s)"

text \<open>A number literal: an optional sign, an integer part without a leading zero, an optional
  fraction and an optional exponent.\<close>

definition read_fraction :: "string \<Rightarrow> (string \<times> string) option" where
  "read_fraction s =
     (if take 1 s = ''.'' then
        (let (ds, t) = take_digits (drop 1 s)
         in if ds = [] then None else Some (CHR ''.'' # ds, t))
      else Some ([], s))"

definition read_exponent :: "string \<Rightarrow> (string \<times> string) option" where
  "read_exponent s =
     (if take 1 s = ''e'' \<or> take 1 s = ''E'' then
        (let sg = (if take 1 (drop 1 s) = ''+'' \<or> take 1 (drop 1 s) = ''-'' then 2 else 1);
             (ds, t) = take_digits (drop sg s)
         in if ds = [] then None else Some (take sg s @ ds, t))
      else Some ([], s))"

definition read_number :: "string \<Rightarrow> (string \<times> string) option" where
  "read_number s =
     (let sg = (if take 1 s = ''-'' then 1 else 0);
          (ds, t) = take_digits (drop sg s)
      in if ds = [] \<or> (hd ds = CHR ''0'' \<and> ds \<noteq> ''0'') then None
         else case read_fraction t of
           None \<Rightarrow> None
         | Some (f, t2) \<Rightarrow> (case read_exponent t2 of
             None \<Rightarrow> None
           | Some (x, t3) \<Rightarrow> Some (take sg s @ ds @ f @ x, t3)))"

text \<open>
  The value reader. Every call eats at least one byte before it calls another, so a fuel of the
  length of the text is enough; running out is \<open>None\<close>, like any other malformed text.
\<close>

fun read_value :: "nat \<Rightarrow> string \<Rightarrow> (json \<times> string) option"
  and read_elems :: "nat \<Rightarrow> string \<Rightarrow> (json list \<times> string) option"
  and read_members :: "nat \<Rightarrow> string \<Rightarrow> ((string \<times> json) list \<times> string) option" where
  "read_value 0 s = None"
| "read_value (Suc n) s0 =
     (let s = skip_ws s0 in
      if take 1 s = [quote_char] then map_option (\<lambda>(x, t). (JStr x, t)) (read_string (drop 1 s))
      else if take 1 s = ''{'' then
        (if take 1 (skip_ws (drop 1 s)) = ''}'' then Some (JObj [], drop 1 (skip_ws (drop 1 s)))
         else map_option (\<lambda>(ms, t). (JObj ms, t)) (read_members n (drop 1 s)))
      else if take 1 s = ''['' then
        (if take 1 (skip_ws (drop 1 s)) = '']'' then Some (JArr [], drop 1 (skip_ws (drop 1 s)))
         else map_option (\<lambda>(js, t). (JArr js, t)) (read_elems n (drop 1 s)))
      else if take 4 s = ''null'' then Some (JNull, drop 4 s)
      else if take 4 s = ''true'' then Some (JBool True, drop 4 s)
      else if take 5 s = ''false'' then Some (JBool False, drop 5 s)
      else map_option (\<lambda>(x, t). (JNum x, t)) (read_number s))"
| "read_elems 0 s = None"
| "read_elems (Suc n) s =
     (case read_value n s of
        None \<Rightarrow> None
      | Some (j, t) \<Rightarrow>
          (if take 1 (skip_ws t) = '']'' then Some ([j], drop 1 (skip_ws t))
           else if take 1 (skip_ws t) = '','' then
             map_option (\<lambda>(js, u). (j # js, u)) (read_elems n (drop 1 (skip_ws t)))
           else None))"
| "read_members 0 s0 = None"
| "read_members (Suc n) s0 =
     (let s = skip_ws s0 in
      if take 1 s = [quote_char] then
        (case read_string (drop 1 s) of
           None \<Rightarrow> None
         | Some (k, t) \<Rightarrow>
             (if take 1 (skip_ws t) = '':'' then
                (case read_value n (drop 1 (skip_ws t)) of
                   None \<Rightarrow> None
                 | Some (v, u) \<Rightarrow>
                     (if take 1 (skip_ws u) = ''}'' then Some ([(k, v)], drop 1 (skip_ws u))
                      else if take 1 (skip_ws u) = '','' then
                        map_option (\<lambda>(ms, x). ((k, v) # ms, x)) (read_members n (drop 1 (skip_ws u)))
                      else None))
              else None))
      else None)"

definition parse_json :: "string \<Rightarrow> json option" where
  "parse_json s =
     (case read_value (length s + 2) s of
        Some (j, t) \<Rightarrow> (if skip_ws t = [] then Some j else None)
      | None \<Rightarrow> None)"

section \<open>Structs\<close>

text \<open>How each kind of field takes a value; \<open>None\<close> is a type mismatch.\<close>

definition dec_string :: "json \<Rightarrow> string \<Rightarrow> string option" where
  "dec_string j old = (case j of JStr s \<Rightarrow> Some s | JNull \<Rightarrow> Some old | _ \<Rightarrow> None)"

definition dec_int64 :: "json \<Rightarrow> int \<Rightarrow> int option" where
  "dec_int64 j old = (case j of
       JNum s \<Rightarrow> (case read_int s of
           Some i \<Rightarrow> (if int64_range i then Some i else None) | None \<Rightarrow> None)
     | JNull \<Rightarrow> Some old
     | _ \<Rightarrow> None)"

definition dec_uint32 :: "json \<Rightarrow> 32 word \<Rightarrow> 32 word option" where
  "dec_uint32 j old = (case j of
       JNum s \<Rightarrow> (case read_nat s of
           Some n \<Rightarrow> (if int n < 2 ^ 32 then Some (of_int (int n)) else None) | None \<Rightarrow> None)
     | JNull \<Rightarrow> Some old
     | _ \<Rightarrow> None)"

definition member_is :: "string \<Rightarrow> string \<Rightarrow> bool" where
  "member_is k name \<longleftrightarrow> map ascii_lower k = name"

fun dec_block_members :: "(string \<times> json) list \<Rightarrow> Block \<Rightarrow> Block option" where
  "dec_block_members [] b = Some b"
| "dec_block_members ((k, j) # ms) b =
     (if member_is k ''offset'' then
        (case dec_int64 j (BOffset b) of None \<Rightarrow> None
         | Some i \<Rightarrow> dec_block_members ms (b\<lparr>BOffset := i\<rparr>))
      else if member_is k ''size'' then
        (case dec_int64 j (BSize b) of None \<Rightarrow> None
         | Some i \<Rightarrow> dec_block_members ms (b\<lparr>BSize := i\<rparr>))
      else if member_is k ''hash'' then
        (case dec_string j (BHash b) of None \<Rightarrow> None
         | Some s \<Rightarrow> dec_block_members ms (b\<lparr>BHash := s\<rparr>))
      else dec_block_members ms b)"

definition dec_block :: "json \<Rightarrow> Block option" where
  "dec_block j = (case j of
       JObj ms \<Rightarrow> dec_block_members ms zero_block | JNull \<Rightarrow> Some zero_block | _ \<Rightarrow> None)"

definition dec_blocks :: "json \<Rightarrow> Block list \<Rightarrow> Block list option" where
  "dec_blocks j old = (case j of JArr js \<Rightarrow> those (map dec_block js) | JNull \<Rightarrow> Some [] | _ \<Rightarrow> None)"

fun dec_entry_members :: "(string \<times> json) list \<Rightarrow> Entry \<Rightarrow> Entry option" where
  "dec_entry_members [] e = Some e"
| "dec_entry_members ((k, j) # ms) e =
     (if member_is k ''path'' then
        (case dec_string j (EPath e) of None \<Rightarrow> None
         | Some s \<Rightarrow> dec_entry_members ms (e\<lparr>EPath := s\<rparr>))
      else if member_is k ''kind'' then
        (case dec_string j (EKind e) of None \<Rightarrow> None
         | Some s \<Rightarrow> dec_entry_members ms (e\<lparr>EKind := s\<rparr>))
      else if member_is k ''size'' then
        (case dec_int64 j (ESize e) of None \<Rightarrow> None
         | Some i \<Rightarrow> dec_entry_members ms (e\<lparr>ESize := i\<rparr>))
      else if member_is k ''mode'' then
        (case dec_uint32 j (EMode e) of None \<Rightarrow> None
         | Some w \<Rightarrow> dec_entry_members ms (e\<lparr>EMode := w\<rparr>))
      else if member_is k ''hash'' then
        (case dec_string j (EHash e) of None \<Rightarrow> None
         | Some s \<Rightarrow> dec_entry_members ms (e\<lparr>EHash := s\<rparr>))
      else if member_is k ''blocks'' then
        (case dec_blocks j (EBlocks e) of None \<Rightarrow> None
         | Some bs \<Rightarrow> dec_entry_members ms (e\<lparr>EBlocks := bs\<rparr>))
      else dec_entry_members ms e)"

definition dec_entry :: "json \<Rightarrow> Entry option" where
  "dec_entry j = (case j of
       JObj ms \<Rightarrow> dec_entry_members ms zero_entry | JNull \<Rightarrow> Some zero_entry | _ \<Rightarrow> None)"

definition enc_block :: "Block \<Rightarrow> json" where
  "enc_block b = JObj [(''offset'', JNum (show_int (BOffset b))),
                       (''size'', JNum (show_int (BSize b))),
                       (''hash'', JStr (BHash b))]"

text \<open>\<open>blocks\<close> has the \<open>omitempty\<close> tag: an empty slice is left out.\<close>

definition enc_entry :: "Entry \<Rightarrow> json" where
  "enc_entry e = JObj ([(''path'', JStr (EPath e)),
                        (''kind'', JStr (EKind e)),
                        (''size'', JNum (show_int (ESize e))),
                        (''mode'', JNum (show_nat (unat (EMode e)))),
                        (''hash'', JStr (EHash e))]
                       @ (if EBlocks e = [] then [] else [(''blocks'', JArr (map enc_block (EBlocks e)))]))"

definition json_Marshal :: "Entry \<Rightarrow> bytes" where
  "json_Marshal e = json_text (enc_entry e)"

definition json_Unmarshal :: "bytes \<Rightarrow> Entry option" where
  "json_Unmarshal s = (case parse_json s of None \<Rightarrow> None | Some j \<Rightarrow> dec_entry j)"

section \<open>The round trip\<close>

subsection \<open>Strings\<close>

lemma char_eq_iff_nat: "c = d \<longleftrightarrow> (of_char c :: nat) = of_char d"
  by (metis char_of_char)

lemma read_string_plain:
  assumes "32 \<le> (of_char c :: nat)" "(of_char c :: nat) < 128" "c \<noteq> quote_char" "c \<noteq> bslash"
  shows "read_string (c # r) = map_option (\<lambda>(s, t). (c # s, t)) (read_string r)"
  using assms by (subst read_string.simps) (auto split: option.split)

lemma read_string_simple:
  assumes "simple_escape e = Some x" "e \<noteq> CHR ''u''"
  shows "read_string (bslash # e # r) = map_option (\<lambda>(s, t). (x # s, t)) (read_string r)"
  using assms by (subst read_string.simps) (auto split: option.split)

lemma read_string_unicode:
  assumes "hex4 es = Some (n, r)" "n < 0xD800"
  shows "read_string (bslash # CHR ''u'' # es)
         = map_option (\<lambda>(s, t). (utf8_encode n @ s, t)) (read_string r)"
  using assms by (subst read_string.simps) (auto simp: unicode_escape_def split: option.split)

lemma hex_value_digit: "n < 16 \<Longrightarrow> hex_value (hex_digits ! n) = Some n"
  by (auto simp: hex_digits_def hex_value_def numeral_eq_Suc less_Suc_eq)

lemma hex4_hex_byte: "hex4 (''00'' @ hex_byte c @ r) = Some (of_char c, r)"
proof -
  have "(of_char c :: nat) div 16 < 16"
    using nat_of_char_less_256 [of c] by linarith
  moreover have "hex_value (CHR ''0'') = Some 0"
    by (simp add: hex_value_def)
  ultimately show ?thesis
    by (simp add: hex_byte_def hex_value_digit)
qed

lemma read_string_escape_ascii:
  assumes "(of_char c :: nat) < 128"
  shows "read_string (json_escape_ascii c @ r)
         = map_option (\<lambda>(s, t). (c # s, t)) (read_string r)"
proof (cases "(of_char c :: nat) < 0x20 \<or> c \<in> {CHR 0x22, CHR 0x5C, CHR 0x3C, CHR 0x3E, CHR 0x26}")
  case False
  then have "json_escape_ascii c = [c]"
    by (auto simp: json_escape_ascii_def char_eq_iff_nat Let_def)
  with False assms show ?thesis
    by (simp add: read_string_plain)
next
  case True
  note special = this
  show ?thesis
  proof (cases "c \<in> {CHR 0x22, CHR 0x5C, CHR 0x08, CHR 0x0C, CHR 0x0A, CHR 0x0D, CHR 0x09}")
    case True
    then show ?thesis
      by (auto simp: json_escape_ascii_def read_string_simple simple_escape_def)
  next
    case False
    with special have esc: "json_escape_ascii c = bslash # CHR ''u'' # ''00'' @ hex_byte c"
      by (auto simp: json_escape_ascii_def char_eq_iff_nat Let_def)
    have u: "utf8_encode (of_char c) = [c]"
      using assms by (simp add: utf8_encode_def)
    show ?thesis
      using read_string_unicode [OF hex4_hex_byte, of c r] assms
      by (simp add: esc u)
  qed
qed

lemma conts_take: "conts k lo hi s \<Longrightarrow> conts k lo hi (take k s)"
  by (induction k lo hi s rule: conts.induct) auto

lemma rune_len_take: "rune_len s \<noteq> 0 \<Longrightarrow> rune_len (take (rune_len s) s) = rune_len s"
  by (cases s) (auto simp: rune_len.simps conts_take split: option.splits if_splits)

lemma read_string_rune:
  assumes "128 \<le> (of_char c :: nat)" "rune_len (c # cs) \<noteq> 0"
  shows "read_string (take (rune_len (c # cs)) (c # cs) @ r)
         = map_option (\<lambda>(s, t). (take (rune_len (c # cs)) (c # cs) @ s, t)) (read_string r)"
proof -
  obtain k where k: "rune_len (c # cs) = Suc k"
    using assms(2) by (cases "rune_len (c # cs)") auto
  have "k \<le> length cs"
    using rune_len_le [of "c # cs"] k by simp
  have "rune_len (take (Suc k) (c # cs) @ r) = Suc k"
    using rune_len_take [of "c # cs"] rune_len_append [of "take (Suc k) (c # cs)" r] k by simp
  with assms(1) k \<open>k \<le> length cs\<close> show ?thesis
    by (subst (1) k, simp, subst read_string.simps) (auto split: option.split)
qed

lemma read_string_escape:
  "valid_utf8 s \<Longrightarrow> read_string (json_escape s @ quote_char # t) = Some (s, t)"
proof (induction s rule: json_escape.induct)
  case 1
  then show ?case by (simp add: read_string.simps)
next
  case (2 c cs)
  show ?case
  proof (cases "(of_char c :: nat) < 128")
    case True
    with 2 show ?thesis
      by (simp add: json_escape.simps(2) read_string_escape_ascii valid_utf8_ascii_Cons)
  next
    case False
    define k where "k = rune_len (c # cs)"
    define r where "r = take k (c # cs)"
    have k: "k \<noteq> 0" and valid: "valid_utf8 (drop (k - 1) cs)"
      using 2(4) by (simp_all add: valid_utf8.simps k_def)
    have IH: "read_string (json_escape (drop (k - 1) cs) @ quote_char # t) = Some (drop (k - 1) cs, t)"
      using 2(3) [OF False] k valid by (simp add: k_def)
    have whole: "r @ drop (k - 1) cs = c # cs"
      using k by (cases k) (simp_all add: r_def)
    have esc: "json_escape (c # cs) =
        (if r = line_sep then bslash # ''u2028''
         else if r = para_sep then bslash # ''u2029'' else r) @ json_escape (drop (k - 1) cs)"
      using False k by (simp add: json_escape.simps(2) k_def r_def Let_def)
    have plain: "read_string (r @ x) = map_option (\<lambda>(s, t). (r @ s, t)) (read_string x)" for x
      using read_string_rune [of c cs x] False k unfolding r_def k_def by simp
    have u28: "hex4 (''2028'' @ x) = Some (0x2028, x)" "hex4 (''2029'' @ x) = Some (0x2029, x)" for x
      by (simp_all add: hex_value_def)
    have enc: "utf8_encode 0x2028 = line_sep" "utf8_encode 0x2029 = para_sep"
      by (simp_all add: utf8_encode_def line_sep_def para_sep_def char_of_def bit_0)
    have "read_string (json_escape (c # cs) @ quote_char # t) = Some (r @ drop (k - 1) cs, t)"
      using read_string_unicode [OF u28(1)] read_string_unicode [OF u28(2)]
      unfolding esc by (auto simp: enc IH [unfolded One_nat_def] plain)
    then show ?thesis by (simp only: whole)
  qed
qed

lemma read_json_string:
  "valid_utf8 s \<Longrightarrow> read_string (drop 1 (json_string s @ t)) = Some (s, t)"
  by (simp add: json_string_def read_string_escape)

subsection \<open>Numbers\<close>

text \<open>What may follow a value in a compact text: the end, a comma or a closing bracket.\<close>

definition delimited :: "string \<Rightarrow> bool" where
  "delimited t \<longleftrightarrow> t = [] \<or> hd t \<in> {CHR '','', CHR '']'', CHR ''}''}"

lemma delimited_simps [simp]:
  "delimited []" "delimited (CHR '','' # t)" "delimited (CHR '']'' # t)" "delimited (CHR ''}'' # t)"
  by (simp_all add: delimited_def)

lemma show_nat_hd_zero: "n \<noteq> 0 \<Longrightarrow> hd (show_nat n) \<noteq> CHR ''0''"
proof (induction n rule: show_nat.induct)
  case (1 n)
  have "n < 10 \<Longrightarrow> digit_char n \<noteq> CHR ''0''"
    using 1(2) by (auto simp: char_eq_iff_nat of_digit_char)
  with 1 show ?case
    by (subst show_nat.simps) (simp add: hd_append)
qed

lemma take_digits_show_nat:
  "delimited t \<Longrightarrow> take_digits (show_nat n @ t) = (show_nat n, t)"
  by (cases t) (auto simp: take_digits_def takeWhile_append dropWhile_append delimited_def
      is_digit_def show_nat_digits [unfolded is_digit_def])

lemma delimited_no_tail:
  assumes "delimited t"
  shows "read_fraction t = Some ([], t)" "read_exponent t = Some ([], t)"
  using assms by (cases t; auto simp: delimited_def read_fraction_def read_exponent_def)+

lemma show_nat_leading_zero: "hd (show_nat n) = CHR ''0'' \<Longrightarrow> show_nat n = ''0''"
proof (cases "n = 0")
  case True
  then show ?thesis by (subst show_nat.simps) (simp add: digit_char_def char_of_def bit_0)
qed (simp add: show_nat_hd_zero)

lemma read_number_show_int:
  assumes "delimited t"
  shows "read_number (show_int i @ t) = Some (show_int i, t)"
proof -
  have nat: "(if ds = [] \<or> (hd ds = CHR ''0'' \<and> ds \<noteq> ''0'') then None else Some x) = Some x"
    if "ds = show_nat n" for ds n and x :: "string \<times> string"
    using that show_nat_leading_zero [of n] by auto
  have "take 1 (show_nat n @ t) \<noteq> ''-''" for n
    using show_nat_no_minus [of n] by (cases "show_nat n") auto
  with assms show ?thesis
    using show_nat_leading_zero
    by (auto simp: read_number_def show_int_def take_digits_show_nat delimited_no_tail)
qed

subsection \<open>Values\<close>

fun json_ok :: "json \<Rightarrow> bool" where
  "json_ok JNull = True"
| "json_ok (JBool b) = True"
| "json_ok (JNum s) = (case read_int s of None \<Rightarrow> False | Some i \<Rightarrow> s = show_int i)"
| "json_ok (JStr s) = valid_utf8 s"
| "json_ok (JArr js) = list_all json_ok js"
| "json_ok (JObj ms) = list_all (\<lambda>(k, v). valid_utf8 k \<and> json_ok v) ms"

text \<open>The first byte of a value's text: no white space, no closing bracket, no separator.\<close>

definition value_start :: "char \<Rightarrow> bool" where
  "value_start c \<longleftrightarrow> 32 < (of_char c :: nat) \<and> c \<notin> {CHR '']'', CHR ''}'', CHR '','', CHR '':''}"

lemma show_int_start:
  obtains c cs where "show_int i = c # cs" "c = CHR ''-'' \<or> is_digit c"
proof (cases "i < 0")
  case True
  then show ?thesis using that by (simp add: show_int_def)
next
  case False
  obtain c cs where "show_nat (nat i) = c # cs" by (cases "show_nat (nat i)") auto
  with False that show ?thesis
    using show_nat_digits [of c "nat i"] by (simp add: show_int_def)
qed

lemma value_start_digit: "is_digit c \<Longrightarrow> value_start c"
  by (auto simp: value_start_def is_digit_def)

lemma value_start_minus: "value_start (CHR ''-'')"
  by (simp add: value_start_def)

lemma show_int_value_start: "\<exists>c cs. show_int i = c # cs \<and> value_start c"
  by (rule show_int_start [of i]) (auto simp: value_start_digit value_start_minus)

lemma json_text_start_ex: "json_ok j \<Longrightarrow> \<exists>c cs. json_text j = c # cs \<and> value_start c"
proof (cases j)
  case (JNum s)
  moreover assume "json_ok j"
  ultimately obtain i where "s = show_int i" by (auto split: option.splits)
  with JNum show ?thesis using show_int_value_start [of i] by simp
next
  case (JBool b)
  then show ?thesis by (cases b) (simp_all add: value_start_def)
qed (simp_all add: value_start_def json_string_def)

lemma json_text_start:
  assumes "json_ok j"
  obtains c cs where "json_text j = c # cs" "value_start c"
  using json_text_start_ex [OF assms] by blast

lemma skip_ws_start: "value_start c \<Longrightarrow> skip_ws (c # cs) = c # cs"
  by (auto simp: value_start_def)

lemma skip_ws_delim [simp]:
  "skip_ws (CHR '','' # t) = CHR '','' # t" "skip_ws (CHR '']'' # t) = CHR '']'' # t"
  "skip_ws (CHR ''}'' # t) = CHR ''}'' # t" "skip_ws (CHR '':'' # t) = CHR '':'' # t"
  "skip_ws (quote_char # t) = quote_char # t"
  by simp_all

definition reads_back :: "json \<Rightarrow> bool" where
  "reads_back j \<longleftrightarrow> (\<forall>n t. json_ok j \<longrightarrow> delimited t \<longrightarrow> length (json_text j) < n \<longrightarrow>
     read_value n (json_text j @ t) = Some (j, t))"

lemma reads_backD:
  "\<lbrakk> reads_back j; json_ok j; delimited t; length (json_text j) < n \<rbrakk> \<Longrightarrow>
     read_value n (json_text j @ t) = Some (j, t)"
  by (simp add: reads_back_def)

lemma read_elems_text:
  assumes "js \<noteq> []" "\<forall>j \<in> set js. reads_back j" "list_all json_ok js"
    "length (join_with (CHR '','') (map json_text js)) + 1 < n"
  shows "read_elems n (join_with (CHR '','') (map json_text js) @ CHR '']'' # t) = Some (js, t)"
  using assms
proof (induction js arbitrary: n)
  case Nil
  then show ?case by simp
next
  case (Cons j js)
  obtain m where n: "n = Suc m" using Cons.prems by (cases n) auto
  have rb: "read_value m (json_text j @ u) = Some (j, u)" if "delimited u" for u
    using that Cons.prems n unfolding reads_back_def by (auto simp: join_with_Cons split: if_splits)
  show ?case
  proof (cases "js = []")
    case True
    then show ?thesis using rb [of "CHR '']'' # t"] n by simp
  next
    case False
    with Cons.prems n
    have "read_elems m (join_with (CHR '','') (map json_text js) @ CHR '']'' # t) = Some (js, t)"
      by (intro Cons.IH) (auto simp: join_with_Cons)
    with False show ?thesis
      using rb [of "CHR '','' # join_with (CHR '','') (map json_text js) @ CHR '']'' # t"] n
      by (simp add: join_with_Cons)
  qed
qed

definition member_text :: "string \<times> json \<Rightarrow> string" where
  "member_text = (\<lambda>(k, v). json_string k @ CHR '':'' # json_text v)"

lemma read_members_text:
  assumes "ms \<noteq> []" "\<forall>m \<in> set ms. reads_back (snd m)"
    "list_all (\<lambda>(k, v). valid_utf8 k \<and> json_ok v) ms"
    "length (join_with (CHR '','') (map member_text ms)) + 1 < n"
  shows "read_members n (join_with (CHR '','') (map member_text ms) @ CHR ''}'' # t) = Some (ms, t)"
  using assms
proof (induction ms arbitrary: n)
  case Nil
  then show ?case by simp
next
  case (Cons m ms)
  obtain k v where m: "m = (k, v)" by (cases m)
  obtain n' where n: "n = Suc n'" using Cons.prems by (cases n) auto
  have rb: "read_value n' (json_text v @ u) = Some (v, u)" if "delimited u" for u
    using that Cons.prems n m unfolding reads_back_def
    by (auto simp: join_with_Cons member_text_def split: if_splits)
  have str: "read_string (json_escape k @ quote_char # u) = Some (k, u)" for u
    using Cons.prems m by (simp add: read_string_escape)
  show ?case
  proof (cases "ms = []")
    case True
    then show ?thesis using rb [of "CHR ''}'' # t"] n m str
      by (simp add: member_text_def json_string_def)
  next
    case False
    with Cons.prems n
    have "read_members n' (join_with (CHR '','') (map member_text ms) @ CHR ''}'' # t) = Some (ms, t)"
      by (intro Cons.IH) (auto simp: join_with_Cons)
    with False show ?thesis
      using rb [of "CHR '','' # join_with (CHR '','') (map member_text ms) @ CHR ''}'' # t"] n m str
      by (simp add: join_with_Cons member_text_def json_string_def)
  qed
qed

lemma join_start:
  "xs \<noteq> [] \<Longrightarrow> hd xs = x # y \<Longrightarrow> \<exists>z. join_with c xs = x # z"
  by (cases xs) (auto simp: join_with_Cons)

lemma reads_back_all: "reads_back j"
proof (induction j)
  case JNull
  show ?case unfolding reads_back_def by (auto elim!: less_natE simp: Let_def)
next
  case (JBool b)
  show ?case unfolding reads_back_def by (auto elim!: less_natE simp: Let_def)
next
  case (JStr s)
  show ?case unfolding reads_back_def
    by (auto elim!: less_natE simp: Let_def json_string_def read_string_escape)
next
  case (JNum s)
  show ?case
    unfolding reads_back_def
  proof (intro allI impI)
    fix n t
    assume ok: "json_ok (JNum s)" and t: "delimited t" and "length (json_text (JNum s)) < n"
    then obtain m i where n: "n = Suc m" and s: "s = show_int i"
      by (auto elim!: less_natE split: option.splits)
    obtain c cs where c: "show_int i = c # cs" "c = CHR ''-'' \<or> is_digit c"
      by (rule show_int_start)
    then have vs: "value_start c" and ne: "c \<notin> {quote_char, CHR ''{'', CHR ''['', CHR ''n'', CHR ''t'', CHR ''f''}"
      by (auto simp: value_start_digit value_start_minus is_digit_def)
    have "read_number (c # cs @ t) = Some (s, t)"
      using read_number_show_int [OF t, of i] c s by simp
    with ne show "read_value n (json_text (JNum s) @ t) = Some (JNum s, t)"
      using skip_ws_start [OF vs] by (simp add: n s c Let_def)
  qed
next
  case (JArr js)
  show ?case
    unfolding reads_back_def
  proof (intro allI impI)
    fix n t
    assume ok: "json_ok (JArr js)" and len: "length (json_text (JArr js)) < n"
    then obtain m where n: "n = Suc m" by (auto elim!: less_natE)
    show "read_value n (json_text (JArr js) @ t) = Some (JArr js, t)"
    proof (cases "js = []")
      case True
      then show ?thesis by (simp add: n Let_def)
    next
      case False
      then have "json_ok (hd js)" using ok by (cases js) auto
      then obtain c cs where c: "json_text (hd js) = c # cs" "value_start c"
        by (rule json_text_start)
      from False c(1) obtain z where z: "join_with (CHR '','') (map json_text js) = c # z"
        using join_start [of "map json_text js" c cs "CHR '',''"] by (cases js) auto
      have "read_elems m (join_with (CHR '','') (map json_text js) @ CHR '']'' # t) = Some (js, t)"
        using False JArr ok len n by (intro read_elems_text) auto
      with z c(2) show ?thesis
        using skip_ws_start [OF c(2), of "z @ CHR '']'' # t"]
        by (simp add: n Let_def value_start_def)
    qed
  qed
next
  case (JObj ms)
  show ?case
    unfolding reads_back_def
  proof (intro allI impI)
    fix n t
    assume ok: "json_ok (JObj ms)" and len: "length (json_text (JObj ms)) < n"
    then obtain m where n: "n = Suc m" by (auto elim!: less_natE)
    have whole: "json_text (JObj ms) = CHR ''{'' # join_with (CHR '','') (map member_text ms) @ ''}''"
      by (simp add: member_text_def)
    show "read_value n (json_text (JObj ms) @ t) = Some (JObj ms, t)"
    proof (cases "ms = []")
      case True
      then show ?thesis by (simp add: n Let_def)
    next
      case False
      then obtain z where z: "join_with (CHR '','') (map member_text ms) = quote_char # z"
        using join_start [of "map member_text ms" quote_char _ "CHR '',''"]
        by (cases ms) (auto simp: member_text_def json_string_def)
      have "read_members m (join_with (CHR '','') (map member_text ms) @ CHR ''}'' # t) = Some (ms, t)"
        using False JObj ok len n whole
        by (intro read_members_text) (auto simp: prod_set_simps)
      with z show ?thesis
        by (simp add: n Let_def whole del: json_text.simps)
    qed
  qed
qed

lemma parse_json_text:
  assumes "json_ok j"
  shows "parse_json (json_text j) = Some j"
proof -
  have "read_value (length (json_text j) + 2) (json_text j @ []) = Some (j, [])"
    by (rule reads_backD [OF reads_back_all assms]) simp_all
  then show ?thesis by (simp add: parse_json_def del: read_value.simps)
qed

subsection \<open>Entries\<close>

lemma show_nat_as_int: "show_nat n = show_int (int n)"
  by (simp add: show_int_def)

lemma json_ok_enc_block: "block_text_ok b \<Longrightarrow> json_ok (enc_block b)"
  by (simp add: block_text_ok_def enc_block_def valid_utf8_ascii)

lemma json_ok_enc_entry: "entry_text_ok e \<Longrightarrow> json_ok (enc_entry e)"
  by (auto simp: entry_text_ok_def enc_entry_def valid_utf8_ascii show_nat_as_int list_all_iff
      json_ok_enc_block)

lemma dec_enc_block: "block_text_ok b \<Longrightarrow> dec_block (enc_block b) = Some b"
  by (cases b)
     (simp add: block_text_ok_def enc_block_def dec_block_def member_is_def ascii_lower_def
      dec_int64_def dec_string_def zero_block_def)

lemma those_dec_enc: "list_all block_text_ok bs \<Longrightarrow> those (map (dec_block \<circ> enc_block) bs) = Some bs"
  by (induction bs) (simp_all add: dec_enc_block)

lemma dec_enc_blocks:
  "list_all block_text_ok bs \<Longrightarrow> dec_blocks (JArr (map enc_block bs)) old = Some bs"
  by (simp add: dec_blocks_def those_dec_enc)

lemma dec_enc_uint32: "dec_uint32 (JNum (show_nat (unat w))) old = Some w"
  using unsigned_less [of w, where 'a = int] by (simp add: dec_uint32_def)

lemma dec_enc_entry: "entry_text_ok e \<Longrightarrow> dec_entry (enc_entry e) = Some e"
  by (cases e)
     (simp add: entry_text_ok_def enc_entry_def dec_entry_def member_is_def ascii_lower_def
      dec_int64_def dec_enc_uint32 dec_string_def zero_entry_def dec_enc_blocks)

lemma json_Unmarshal_Marshal: "entry_text_ok e \<Longrightarrow> json_Unmarshal (json_Marshal e) = Some e"
  by (simp add: json_Unmarshal_def json_Marshal_def parse_json_text json_ok_enc_entry dec_enc_entry)

section \<open>The size of escaped text\<close>

lemma length_json_escape: "length (json_escape s) \<le> 6 * length s"
proof (induction s rule: json_escape.induct)
  case (2 c cs)
  have a: "length (json_escape_ascii c) \<le> 6"
    by (simp add: json_escape_ascii_def hex_byte_def Let_def)
  show ?case
  proof (cases "(of_char c :: nat) < 0x80 \<or> rune_len (c # cs) = 0")
    case True
    then have e: "json_escape (c # cs) = json_escape_ascii c @ json_escape cs \<or>
        json_escape (c # cs) = bslash # ''ufffd'' @ json_escape cs"
      using json_escape.simps(2) [of c cs] by (auto split: if_splits)
    have "length (json_escape cs) \<le> 6 * length cs" using 2(1) 2(2) True by argo
    with e a show ?thesis by (auto)
  next
    case False
    define k where "k = rune_len (c # cs)"
    define r where "r = take k (c # cs)"
    define e where "e = (if r = line_sep then bslash # ''u2028'' else if r = para_sep then bslash # ''u2029'' else r)"
    have k: "0 < k" using False by (simp add: k_def)
    have esc: "json_escape (c # cs) = e @ json_escape (drop (k - 1) cs)"
      using False json_escape.simps(2) [of c cs] by (simp add: k_def r_def e_def Let_def)
    have ih: "length (json_escape (drop (k - 1) cs)) \<le> 6 * (length cs - (k - 1))"
      using 2(3) [of k r] False by (simp add: k_def r_def)
    have r: "length r = min k (Suc (length cs))" "1 \<le> length r" using k by (simp_all add: r_def min_def)
    have "length e \<le> 6 * length r" using r(2) by (simp add: e_def line_sep_def para_sep_def)
    then have "length e \<le> 6 * min k (Suc (length cs))" by (simp add: r(1))
    with ih k show ?thesis unfolding esc by (auto simp: min_def split: if_splits)
  qed
qed simp

end
