(* ===== verification/Filesystem.thy ===== *)
theory Filesystem
  imports Json "HOL-Library.AList"
begin

text \<open>
  The part of the operating system the code calls through Go's \<open>os.Root\<close> and \<open>os.File\<close>: trees of
  named nodes, inodes that hold the bytes, and the system calls on them. A directory handle keeps
  the tree it was opened on when the configured path is bound to another one; a file handle keeps
  its inode when the name is replaced. Lookups refuse to pass through a symbolic link: the code
  checks every component with \<open>checkComponents\<close> and rejects links before it uses a path.
\<close>

section \<open>Trees, inodes and file systems\<close>

datatype node =
    File nat
  | Dir "32 word" "(string \<times> node) list"
  | Symlink string
  | Special

record inode =
  idata :: bytes
  imode :: "32 word"
  imtime :: nat

record fsys =
  mounts :: "string \<Rightarrow> nat option"
  trees :: "nat \<Rightarrow> node"
  inodes :: "nat \<Rightarrow> inode"
  next_inode :: nat
  next_tree :: nat
  clock :: nat
  umask :: "32 word"

abbreviation NotDir :: error where "NotDir \<equiv> IOError ''not a directory''"
abbreviation LinkInPath :: error where "LinkInPath \<equiv> IOError ''symbolic link in path''"

fun lookup_node :: "node \<Rightarrow> string list \<Rightarrow> error + node" where
  "lookup_node n [] = Inr n"
| "lookup_node (Dir m es) (p # ps) =
     (case map_of es p of None \<Rightarrow> Inl NotExist | Some n \<Rightarrow> lookup_node n ps)"
| "lookup_node (Symlink t) (p # ps) = Inl LinkInPath"
| "lookup_node (File i) (p # ps) = Inl NotDir"
| "lookup_node Special (p # ps) = Inl NotDir"

text \<open>Bind (\<open>Some n\<close>) or unbind (\<open>None\<close>) the last name of a path in its directory; a path whose
  directory is missing changes nothing.\<close>

fun update_node :: "node \<Rightarrow> string list \<Rightarrow> node option \<Rightarrow> node" where
  "update_node (Dir m es) [p] x =
     (case x of None \<Rightarrow> Dir m (AList.delete p es) | Some n \<Rightarrow> Dir m (AList.update p n es))"
| "update_node (Dir m es) (p # q # ps) x =
     (case map_of es p of
        None \<Rightarrow> Dir m es
      | Some n \<Rightarrow> Dir m (AList.update p (update_node n (q # ps) x) es))"
| "update_node n _ _ = n"

text \<open>The inode a path names, if it names a regular file.\<close>

definition file_ino :: "node \<Rightarrow> string list \<Rightarrow> nat option" where
  "file_ino t p = (case lookup_node t p of Inr (File i) \<Rightarrow> Some i | _ \<Rightarrow> None)"

definition is_dir_at :: "node \<Rightarrow> string list \<Rightarrow> bool" where
  "is_dir_at t p = (case lookup_node t p of Inr (Dir m es) \<Rightarrow> True | _ \<Rightarrow> False)"

subsection \<open>Lookup and update\<close>

lemma lookup_node_append:
  "lookup_node t (p @ q) = (case lookup_node t p of Inl e \<Rightarrow> Inl e | Inr n \<Rightarrow> lookup_node n q)"
  by (induction t p rule: lookup_node.induct) (auto split: option.split)

lemma lookup_node_prefix: "lookup_node t (p @ q) = Inr n \<Longrightarrow> \<exists>n'. lookup_node t p = Inr n'"
  by (simp add: lookup_node_append split: sum.splits)

lemma lookup_node_parent_dir:
  "lookup_node t (p @ a # q) = Inr n \<Longrightarrow> is_dir_at t p"
  unfolding is_dir_at_def lookup_node_append
  by (cases "lookup_node t p") (auto elim!: lookup_node.elims split: node.split)

lemma lookup_update_same:
  "is_dir_at t p \<Longrightarrow>
     lookup_node (update_node t (p @ [a]) x) (p @ [a]) = (case x of None \<Rightarrow> Inl NotExist | Some n \<Rightarrow> Inr n)"
proof (induction p arbitrary: t)
  case Nil
  then show ?case
    by (cases t) (auto simp: is_dir_at_def update_conv' delete_conv' split: option.split)
next
  case (Cons b p)
  then show ?case
    by (cases t; cases p)
       (auto simp: is_dir_at_def update_conv' split: option.splits)
qed

lemma lookup_update_below:
  "is_dir_at t p \<Longrightarrow>
     lookup_node (update_node t (p @ [a]) x) (p @ a # q)
     = (case x of None \<Rightarrow> Inl NotExist | Some n \<Rightarrow> lookup_node n q)"
proof (induction p arbitrary: t)
  case Nil
  then show ?case
    by (cases t) (auto simp: is_dir_at_def update_conv' delete_conv' split: option.split)
next
  case (Cons b p)
  then show ?case
    by (cases t; cases p)
       (auto simp: is_dir_at_def update_conv' split: option.splits)
qed

text \<open>A path that does not start with the updated one: the node is the same, or both before and
  after a directory.\<close>

lemma lookup_update_other:
  "take (length p) q \<noteq> p \<Longrightarrow>
     lookup_node (update_node t p x) q = lookup_node t q
     \<or> (is_dir_at (update_node t p x) q \<and> is_dir_at t q)"
proof (induction p arbitrary: t q)
  case Nil
  then show ?case by simp
next
  case (Cons a p)
  show ?case
  proof (cases q)
    case Nil
    then show ?thesis
      by (cases t; cases p; cases x) (auto simp: is_dir_at_def split: option.split)
  next
    case (Cons b q')
    note q = this
    show ?thesis
    proof (cases t)
      case (Dir m es)
      show ?thesis
      proof (cases p)
        case Nil
        with Cons.prems q Dir show ?thesis
          by (cases x) (auto simp: update_conv' delete_conv')
      next
        case (Cons c p')
        note p = this
        show ?thesis
        proof (cases "a = b")
          case True
          show ?thesis
          proof (cases "map_of es a")
            case None
            with p q Dir True show ?thesis by simp
          next
            case (Some n)
            have "take (length p) q' \<noteq> p"
              using Cons.prems q True by simp
            from Cons.IH [OF this, of n] show ?thesis
              using p q Dir True Some by (simp add: update_conv' is_dir_at_def)
          qed
        next
          case False
          with p q Dir show ?thesis by (auto simp: update_conv' split: option.split)
        qed
      qed
    qed (use q in \<open>cases p; auto\<close>)+
  qed
qed

lemma file_ino_update_other:
  "take (length p) q \<noteq> p \<Longrightarrow> file_ino (update_node t p x) q = file_ino t q"
  using lookup_update_other [of p q t x]
  by (auto simp: file_ino_def is_dir_at_def split: sum.splits node.splits)

lemma file_ino_below_file:
  "lookup_node t p = Inr (File i) \<Longrightarrow> file_ino t (p @ a # q) = None"
  by (simp add: file_ino_def lookup_node_append)

lemma file_ino_missing:
  "lookup_node t p = Inl e \<Longrightarrow> file_ino t (p @ q) = None"
  by (simp add: file_ino_def lookup_node_append)

section \<open>System calls\<close>

text \<open>What \<open>Lstat\<close> and \<open>File.Stat\<close> report: \<open>fi_object\<close> identifies the file for \<open>os.SameFile\<close>.\<close>

datatype ftype = Regular | Directory | Link | Irregular

record FileInfo =
  fi_type :: ftype
  fi_perm :: "32 word"
  fi_size :: int
  fi_mtime :: nat
  fi_object :: "nat option"

datatype handle = HFile nat | HDir "32 word" | HOther

definition ino_info :: "fsys \<Rightarrow> nat \<Rightarrow> FileInfo" where
  "ino_info s i = \<lparr>fi_type = Regular, fi_perm = imode (inodes s i), fi_size = int (length (idata (inodes s i))),
     fi_mtime = imtime (inodes s i), fi_object = Some i\<rparr>"

definition plain_info :: "ftype \<Rightarrow> 32 word \<Rightarrow> FileInfo" where
  "plain_info t m = \<lparr>fi_type = t, fi_perm = m, fi_size = 0, fi_mtime = 0, fi_object = None\<rparr>"

definition node_info :: "fsys \<Rightarrow> node \<Rightarrow> FileInfo" where
  "node_info s n = (case n of
       File i \<Rightarrow> ino_info s i
     | Dir m es \<Rightarrow> plain_info Directory m
     | Symlink t \<Rightarrow> plain_info Link 511
     | Special \<Rightarrow> plain_info Irregular 511)"

text \<open>The names an \<open>os.Root\<close> method takes: \<open>"."\<close> is the root itself.\<close>

definition components :: "string \<Rightarrow> string list" where
  "components name = (if name = ''.'' then [] else split_on slash name)"

text \<open>\<open>os.OpenRoot\<close>.\<close>

definition fs_open_root :: "string \<Rightarrow> fsys \<Rightarrow> (error + nat) \<times> fsys" where
  "fs_open_root path s = (case mounts s path of
       None \<Rightarrow> (Inl NotExist, s)
     | Some r \<Rightarrow> (case trees s r of Dir m es \<Rightarrow> (Inr r, s) | _ \<Rightarrow> (Inl NotDir, s)))"

definition fs_lstat :: "nat \<Rightarrow> string list \<Rightarrow> fsys \<Rightarrow> (error + FileInfo) \<times> fsys" where
  "fs_lstat r p s = (case lookup_node (trees s r) p of
       Inl e \<Rightarrow> (Inl e, s) | Inr n \<Rightarrow> (Inr (node_info s n), s))"

text \<open>\<open>Root.Open\<close>; opening a link would follow it, which the confinement check refuses here.\<close>

definition fs_open :: "nat \<Rightarrow> string list \<Rightarrow> fsys \<Rightarrow> (error + handle) \<times> fsys" where
  "fs_open r p s = (case lookup_node (trees s r) p of
       Inl e \<Rightarrow> (Inl e, s)
     | Inr (File i) \<Rightarrow> (Inr (HFile i), s)
     | Inr (Dir m es) \<Rightarrow> (Inr (HDir m), s)
     | Inr (Symlink t) \<Rightarrow> (Inl LinkInPath, s)
     | Inr Special \<Rightarrow> (Inr HOther, s))"

definition handle_info :: "fsys \<Rightarrow> handle \<Rightarrow> FileInfo" where
  "handle_info s h = (case h of
       HFile i \<Rightarrow> ino_info s i
     | HDir m \<Rightarrow> plain_info Directory m
     | HOther \<Rightarrow> plain_info Irregular 511)"

definition fs_fstat :: "handle \<Rightarrow> fsys \<Rightarrow> (error + FileInfo) \<times> fsys" where
  "fs_fstat h s = (Inr (handle_info s h), s)"

text \<open>\<open>os.MkdirAll\<close> of a configured absolute path: a directory that is not there is a new empty tree.\<close>

definition fs_make_root :: "string \<Rightarrow> 32 word \<Rightarrow> fsys \<Rightarrow> (error + unit) \<times> fsys" where
  "fs_make_root path m s = (case mounts s path of
       Some r \<Rightarrow> (case trees s r of Dir m' es \<Rightarrow> (Inr (), s) | _ \<Rightarrow> (Inl NotDir, s))
     | None \<Rightarrow> (Inr (), s\<lparr>mounts := (mounts s)(path \<mapsto> next_tree s),
                         trees := (trees s)(next_tree s := Dir (m AND NOT (umask s)) []),
                         next_tree := Suc (next_tree s)\<rparr>))"

text \<open>\<open>ReadAt\<close> of \<open>n\<close> bytes at \<open>off\<close>, and \<open>io.ReadFull\<close> at that position: all of them, or an error.\<close>

definition fs_read_at :: "handle \<Rightarrow> int \<Rightarrow> int \<Rightarrow> fsys \<Rightarrow> (error + bytes) \<times> fsys" where
  "fs_read_at h off n s = (case h of
       HFile i \<Rightarrow>
         (if off < 0 \<or> n < 0 then (Inl (IOError ''negative offset''), s)
          else if off + n \<le> int (length (idata (inodes s i)))
            then (Inr (take (nat n) (drop (nat off) (idata (inodes s i)))), s)
            else (Inl (IOError ''EOF''), s))
     | _ \<Rightarrow> (Inl (IOError ''is a directory''), s))"

text \<open>\<open>io.ReadAll(io.LimitReader(f, limit))\<close>.\<close>

definition fs_read_limited :: "handle \<Rightarrow> nat \<Rightarrow> fsys \<Rightarrow> (error + bytes) \<times> fsys" where
  "fs_read_limited h limit s = (case h of
       HFile i \<Rightarrow> (Inr (take limit (idata (inodes s i))), s)
     | _ \<Rightarrow> (Inl (IOError ''is a directory''), s))"

definition set_tree :: "nat \<Rightarrow> node \<Rightarrow> fsys \<Rightarrow> fsys" where
  "set_tree r t s = s\<lparr>trees := (trees s)(r := t)\<rparr>"

definition set_inode :: "nat \<Rightarrow> inode \<Rightarrow> fsys \<Rightarrow> fsys" where
  "set_inode i x s = s\<lparr>inodes := (inodes s)(i := x)\<rparr>"

text \<open>\<open>Write\<close> at the handle's position \<open>pos\<close>; the clock gives the new modification time.\<close>

definition overwrite :: "nat \<Rightarrow> bytes \<Rightarrow> bytes \<Rightarrow> bytes" where
  "overwrite pos new old =
     take pos old @ replicate (pos - length old) (char_of (0 :: nat)) @ new @ drop (pos + length new) old"

definition fs_write :: "handle \<Rightarrow> nat \<Rightarrow> bytes \<Rightarrow> fsys \<Rightarrow> (error + unit) \<times> fsys" where
  "fs_write h pos data s = (case h of
       HFile i \<Rightarrow>
         (Inr (), (set_inode i ((inodes s i)\<lparr>idata := overwrite pos data (idata (inodes s i)), imtime := clock s\<rparr>) s)
            \<lparr>clock := Suc (clock s)\<rparr>)
     | _ \<Rightarrow> (Inl (IOError ''bad file descriptor''), s))"

definition fs_chmod :: "handle \<Rightarrow> 32 word \<Rightarrow> fsys \<Rightarrow> (error + unit) \<times> fsys" where
  "fs_chmod h m s = (case h of
       HFile i \<Rightarrow> (Inr (), set_inode i ((inodes s i)\<lparr>imode := m\<rparr>) s)
     | _ \<Rightarrow> (Inl (IOError ''operation not permitted''), s))"

text \<open>\<open>Sync\<close> and \<open>Close\<close> change no byte; they can only fail.\<close>

definition fs_sync :: "handle \<Rightarrow> fsys \<Rightarrow> (error + unit) \<times> fsys" where
  "fs_sync h s = (Inr (), s)"

text \<open>A new name in an existing directory.\<close>

definition parent_of :: "string list \<Rightarrow> string list" where
  "parent_of p = butlast p"

definition fs_link_new :: "nat \<Rightarrow> string list \<Rightarrow> node \<Rightarrow> fsys \<Rightarrow> (error + unit) \<times> fsys" where
  "fs_link_new r p n s =
     (case lookup_node (trees s r) p of
        Inr _ \<Rightarrow> (Inl AlreadyExists, s)
      | Inl e \<Rightarrow>
          (case lookup_node (trees s r) (parent_of p) of
             Inr (Dir m es) \<Rightarrow> (Inr (), set_tree r (update_node (trees s r) p (Some n)) s)
           | _ \<Rightarrow> (Inl e, s)))"

definition fs_mkdir :: "nat \<Rightarrow> string list \<Rightarrow> 32 word \<Rightarrow> fsys \<Rightarrow> (error + unit) \<times> fsys" where
  "fs_mkdir r p m s = fs_link_new r p (Dir (m AND NOT (umask s)) []) s"

text \<open>\<open>OpenFile\<close> with \<open>O_CREATE|O_EXCL|O_WRONLY\<close>: a fresh inode.\<close>

definition fs_create_excl :: "nat \<Rightarrow> string list \<Rightarrow> 32 word \<Rightarrow> fsys \<Rightarrow> (error + handle) \<times> fsys" where
  "fs_create_excl r p m s =
     (let i = next_inode s in
      case fs_link_new r p (File i) s of
        (Inl e, s') \<Rightarrow> (Inl e, s')
      | (Inr _, s') \<Rightarrow>
          (Inr (HFile i),
           (set_inode i \<lparr>idata = [], imode = m AND NOT (umask s), imtime = clock s\<rparr> s')
             \<lparr>next_inode := Suc i, clock := Suc (clock s)\<rparr>))"

text \<open>\<open>MkdirAll\<close>: every missing directory from the top, an error at the first non-directory.\<close>

fun fs_mkdir_all :: "nat \<Rightarrow> string list \<Rightarrow> string list \<Rightarrow> 32 word \<Rightarrow> fsys \<Rightarrow> (error + unit) \<times> fsys" where
  "fs_mkdir_all r pre [] m s = (Inr (), s)"
| "fs_mkdir_all r pre (p # ps) m s =
     (case lookup_node (trees s r) (pre @ [p]) of
        Inr (Dir m' es) \<Rightarrow> fs_mkdir_all r (pre @ [p]) ps m s
      | Inr (Symlink t) \<Rightarrow> (Inl LinkInPath, s)
      | Inr _ \<Rightarrow> (Inl NotDir, s)
      | Inl e \<Rightarrow>
          (case fs_mkdir r (pre @ [p]) m s of
             (Inl e', s') \<Rightarrow> (Inl e', s')
           | (Inr _, s') \<Rightarrow> fs_mkdir_all r (pre @ [p]) ps m s'))"

text \<open>\<open>Remove\<close> of a file or an empty directory.\<close>

definition fs_remove :: "nat \<Rightarrow> string list \<Rightarrow> fsys \<Rightarrow> (error + unit) \<times> fsys" where
  "fs_remove r p s =
     (case lookup_node (trees s r) p of
        Inl e \<Rightarrow> (Inl e, s)
      | Inr (Dir m (x # xs)) \<Rightarrow> (Inl (IOError ''directory not empty''), s)
      | Inr _ \<Rightarrow> (if p = [] then (Inl (IOError ''invalid argument''), s)
                   else (Inr (), set_tree r (update_node (trees s r) p None) s)))"

text \<open>\<open>Rename\<close> of a file: it replaces a file, a link or nothing at the new name, atomically.\<close>

definition fs_rename :: "nat \<Rightarrow> string list \<Rightarrow> string list \<Rightarrow> fsys \<Rightarrow> (error + unit) \<times> fsys" where
  "fs_rename r p q s =
     (case lookup_node (trees s r) p of
        Inl e \<Rightarrow> (Inl e, s)
      | Inr n \<Rightarrow>
          (case lookup_node (trees s r) q of
             Inr (Dir m es) \<Rightarrow> (Inl (IOError ''file exists''), s)
           | res \<Rightarrow>
               (case lookup_node (trees s r) (parent_of q) of
                  Inr (Dir m es) \<Rightarrow>
                    (if p = q then (Inr (), s)
                     else (Inr (), set_tree r (update_node (update_node (trees s r) p None) q (Some n)) s))
                | Inr _ \<Rightarrow> (Inl NotDir, s)
                | Inl e \<Rightarrow> (Inl e, s))))"

text \<open>\<open>fs.ReadDir\<close>: the names of a directory in byte order, each with the type its entry records.\<close>

definition node_type :: "node \<Rightarrow> ftype" where
  "node_type n = (case n of File i \<Rightarrow> Regular | Dir m es \<Rightarrow> Directory | Symlink t \<Rightarrow> Link | Special \<Rightarrow> Irregular)"

definition dir_entries :: "(string \<times> node) list \<Rightarrow> (string \<times> ftype) list" where
  "dir_entries es = map (\<lambda>p. (p, node_type (the (map_of es p)))) (sort (remdups (map fst es)))"

definition fs_read_dir :: "nat \<Rightarrow> string list \<Rightarrow> fsys \<Rightarrow> (error + (string \<times> ftype) list) \<times> fsys" where
  "fs_read_dir r p s = (case lookup_node (trees s r) p of
       Inl e \<Rightarrow> (Inl e, s)
     | Inr (Dir m es) \<Rightarrow> (Inr (dir_entries es), s)
     | Inr _ \<Rightarrow> (Inl NotDir, s))"

section \<open>The visible files of a folder\<close>

text \<open>The bytes a path shows, if it names a regular file of the tree \<open>r\<close>.\<close>

definition content :: "fsys \<Rightarrow> nat \<Rightarrow> string list \<Rightarrow> bytes option" where
  "content s r p = map_option (\<lambda>i. idata (inodes s i)) (file_ino (trees s r) p)"

text \<open>Inodes at or above \<open>next_inode\<close> are in no tree: a created file is a new one.\<close>

fun node_inos :: "node \<Rightarrow> nat set" where
  "node_inos (File i) = {i}"
| "node_inos (Dir m es) = (\<Union>(n, x) \<in> set es. node_inos x)"
| "node_inos _ = {}"

definition fs_wf :: "fsys \<Rightarrow> bool" where
  "fs_wf s \<longleftrightarrow> (\<forall>r. \<forall>i \<in> node_inos (trees s r). i < next_inode s)"

lemma file_ino_in_node_inos: "file_ino t p = Some i \<Longrightarrow> i \<in> node_inos t"
proof (induction t p rule: lookup_node.induct)
  case (1 n)
  then show ?case by (cases n) (auto simp: file_ino_def)
next
  case (2 m es p ps)
  then show ?case
    by (force simp: file_ino_def split: option.splits dest: map_of_SomeD)
qed (auto simp: file_ino_def)

lemma file_ino_bound: "fs_wf s \<Longrightarrow> file_ino (trees s r) p = Some i \<Longrightarrow> i < next_inode s"
  using file_ino_in_node_inos [of "trees s r" p i] by (auto simp: fs_wf_def)

lemma set_AList_update: "set (AList.update k v xs) \<subseteq> insert (k, v) (set xs)"
  by (induction xs) auto

lemma set_AList_delete: "set (AList.delete k xs) \<subseteq> set xs"
  by (auto simp: AList.delete_eq)

lemma node_inos_update:
  "node_inos (update_node t p x) \<subseteq> node_inos t \<union> (case x of None \<Rightarrow> {} | Some n \<Rightarrow> node_inos n)"
proof (induction t p x rule: update_node.induct)
  case (1 m es p x)
  then show ?case
    by (cases x) (auto dest!: set_AList_update [THEN subsetD] set_AList_delete [THEN subsetD])
next
  case (2 m es p q ps x)
  show ?case
  proof (cases "map_of es p")
    case None
    then show ?thesis by auto
  next
    case (Some n)
    then have "node_inos n \<subseteq> node_inos (Dir m es)"
      using map_of_SomeD [OF Some] by force
    with 2 [OF Some] Some show ?thesis
      using set_AList_update [of p "update_node n (q # ps) x" es] by fastforce
  qed
qed auto

lemma lookup_node_inos: "lookup_node t p = Inr n \<Longrightarrow> node_inos n \<subseteq> node_inos t"
proof (induction t p rule: lookup_node.induct)
  case (2 m es p ps)
  then obtain n' where n': "map_of es p = Some n'" "lookup_node n' ps = Inr n"
    by (auto split: option.splits)
  with 2 show ?case using map_of_SomeD [OF n'(1)] by force
qed auto

end
