(* ===== verification/Index.thy ===== *)
theory Index
  imports Filesystem
begin

text \<open>
  The SQLite index of \<^verbatim>\<open>internal/store/store.go\<close>: the tables \<open>entries\<close> and \<open>folder_usage\<close>, the
  three triggers that keep the usage of a folder equal to the number and the size of its rows, the
  CHECK constraints, and the statements the store executes. A statement either fails and leaves
  the tables as they were, or returns the new tables.
\<close>

section \<open>Tables\<close>

definition MaxFileSize :: int where
  "MaxFileSize = 8 * 2 ^ 30"

definition MaxEntries :: int where
  "MaxEntries = 100000"

definition MaxManifestBytes :: int where
  "MaxManifestBytes = 64 * 2 ^ 20"

record database =
  entries_tbl :: "((string \<times> string) \<times> bytes) list"
  folder_usage :: "(string \<times> (int \<times> int)) list"
  user_version :: int

definition empty_database :: database where
  "empty_database = \<lparr>entries_tbl = [], folder_usage = [], user_version = 0\<rparr>"

text \<open>The rows of a folder, path and manifest.\<close>

definition folder_rows :: "database \<Rightarrow> string \<Rightarrow> (string \<times> bytes) list" where
  "folder_rows db f = map (\<lambda>((g, p), m). (p, m)) (filter (\<lambda>((g, p), m). g = f) (entries_tbl db))"

text \<open>A row counts its manifest and one byte for the separator in the listing.\<close>

definition row_bytes :: "bytes \<Rightarrow> int" where
  "row_bytes m = int (length m) + 1"

definition rows_bytes :: "(string \<times> bytes) list \<Rightarrow> int" where
  "rows_bytes rows = (\<Sum>(p, m)\<leftarrow>rows. row_bytes m)"

section \<open>Constraints and triggers\<close>

definition usage_check :: "int \<times> int \<Rightarrow> bool" where
  "usage_check u = (case u of (n, b) \<Rightarrow>
     0 \<le> n \<and> n \<le> MaxEntries \<and> 0 \<le> b \<and> b \<le> MaxManifestBytes - 2)"

definition set_usage :: "string \<Rightarrow> int \<times> int \<Rightarrow> database \<Rightarrow> error + database" where
  "set_usage f u db =
     (if usage_check u then Inr (db\<lparr>folder_usage := AList.update f u (folder_usage db)\<rparr>)
      else Inl (Errorf ''CHECK constraint failed: folder_usage'' []))"

definition entries_insert :: "string \<Rightarrow> bytes \<Rightarrow> database \<Rightarrow> error + database" where
  "entries_insert f m db =
     (case map_of (folder_usage db) f of
        None \<Rightarrow> set_usage f (1, int (length m) + 1) db
      | Some (n, b) \<Rightarrow> set_usage f (n + 1, b + int (length m) + 1) db)"

definition entries_update :: "string \<Rightarrow> bytes \<Rightarrow> bytes \<Rightarrow> database \<Rightarrow> error + database" where
  "entries_update f new old db =
     (case map_of (folder_usage db) f of
        None \<Rightarrow> Inr db
      | Some (n, b) \<Rightarrow> set_usage f (n, b + int (length new) - int (length old)) db)"

definition entries_delete :: "string \<Rightarrow> bytes \<Rightarrow> database \<Rightarrow> error + database" where
  "entries_delete f old db =
     (case map_of (folder_usage db) f of
        None \<Rightarrow> Inr db
      | Some (n, b) \<Rightarrow> set_usage f (n - 1, b - int (length old) - 1) db)"

section \<open>Statements\<close>

definition select_manifest :: "database \<Rightarrow> string \<Rightarrow> string \<Rightarrow> bytes option" where
  "select_manifest db f p = map_of (entries_tbl db) (f, p)"

text \<open>\<open>SELECT manifest FROM entries WHERE folder=? ORDER BY path\<close>.\<close>

definition select_folder :: "database \<Rightarrow> string \<Rightarrow> bytes list" where
  "select_folder db f = map snd (sort_key fst (folder_rows db f))"

text \<open>\<open>INSERT INTO entries(folder,path,manifest) VALUES(?,?,?)\<close>.\<close>

definition insert_row :: "string \<Rightarrow> string \<Rightarrow> bytes \<Rightarrow> database \<Rightarrow> error + database" where
  "insert_row f p m db =
     (case select_manifest db f p of
        Some _ \<Rightarrow> Inl (Errorf ''UNIQUE constraint failed: entries'' [])
      | None \<Rightarrow> entries_insert f m (db\<lparr>entries_tbl := ((f, p), m) # entries_tbl db\<rparr>))"

text \<open>\<open>INSERT ... ON CONFLICT(folder,path) DO UPDATE SET manifest=excluded.manifest\<close>.\<close>

definition upsert_row :: "string \<Rightarrow> string \<Rightarrow> bytes \<Rightarrow> database \<Rightarrow> error + database" where
  "upsert_row f p m db =
     (case select_manifest db f p of
        None \<Rightarrow> insert_row f p m db
      | Some old \<Rightarrow>
          entries_update f m old
            (db\<lparr>entries_tbl := ((f, p), m) # filter (\<lambda>r. fst r \<noteq> (f, p)) (entries_tbl db)\<rparr>))"

text \<open>\<open>DELETE FROM entries WHERE folder=?\<close>: the rows one by one, the trigger after each.\<close>

fun delete_rows :: "string \<Rightarrow> (string \<times> bytes) list \<Rightarrow> database \<Rightarrow> error + database" where
  "delete_rows f [] db = Inr db"
| "delete_rows f ((p, m) # rows) db =
     (case entries_delete f m (db\<lparr>entries_tbl := filter (\<lambda>r. fst r \<noteq> (f, p)) (entries_tbl db)\<rparr>) of
        Inl e \<Rightarrow> Inl e
      | Inr db' \<Rightarrow> delete_rows f rows db')"

definition delete_folder :: "string \<Rightarrow> database \<Rightarrow> error + database" where
  "delete_folder f db = delete_rows f (folder_rows db f) db"

text \<open>The two numbers the query of \<open>checkCapacity\<close> computes.\<close>

definition capacity_after :: "database \<Rightarrow> string \<Rightarrow> string \<Rightarrow> bytes \<Rightarrow> int \<times> int" where
  "capacity_after db f p raw =
     (let (n, b) = (case map_of (folder_usage db) f of None \<Rightarrow> (0, 0) | Some u \<Rightarrow> u);
          old = select_manifest db f p
      in (n + 1 - (case old of None \<Rightarrow> 0 | Some _ \<Rightarrow> 1),
          b + (int (length raw) + 1) - (case old of None \<Rightarrow> 0 | Some m \<Rightarrow> int (length m) + 1)))"

text \<open>
  What \<open>Open\<close> executes: the tables and triggers are created when missing, every folder that has
  rows gets its usage counted again, and the schema version is set.
\<close>

fun recount :: "string list \<Rightarrow> database \<Rightarrow> error + database" where
  "recount [] db = Inr db"
| "recount (f # fs) db =
     (case set_usage f (int (length (folder_rows db f)), rows_bytes (folder_rows db f)) db of
        Inl e \<Rightarrow> Inl e
      | Inr db' \<Rightarrow> recount fs db')"

definition recount_usage :: "database \<Rightarrow> error + database" where
  "recount_usage db = recount (remdups (map (\<lambda>r. fst (fst r)) (entries_tbl db))) db"

definition set_user_version :: "int \<Rightarrow> database \<Rightarrow> error + database" where
  "set_user_version v db = Inr (db\<lparr>user_version := v\<rparr>)"

section \<open>The invariant of the tables\<close>

text \<open>
  The key is unique and the usage row of a folder is exactly the count and the size of its rows,
  within the limits; a folder without a usage row has no rows.
\<close>

definition keys_ok :: "database \<Rightarrow> bool" where
  "keys_ok db \<longleftrightarrow> distinct (map fst (entries_tbl db))"

definition usage_of :: "database \<Rightarrow> string \<Rightarrow> int \<times> int" where
  "usage_of db f = (int (length (folder_rows db f)), rows_bytes (folder_rows db f))"

definition usage_ok :: "database \<Rightarrow> string \<Rightarrow> bool" where
  "usage_ok db f \<longleftrightarrow>
     (case map_of (folder_usage db) f of
        None \<Rightarrow> folder_rows db f = []
      | Some u \<Rightarrow> u = usage_of db f \<and> usage_check u)"

definition db_inv :: "database \<Rightarrow> bool" where
  "db_inv db \<longleftrightarrow> keys_ok db \<and> (\<forall>f. usage_ok db f)"

lemma db_inv_empty: "db_inv empty_database"
  by (simp add: db_inv_def keys_ok_def usage_ok_def empty_database_def folder_rows_def)

lemma usage_of_check:
  assumes "db_inv db"
  shows "usage_check (usage_of db f)"
  using assms
  by (auto simp: db_inv_def usage_ok_def usage_of_def usage_check_def rows_bytes_def MaxEntries_def
      MaxManifestBytes_def split: option.splits dest!: spec [of _ f])

lemma usage_default:
  assumes "db_inv db"
  shows "(case map_of (folder_usage db) f of None \<Rightarrow> (0, 0) | Some u \<Rightarrow> u) = usage_of db f"
  using assms
  by (auto simp: db_inv_def usage_ok_def usage_of_def rows_bytes_def split: option.splits
      dest!: spec [of _ f])

subsection \<open>Rows after a change\<close>

lemma folder_rows_Cons:
  "folder_rows (db\<lparr>entries_tbl := ((g, p), m) # t\<rparr>) f =
     (if g = f then (p, m) # folder_rows (db\<lparr>entries_tbl := t\<rparr>) f
      else folder_rows (db\<lparr>entries_tbl := t\<rparr>) f)"
  by (simp add: folder_rows_def)

lemma folder_rows_same [simp]:
  "folder_rows (db\<lparr>folder_usage := u\<rparr>) f = folder_rows db f"
  "folder_rows (db\<lparr>user_version := v\<rparr>) f = folder_rows db f"
  "folder_rows (db\<lparr>entries_tbl := entries_tbl db\<rparr>) f = folder_rows db f"
  by (simp_all add: folder_rows_def)

text \<open>Removing the row of a key from the rows of its folder.\<close>

lemma folder_rows_remove:
  "folder_rows (db\<lparr>entries_tbl := filter (\<lambda>r. fst r \<noteq> (f, p)) (entries_tbl db)\<rparr>) g =
     (if g = f then filter (\<lambda>r. fst r \<noteq> p) (folder_rows db f) else folder_rows db g)"
proof -
  have "filter (\<lambda>((g', q), m). g' = g) (filter (\<lambda>r. fst r \<noteq> (f, p)) t) =
      (if g = f then filter (\<lambda>r. snd (fst r) \<noteq> p) (filter (\<lambda>((g', q), m). g' = g) t)
       else filter (\<lambda>((g', q), m). g' = g) t)" for t :: "((string \<times> string) \<times> bytes) list"
    by (induction t) auto
  then show ?thesis
    by (auto simp: folder_rows_def filter_map o_def case_prod_beta intro!: map_cong filter_cong)
qed

lemma select_manifest_folder_rows:
  "keys_ok db \<Longrightarrow> select_manifest db f p = map_of (folder_rows db f) p"
proof -
  have "map_of t (f, p) = map_of (map (\<lambda>((g, p), m). (p, m)) (filter (\<lambda>((g, p), m). g = f) t)) p"
    for t :: "((string \<times> string) \<times> bytes) list"
    by (induction t) auto
  then show ?thesis by (simp add: select_manifest_def folder_rows_def)
qed

lemma distinct_folder_rows: "keys_ok db \<Longrightarrow> distinct (map fst (folder_rows db f))"
proof -
  have "distinct (map fst t) \<Longrightarrow>
    distinct (map fst (map (\<lambda>((g, p), m). (p, m)) (filter (\<lambda>((g, p), m). g = f) t)))"
    for t :: "((string \<times> string) \<times> bytes) list"
    by (induction t) (auto simp: image_iff)
  then show "keys_ok db \<Longrightarrow> distinct (map fst (folder_rows db f))"
    by (simp add: keys_ok_def folder_rows_def)
qed

lemma remove_row_count:
  assumes "distinct (map fst rows)" "map_of rows p = Some m"
  shows "int (length (filter (\<lambda>r. fst r \<noteq> p) rows)) = int (length rows) - 1"
    and "rows_bytes (filter (\<lambda>r. fst r \<noteq> p) rows) = rows_bytes rows - row_bytes m"
  using assms
proof (induction rows)
  case (Cons r rows)
  { case 1
    moreover have "filter (\<lambda>r. fst r \<noteq> p) rows = rows" if "fst r = p"
      using 1 that by (auto simp: filter_id_conv image_iff)
    ultimately show ?case using Cons.IH
      by (cases r) (auto split: if_splits)
  next
    case 2
    have "filter (\<lambda>r. fst r \<noteq> p) rows = rows" if "fst r = p"
      using 2 that by (auto simp: filter_id_conv image_iff)
    with 2 show ?case using Cons.IH
      by (cases r) (auto split: if_splits simp: rows_bytes_def)
  }
qed simp_all

lemma filter_key_absent: "map_of rows p = None \<Longrightarrow> filter (\<lambda>r. fst r \<noteq> p) rows = rows"
  by (auto simp: filter_id_conv map_of_eq_None_iff)

subsection \<open>The statements keep the invariant\<close>

lemma set_usage_Inr:
  "set_usage f u db = Inr db' \<longleftrightarrow>
     usage_check u \<and> db' = db\<lparr>folder_usage := AList.update f u (folder_usage db)\<rparr>"
  by (auto simp: set_usage_def)

lemma keys_ok_cong: "entries_tbl db' = entries_tbl db \<Longrightarrow> keys_ok db' = keys_ok db"
  by (simp add: keys_ok_def)

lemma usage_ok_set_same:
  assumes "u = usage_of db f" "usage_check u"
  shows "usage_ok (db\<lparr>folder_usage := AList.update f u us\<rparr>) f"
  using assms by (simp add: usage_ok_def usage_of_def update_conv')

lemma usage_ok_set_other:
  assumes "g \<noteq> f" "folder_rows db g = folder_rows db0 g" "usage_ok db0 g"
  shows "usage_ok (db\<lparr>folder_usage := AList.update f u (folder_usage db0)\<rparr>) g"
  using assms by (simp add: usage_ok_def usage_of_def update_conv' split: option.splits)

text \<open>One change of the table \<open>entries\<close> in one folder, followed by the matching usage row.\<close>

lemma db_inv_change:
  assumes inv: "db_inv db" and keys: "keys_ok db1"
    and usage: "folder_usage db1 = folder_usage db"
    and other: "\<And>g. g \<noteq> f \<Longrightarrow> folder_rows db1 g = folder_rows db g"
    and set: "set_usage f (usage_of db1 f) db1 = Inr db'"
  shows "db_inv db'"
proof -
  have db': "db' = db1\<lparr>folder_usage := AList.update f (usage_of db1 f) (folder_usage db)\<rparr>"
    and check: "usage_check (usage_of db1 f)"
    using set usage by (auto simp: set_usage_Inr)
  have "usage_ok db' g" for g
  proof (cases "g = f")
    case True
    with check show ?thesis unfolding db' by (simp add: usage_ok_set_same)
  next
    case False
    with inv other show ?thesis
      unfolding db' by (intro usage_ok_set_other) (auto simp: db_inv_def)
  qed
  moreover have "keys_ok db'"
    using keys by (simp add: db' keys_ok_def)
  ultimately show ?thesis by (simp add: db_inv_def)
qed

lemma keys_ok_insert:
  "keys_ok db \<Longrightarrow> select_manifest db f p = None \<Longrightarrow>
     keys_ok (db\<lparr>entries_tbl := ((f, p), m) # entries_tbl db\<rparr>)"
  by (auto simp: keys_ok_def select_manifest_def map_of_eq_None_iff)

lemma keys_ok_filter: "keys_ok db \<Longrightarrow> keys_ok (db\<lparr>entries_tbl := filter P (entries_tbl db)\<rparr>)"
  by (auto simp: keys_ok_def distinct_map_filter)

lemma keys_ok_replace:
  "keys_ok db \<Longrightarrow>
     keys_ok (db\<lparr>entries_tbl := (k, m) # filter (\<lambda>r. fst r \<noteq> k) (entries_tbl db)\<rparr>)"
  by (auto simp: keys_ok_def distinct_map_filter)

lemma map_of_usage_Some:
  assumes "db_inv db" "map_of (folder_usage db) f = Some u"
  shows "u = usage_of db f"
proof -
  have "usage_ok db f" using assms(1) by (simp add: db_inv_def)
  with assms(2) show ?thesis by (cases u) (simp add: usage_ok_def)
qed

lemma map_of_usage_None:
  assumes "db_inv db" "map_of (folder_usage db) f = None"
  shows "folder_rows db f = []"
proof -
  have "usage_ok db f" using assms(1) by (simp add: db_inv_def)
  with assms(2) show ?thesis by (simp add: usage_ok_def)
qed

text \<open>On tables that satisfy the invariant a statement's trigger sets the usage of the new rows.\<close>

lemma insert_row_eq:
  fixes m :: bytes
  assumes "db_inv db" "select_manifest db f p = None"
  defines "db1 \<equiv> db\<lparr>entries_tbl := ((f, p), m) # entries_tbl db\<rparr>"
  shows "insert_row f p m db = set_usage f (usage_of db1 f) db1"
proof (cases "map_of (folder_usage db) f")
  case None
  then show ?thesis
    using map_of_usage_None [OF assms(1) None] assms(2)
    by (simp add: insert_row_def entries_insert_def db1_def usage_of_def folder_rows_Cons
        rows_bytes_def row_bytes_def)
next
  case (Some u)
  then show ?thesis
    using map_of_usage_Some [OF assms(1) Some] assms(2)
    by (simp add: insert_row_def entries_insert_def db1_def usage_of_def folder_rows_Cons
        rows_bytes_def row_bytes_def algebra_simps)
qed

lemma insert_row_inv:
  assumes "db_inv db" "insert_row f p m db = Inr db'"
  shows "db_inv db'"
proof -
  have none: "select_manifest db f p = None"
    using assms(2) by (simp add: insert_row_def split: option.splits)
  show ?thesis
    using assms(2)
    unfolding insert_row_eq [OF assms(1) none]
    using assms(1) none
    by (intro db_inv_change [OF assms(1), where f = f])
       (auto simp: keys_ok_insert db_inv_def folder_rows_Cons)
qed

lemma upsert_row_eq_update:
  fixes m :: bytes
  assumes "db_inv db" "select_manifest db f p = Some old"
  defines "db1 \<equiv> db\<lparr>entries_tbl := ((f, p), m) # filter (\<lambda>r. fst r \<noteq> (f, p)) (entries_tbl db)\<rparr>"
  shows "upsert_row f p m db = set_usage f (usage_of db1 f) db1"
proof -
  have keys: "keys_ok db" using assms(1) by (simp add: db_inv_def)
  then have old: "map_of (folder_rows db f) p = Some old"
    using assms(2) by (simp add: select_manifest_folder_rows)
  then have "folder_rows db f \<noteq> []" by auto
  then obtain u where u: "map_of (folder_usage db) f = Some u"
    using map_of_usage_None [OF assms(1)] by (cases "map_of (folder_usage db) f") auto
  note rm = remove_row_count [OF distinct_folder_rows [OF keys] old]
  have "usage_of db1 f = (fst (usage_of db f), snd (usage_of db f) + int (length m) - int (length old))"
    using rm by (simp add: db1_def usage_of_def folder_rows_Cons folder_rows_remove rows_bytes_def
        row_bytes_def)
  with u assms(2) show ?thesis
    using map_of_usage_Some [OF assms(1) u]
    by (simp add: upsert_row_def entries_update_def db1_def [symmetric])
       (simp add: db1_def usage_of_def)
qed

lemma upsert_row_inv:
  assumes "db_inv db" "upsert_row f p m db = Inr db'"
  shows "db_inv db'"
proof (cases "select_manifest db f p")
  case None
  with assms show ?thesis by (intro insert_row_inv [OF assms(1), of f p m]) (simp add: upsert_row_def)
next
  case (Some old)
  have keys: "keys_ok db" using assms(1) by (simp add: db_inv_def)
  show ?thesis
  proof (rule db_inv_change [OF assms(1) keys_ok_replace [OF keys]])
    show "set_usage f (usage_of (db\<lparr>entries_tbl := ((f, p), m) # filter (\<lambda>r. fst r \<noteq> (f, p)) (entries_tbl db)\<rparr>) f)
        (db\<lparr>entries_tbl := ((f, p), m) # filter (\<lambda>r. fst r \<noteq> (f, p)) (entries_tbl db)\<rparr>) = Inr db'"
      using assms(2) by (simp only: upsert_row_eq_update [OF assms(1) Some])
  qed (simp_all add: folder_rows_Cons folder_rows_remove)
qed

lemma entries_tbl_set_usage: "set_usage f u db = Inr db' \<Longrightarrow> entries_tbl db' = entries_tbl db"
  by (auto simp: set_usage_Inr)

lemma entries_tbl_insert: "entries_insert f m db = Inr db' \<Longrightarrow> entries_tbl db' = entries_tbl db"
  by (auto simp: entries_insert_def entries_tbl_set_usage split: option.splits)

lemma entries_tbl_update: "entries_update f m old db = Inr db' \<Longrightarrow> entries_tbl db' = entries_tbl db"
  by (auto simp: entries_update_def entries_tbl_set_usage split: option.splits)

lemma select_insert_row:
  assumes "insert_row f p m db = Inr db'"
  shows "select_manifest db' g q = (if (g, q) = (f, p) then Some m else select_manifest db g q)"
proof -
  have "entries_tbl db' = ((f, p), m) # entries_tbl db"
    using assms entries_tbl_insert by (fastforce simp: insert_row_def split: option.splits)
  then show ?thesis by (simp add: select_manifest_def)
qed

lemma map_of_filter_key:
  "map_of (filter (\<lambda>r. fst r \<noteq> k) t) k' = (if k' = k then None else map_of t k')"
  by (induction t) auto

lemma select_upsert_row:
  assumes "upsert_row f p m db = Inr db'"
  shows "select_manifest db' g q = (if (g, q) = (f, p) then Some m else select_manifest db g q)"
proof (cases "select_manifest db f p")
  case None
  with assms select_insert_row show ?thesis by (simp add: upsert_row_def)
next
  case (Some old)
  with assms have "entries_tbl db' = ((f, p), m) # filter (\<lambda>r. fst r \<noteq> (f, p)) (entries_tbl db)"
    using entries_tbl_update by (fastforce simp: upsert_row_def)
  then show ?thesis by (simp add: select_manifest_def map_of_filter_key)
qed

subsection \<open>Capacity\<close>

lemma capacity_after_None:
  assumes "db_inv db" "select_manifest db f p = None"
  shows "capacity_after db f p raw = usage_of (db\<lparr>entries_tbl := ((f, p), raw) # entries_tbl db\<rparr>) f"
  using usage_default [OF assms(1), of f] assms(2)
  by (simp add: capacity_after_def usage_of_def folder_rows_Cons rows_bytes_def row_bytes_def)

text \<open>What the query promises is what the triggers will compute: a statement fails on the
  constraint exactly when the budget of \<open>checkCapacity\<close> is exceeded.\<close>

lemma upsert_row_capacity:
  assumes "db_inv db"
  shows "(\<exists>db'. upsert_row f p raw db = Inr db') \<longleftrightarrow> usage_check (capacity_after db f p raw)"
proof (cases "select_manifest db f p")
  case None
  then show ?thesis
    using capacity_after_None [OF assms None, of raw] insert_row_eq [OF assms None, of raw]
    by (auto simp: upsert_row_def set_usage_def)
next
  case (Some old)
  have keys: "keys_ok db" using assms by (simp add: db_inv_def)
  then have "map_of (folder_rows db f) p = Some old"
    using Some by (simp add: select_manifest_folder_rows)
  note rm = remove_row_count [OF distinct_folder_rows [OF keys] this]
  have "capacity_after db f p raw =
      usage_of (db\<lparr>entries_tbl := ((f, p), raw) # filter (\<lambda>r. fst r \<noteq> (f, p)) (entries_tbl db)\<rparr>) f"
    using usage_default [OF assms, of f] Some rm
    by (simp add: capacity_after_def usage_of_def folder_rows_Cons folder_rows_remove rows_bytes_def
        row_bytes_def)
  then show ?thesis
    using upsert_row_eq_update [OF assms Some, of raw] by (auto simp: set_usage_def)
qed

lemma rows_bytes_nonneg: "0 \<le> rows_bytes rows"
  by (induction rows) (auto simp: rows_bytes_def row_bytes_def)

lemma capacity_after_nonneg:
  assumes "db_inv db"
  shows "0 \<le> fst (capacity_after db f p raw) \<and> 0 \<le> snd (capacity_after db f p raw)"
proof (cases "select_manifest db f p")
  case None
  then show ?thesis
    using usage_default [OF assms, of f] rows_bytes_nonneg [of "folder_rows db f"]
    by (simp add: capacity_after_def usage_of_def)
next
  case (Some old)
  have keys: "keys_ok db" using assms by (simp add: db_inv_def)
  then have "map_of (folder_rows db f) p = Some old"
    using Some by (simp add: select_manifest_folder_rows)
  note rm = remove_row_count [OF distinct_folder_rows [OF keys] this]
  then show ?thesis
    using usage_default [OF assms, of f] Some rows_bytes_nonneg [of "filter (\<lambda>r. fst r \<noteq> p) (folder_rows db f)"]
    by (simp add: capacity_after_def usage_of_def row_bytes_def)
qed

subsection \<open>Deleting a folder\<close>

lemma delete_row_step:
  assumes inv: "db_inv db" and m: "select_manifest db f p = Some m"
  defines "db1 \<equiv> db\<lparr>entries_tbl := filter (\<lambda>r. fst r \<noteq> (f, p)) (entries_tbl db)\<rparr>"
  shows "\<exists>db'. entries_delete f m db1 = Inr db' \<and> db_inv db' \<and> entries_tbl db' = entries_tbl db1"
proof -
  have keys: "keys_ok db" using inv by (simp add: db_inv_def)
  then have row: "map_of (folder_rows db f) p = Some m"
    using m by (simp add: select_manifest_folder_rows)
  then have "folder_rows db f \<noteq> []" by auto
  then obtain u where u: "map_of (folder_usage db) f = Some u"
    using map_of_usage_None [OF inv] by (cases "map_of (folder_usage db) f") auto
  note rm = remove_row_count [OF distinct_folder_rows [OF keys] row]
  have usage: "usage_of db1 f = (fst (usage_of db f) - 1, snd (usage_of db f) - int (length m) - 1)"
    using rm by (simp add: db1_def usage_of_def folder_rows_remove row_bytes_def)
  moreover have "usage_check (usage_of db f)" by (rule usage_of_check [OF inv])
  moreover have "0 \<le> fst (usage_of db1 f)" "0 \<le> snd (usage_of db1 f)"
    by (simp_all add: usage_of_def rows_bytes_nonneg)
  ultimately have check: "usage_check (usage_of db1 f)"
    by (auto simp: usage_check_def split: prod.splits)
  have del: "entries_delete f m db1 = set_usage f (usage_of db1 f) db1"
    using u map_of_usage_Some [OF inv u] usage
    by (simp add: entries_delete_def db1_def split: prod.splits)
  then obtain db' where db': "entries_delete f m db1 = Inr db'"
    using check by (simp add: set_usage_def)
  moreover have "db_inv db'"
    by (rule db_inv_change [OF inv, where f = f and ?db1.0 = db1])
       (use db' del keys in \<open>auto simp: db1_def keys_ok_filter folder_rows_remove\<close>)
  moreover have "entries_tbl db' = entries_tbl db1"
    using db' del by (auto simp: set_usage_Inr)
  ultimately show ?thesis by blast
qed

lemma delete_rows_Inr:
  assumes "db_inv db" "distinct (map fst rows)" "\<forall>(p, m) \<in> set rows. select_manifest db f p = Some m"
  shows "\<exists>db'. delete_rows f rows db = Inr db' \<and> db_inv db' \<and>
    entries_tbl db' = filter (\<lambda>r. fst r \<notin> (\<lambda>row. (f, fst row)) ` set rows) (entries_tbl db)"
  using assms
proof (induction rows arbitrary: db)
  case (Cons row rows)
  obtain p m where row: "row = (p, m)" by (cases row)
  from delete_row_step [OF Cons.prems(1), of f p m] Cons.prems(3) row obtain db1 where
    d: "entries_delete f m (db\<lparr>entries_tbl := filter (\<lambda>r. fst r \<noteq> (f, p)) (entries_tbl db)\<rparr>) = Inr db1"
      "db_inv db1" "entries_tbl db1 = filter (\<lambda>r. fst r \<noteq> (f, p)) (entries_tbl db)"
    by auto
  have "\<forall>(q, m') \<in> set rows. select_manifest db1 f q = Some m'"
  proof (intro ballI, clarify)
    fix q m' assume q: "(q, m') \<in> set rows"
    then have "q \<noteq> p" using Cons.prems(2) row by force
    moreover have "select_manifest db f q = Some m'" using Cons.prems(3) q by auto
    ultimately show "select_manifest db1 f q = Some m'"
      by (simp add: select_manifest_def d(3) map_of_filter_key)
  qed
  with Cons.IH [OF d(2)] Cons.prems(2) obtain db' where
    "delete_rows f rows db1 = Inr db'" "db_inv db'"
    "entries_tbl db' = filter (\<lambda>r. fst r \<notin> (\<lambda>row. (f, fst row)) ` set rows) (entries_tbl db1)"
    by auto
  with d row show ?case by (auto simp: conj_commute)
qed simp

lemma set_folder_rows: "(p, m) \<in> set (folder_rows db f) \<longleftrightarrow> ((f, p), m) \<in> set (entries_tbl db)"
  by (force simp: folder_rows_def)

lemma delete_folder_Inr:
  assumes "db_inv db"
  shows "\<exists>db'. delete_folder f db = Inr db' \<and> db_inv db' \<and>
    entries_tbl db' = filter (\<lambda>r. fst (fst r) \<noteq> f) (entries_tbl db)"
proof -
  have keys: "keys_ok db" using assms by (simp add: db_inv_def)
  note dist = distinct_folder_rows [OF keys, of f]
  have "\<forall>(p, m) \<in> set (folder_rows db f). select_manifest db f p = Some m"
    using dist by (auto simp: select_manifest_folder_rows [OF keys])
  from delete_rows_Inr [OF assms dist this] obtain db' where
    db': "delete_folder f db = Inr db'" "db_inv db'"
    "entries_tbl db' = filter (\<lambda>r. fst r \<notin> (\<lambda>row. (f, fst row)) ` set (folder_rows db f)) (entries_tbl db)"
    unfolding delete_folder_def by blast
  have "filter (\<lambda>r. fst r \<notin> (\<lambda>row. (f, fst row)) ` set (folder_rows db f)) (entries_tbl db) =
      filter (\<lambda>r. fst (fst r) \<noteq> f) (entries_tbl db)"
  proof (rule filter_cong [OF refl])
    fix r assume r: "r \<in> set (entries_tbl db)"
    obtain g p m where "r = ((g, p), m)" by (metis prod.exhaust)
    with r show "(fst r \<notin> (\<lambda>row. (f, fst row)) ` set (folder_rows db f)) = (fst (fst r) \<noteq> f)"
      using set_folder_rows [of p m db f] by force
  qed
  with db' show ?thesis by auto
qed

subsection \<open>Opening\<close>

lemma recount_Inr:
  "recount fs db = Inr db' \<Longrightarrow> entries_tbl db' = entries_tbl db \<and>
     map_of (folder_usage db') g = (if g \<in> set fs then Some (usage_of db g) else map_of (folder_usage db) g) \<and>
     (\<forall>f \<in> set fs. usage_check (usage_of db f))"
proof (induction fs arbitrary: db)
  case (Cons f fs)
  then obtain db1 where set: "set_usage f (usage_of db f) db = Inr db1" and rest: "recount fs db1 = Inr db'"
    by (auto simp: usage_of_def split: sum.splits)
  have db1: "db1 = db\<lparr>folder_usage := AList.update f (usage_of db f) (folder_usage db)\<rparr>" "usage_check (usage_of db f)"
    using set by (auto simp: set_usage_Inr)
  have "usage_of db1 = usage_of db" by (simp add: db1 usage_of_def fun_eq_iff)
  with Cons.IH [OF rest] db1 show ?case by (auto simp: update_conv')
qed simp

text \<open>No usage row claims rows where there are none; \<open>Open\<close> does not look at such rows.\<close>

definition nothing_stale :: "database \<Rightarrow> bool" where
  "nothing_stale db \<longleftrightarrow> (\<forall>f. folder_rows db f = [] \<longrightarrow> map_of (folder_usage db) f \<in> {None, Some (0, 0)})"

lemma folder_rows_Nil: "folder_rows db f = [] \<longleftrightarrow> f \<notin> fst ` fst ` set (entries_tbl db)"
proof -
  have "folder_rows db f = [] \<longleftrightarrow> (\<forall>p m. (p, m) \<notin> set (folder_rows db f))" by (cases "folder_rows db f") auto
  then show ?thesis by (force simp: set_folder_rows)
qed

lemma recount_usage_Inr:
  assumes "recount_usage db = Inr db1"
  shows "entries_tbl db1 = entries_tbl db"
    "folder_rows db f \<noteq> [] \<Longrightarrow> map_of (folder_usage db1) f = Some (usage_of db f) \<and> usage_check (usage_of db f)"
    "folder_rows db f = [] \<Longrightarrow> map_of (folder_usage db1) f = map_of (folder_usage db) f"
proof -
  have "recount (remdups (map (\<lambda>r. fst (fst r)) (entries_tbl db))) db = Inr db1"
    using assms by (simp add: recount_usage_def)
  note rec = recount_Inr [OF this]
  have "f \<in> set (remdups (map (\<lambda>r. fst (fst r)) (entries_tbl db))) \<longleftrightarrow> folder_rows db f \<noteq> []"
    by (auto simp: folder_rows_Nil image_image)
  with rec [of f] show "entries_tbl db1 = entries_tbl db"
    "folder_rows db f \<noteq> [] \<Longrightarrow> map_of (folder_usage db1) f = Some (usage_of db f) \<and> usage_check (usage_of db f)"
    "folder_rows db f = [] \<Longrightarrow> map_of (folder_usage db1) f = map_of (folder_usage db) f" by auto
qed

lemma usage_ok_Nil:
  "folder_rows db f = [] \<Longrightarrow> usage_ok db f \<longleftrightarrow> map_of (folder_usage db) f \<in> {None, Some (0, 0)}"
  by (cases "map_of (folder_usage db) f")
     (auto simp: usage_ok_def usage_of_def rows_bytes_def usage_check_def MaxEntries_def MaxManifestBytes_def)

lemma recount_usage_inv:
  assumes "recount_usage db = Inr db1"
  shows "db_inv db1 \<longleftrightarrow> keys_ok db \<and> nothing_stale db"
proof -
  note rec = recount_usage_Inr [OF assms]
  have rows: "folder_rows db1 f = folder_rows db f" for f using rec(1) by (simp add: folder_rows_def)
  have "usage_ok db1 f \<longleftrightarrow> folder_rows db f \<noteq> [] \<or> map_of (folder_usage db) f \<in> {None, Some (0, 0)}" for f
    using rec(2,3) [of f] usage_ok_Nil [of db1 f]
    by (cases "folder_rows db f = []") (simp_all add: rows, simp add: usage_ok_def usage_of_def rows)
  moreover have "keys_ok db1 = keys_ok db" using rec(1) by (simp add: keys_ok_def)
  ultimately show ?thesis unfolding db_inv_def nothing_stale_def by blast
qed

lemma db_inv_nothing_stale: "db_inv db \<Longrightarrow> keys_ok db \<and> nothing_stale db"
  using usage_ok_Nil unfolding db_inv_def nothing_stale_def by blast

lemma usage_ok_version: "usage_ok (db\<lparr>user_version := v\<rparr>) f = usage_ok db f"
  by (cases "map_of (folder_usage db) f") (simp_all add: usage_ok_def usage_of_def)

lemma db_inv_version: "db_inv (db\<lparr>user_version := v\<rparr>) = db_inv db"
  by (simp add: db_inv_def keys_ok_def usage_ok_version)

end
