(* ===== verification/Certificate.thy ===== *)
theory Certificate
  imports Model
begin

text \<open>
  What the program uses of \<open>crypto/x509\<close> and \<open>crypto/tls\<close>: a certificate with the fields it reads,
  the configuration of a connection, and which certificates a handshake under it lets through.
  \<open>SelfSigned\<close> is the verdict of \<open>CheckSignature\<close> on the certificate's own signature, a function of
  its bytes. A handshake proves that the peer holds the key of the first certificate it presents.
\<close>

section \<open>Certificates\<close>

datatype key_algorithm = UnknownPublicKeyAlgorithm | RSA | DSA | ECDSA | Ed25519

record certificate =
  Raw :: bytes
  PublicKeyAlgorithm :: key_algorithm
  NotBefore :: int
  NotAfter :: int
  KeyUsage :: int
  SelfSigned :: bool

text \<open>\<open>x509.KeyUsageDigitalSignature\<close>.\<close>

definition KeyUsageDigitalSignature :: int where
  "KeyUsageDigitalSignature = 1"

section \<open>Configurations\<close>

datatype client_auth =
    NoClientCert
  | RequestClientCert
  | RequireAnyClientCert
  | VerifyClientCertIfGiven
  | RequireAndVerifyClientCert

text \<open>\<open>VerifyConnection\<close> is a closure that reads the clock: its first argument is the time at which
  it is called. \<open>TrustedChain\<close> is the verdict of the certificate pool of the configuration.\<close>

record tls_Config =
  MinVersion :: "16 word"
  OwnCertificate :: certificate
  ClientAuth :: client_auth
  InsecureSkipVerify :: bool
  VerifyConnection :: "(int \<Rightarrow> certificate list \<Rightarrow> error + unit) option"
  TrustedChain :: "certificate list \<Rightarrow> bool"

definition VersionTLS13 :: "16 word" where
  "VersionTLS13 = 772"

text \<open>The verification callback, when there is one.\<close>

definition tls_callback :: "tls_Config \<Rightarrow> int \<Rightarrow> certificate list \<Rightarrow> error + certificate list" where
  "tls_callback cfg t chain =
     (case VerifyConnection cfg of
        None \<Rightarrow> Inr chain
      | Some verify \<Rightarrow> (case verify t chain of Inl err \<Rightarrow> Inl err | Inr _ \<Rightarrow> Inr chain))"

text \<open>The peer certificates of the connection state a server ends up with, for a client that
  presents \<open>chain\<close>.\<close>

definition tls_server_verify :: "tls_Config \<Rightarrow> int \<Rightarrow> certificate list \<Rightarrow> error + certificate list" where
  "tls_server_verify cfg t chain =
     (let required = ClientAuth cfg \<in> {RequireAnyClientCert, RequireAndVerifyClientCert};
          verified = ClientAuth cfg \<in> {VerifyClientCertIfGiven, RequireAndVerifyClientCert};
          given = (if ClientAuth cfg = NoClientCert then [] else chain)
      in if required \<and> given = [] then Inl (Errorf ''tls: client didn't provide a certificate'' [])
         else if verified \<and> given \<noteq> [] \<and> \<not> TrustedChain cfg given
           then Inl (Errorf ''tls: failed to verify certificate'' [])
         else tls_callback cfg t given)"

definition tls_client_verify :: "tls_Config \<Rightarrow> int \<Rightarrow> certificate list \<Rightarrow> error + certificate list" where
  "tls_client_verify cfg t chain =
     (if chain = [] then Inl (Errorf ''tls: received empty certificates message'' [])
      else if \<not> InsecureSkipVerify cfg \<and> \<not> TrustedChain cfg chain
        then Inl (Errorf ''tls: failed to verify certificate'' [])
      else tls_callback cfg t chain)"

lemma tls_callback_Inr:
  "tls_callback cfg t chain = Inr certs \<longleftrightarrow>
     certs = chain \<and> (\<forall>verify. VerifyConnection cfg = Some verify \<longrightarrow> verify t chain = Inr ())"
  by (auto simp: tls_callback_def split: option.splits sum.splits)

lemma tls_server_verify_Inr:
  assumes "tls_server_verify cfg t chain = Inr certs" "ClientAuth cfg = RequireAnyClientCert"
    "VerifyConnection cfg = Some verify"
  shows "certs = chain \<and> chain \<noteq> [] \<and> verify t chain = Inr ()"
  using assms by (auto simp: tls_server_verify_def tls_callback_Inr split: if_splits)

lemma tls_client_verify_Inr:
  assumes "tls_client_verify cfg t chain = Inr certs" "VerifyConnection cfg = Some verify"
  shows "certs = chain \<and> chain \<noteq> [] \<and> verify t chain = Inr ()"
  using assms by (auto simp: tls_client_verify_def tls_callback_Inr split: if_splits)

end
