(* ===== verification/World.thy ===== *)
theory World
  imports Index Certificate
begin

text \<open>
  The state the store runs in: the file system, the index, the request's context, and what the
  rest of the machine does meanwhile. Every system call and every SQL statement first takes one
  event of \<open>pending\<close>: another process may change the file system (\<open>interfere\<close>), the context may be
  cancelled, and the call itself may fail (\<open>fault\<close>), in which case it has no effect. When the list
  is empty nothing interferes. A process that is killed is a run all of whose further calls fail.
\<close>

section \<open>Events and the world\<close>

datatype event =
  Event (interfere: "fsys \<Rightarrow> fsys") (cancel: bool) (fault: "string option")

text \<open>
  A TCP connection as this end sees it: the bytes the peer still sends before it stops, the bytes in
  the buffer of the writer, the bytes handed to the kernel, whether this end closed it, and the
  certificates the peer presents in a handshake.
\<close>

record wire =
  rx :: bytes
  wbuf :: bytes
  tx :: bytes
  shut :: bool
  peer_chain :: "certificate list"

text \<open>\<open>conn\<close> is the connection of the running request or client, \<open>dials\<close> the connections that the
  next dials get (an empty list: nobody listens).\<close>

record world =
  wfs :: fsys
  wdb :: database
  ctx_done :: bool
  pending :: "event list"
  nonces :: "bytes list"
  stats :: Stats
  conn :: wire
  dials :: "wire list"

definition tick :: "world \<Rightarrow> error option \<times> world" where
  "tick w = (case pending w of
       [] \<Rightarrow> (None, w)
     | ev # evs \<Rightarrow>
         (map_option IOError (fault ev),
          w\<lparr>pending := evs, wfs := interfere ev (wfs w), ctx_done := (ctx_done w \<or> cancel ev)\<rparr>))"

section \<open>Steps of the world\<close>

text \<open>A system call.\<close>

definition sys :: "(fsys \<Rightarrow> (error + 'a) \<times> fsys) \<Rightarrow> (world, 'a) io" where
  "sys f = (\<lambda>w. case tick w of
       (Some e, w1) \<Rightarrow> (Inl e, w1)
     | (None, w1) \<Rightarrow> (case f (wfs w1) of (r, s) \<Rightarrow> (r, w1\<lparr>wfs := s\<rparr>)))"

text \<open>An SQL statement: \<open>database/sql\<close> refuses it once the context is cancelled.\<close>

definition sql_query :: "(database \<Rightarrow> error + 'a) \<Rightarrow> (world, 'a) io" where
  "sql_query f = (\<lambda>w. case tick w of
       (Some e, w1) \<Rightarrow> (Inl e, w1)
     | (None, w1) \<Rightarrow> (if ctx_done w1 then (Inl Canceled, w1) else (f (wdb w1), w1)))"

definition sql_exec :: "(database \<Rightarrow> error + database) \<Rightarrow> (world, unit) io" where
  "sql_exec f = (\<lambda>w. case tick w of
       (Some e, w1) \<Rightarrow> (Inl e, w1)
     | (None, w1) \<Rightarrow>
         (if ctx_done w1 then (Inl Canceled, w1)
          else case f (wdb w1) of Inl e \<Rightarrow> (Inl e, w1) | Inr d \<Rightarrow> (Inr (), w1\<lparr>wdb := d\<rparr>)))"

text \<open>\<open>db.QueryRow\<close> and \<open>db.Exec\<close>, which take no context.\<close>

definition db_QueryRow :: "(database \<Rightarrow> error + 'a) \<Rightarrow> (world, 'a) io" where
  "db_QueryRow f = (\<lambda>w. case tick w of (Some e, w1) \<Rightarrow> (Inl e, w1) | (None, w1) \<Rightarrow> (f (wdb w1), w1))"

definition db_Exec :: "(database \<Rightarrow> error + database) \<Rightarrow> (world, unit) io" where
  "db_Exec f = (\<lambda>w. case tick w of
       (Some e, w1) \<Rightarrow> (Inl e, w1)
     | (None, w1) \<Rightarrow>
         (case f (wdb w1) of Inl e \<Rightarrow> (Inl e, w1) | Inr d \<Rightarrow> (Inr (), w1\<lparr>wdb := d\<rparr>)))"

text \<open>\<open>ctx.Err()\<close>.\<close>

definition ctx_Err :: "(world, unit) io" where
  "ctx_Err = (\<lambda>w. (if ctx_done w then Inl Canceled else Inr (), w))"

text \<open>\<open>rand.Read(nonce[:])\<close>.\<close>

definition rand_Read :: "(world, bytes) io" where
  "rand_Read = (\<lambda>w. case nonces w of
       [] \<Rightarrow> (Inl (IOError ''random source''), w) | n # ns \<Rightarrow> (Inr n, w\<lparr>nonces := ns\<rparr>))"

text \<open>\<open>time.Now()\<close>: the clock that also stamps the files.\<close>

definition time_Now :: "(world, int) io" where
  "time_Now = (\<lambda>w. (Inr (int (clock (wfs w))), w))"

text \<open>The local variable \<open>stats\<close> of the running \<open>Apply\<close>, which it returns on every path.\<close>

definition set_stats :: "(Stats \<Rightarrow> Stats) \<Rightarrow> (world, unit) io" where
  "set_stats f = modify (\<lambda>w. w\<lparr>stats := f (stats w)\<rparr>)"

abbreviation "os_MkdirAll path m \<equiv> sys (fs_make_root path m)"
abbreviation "os_OpenRoot path \<equiv> sys (fs_open_root path)"
abbreviation "Root_Lstat r p \<equiv> sys (fs_lstat r p)"
abbreviation "Root_Open r p \<equiv> sys (fs_open r p)"
abbreviation "Root_CreateExcl r p m \<equiv> sys (fs_create_excl r p m)"
abbreviation "Root_Mkdir r p m \<equiv> sys (fs_mkdir r p m)"
abbreviation "Root_MkdirAll r p m \<equiv> sys (fs_mkdir_all r [] p m)"
abbreviation "Root_Rename r p q \<equiv> sys (fs_rename r p q)"
abbreviation "Root_Remove r p \<equiv> sys (fs_remove r p)"
abbreviation "Root_ReadDir r p \<equiv> sys (fs_read_dir r p)"
abbreviation "File_Stat h \<equiv> sys (fs_fstat h)"
abbreviation "File_ReadAt h off n \<equiv> sys (fs_read_at h off n)"
abbreviation "File_ReadLimited h n \<equiv> sys (fs_read_limited h n)"
abbreviation "File_Write h pos d \<equiv> sys (fs_write h pos d)"
abbreviation "File_Chmod h m \<equiv> sys (fs_chmod h m)"
abbreviation "File_Sync h \<equiv> sys (fs_sync h)"
abbreviation "File_Close h \<equiv> sys (fs_sync h)"

section \<open>Nothing interferes\<close>

text \<open>No event is pending and the context is alive: the calls run as written.\<close>

definition quiet :: "world \<Rightarrow> bool" where
  "quiet w \<longleftrightarrow> pending w = [] \<and> \<not> ctx_done w"

lemma quiet_update [simp]:
  "quiet (w\<lparr>wfs := s\<rparr>) = quiet w" "quiet (w\<lparr>wdb := d\<rparr>) = quiet w"
  "quiet (w\<lparr>stats := x\<rparr>) = quiet w" "quiet (w\<lparr>nonces := n\<rparr>) = quiet w"
  "quiet (w\<lparr>conn := c\<rparr>) = quiet w" "quiet (w\<lparr>dials := ds\<rparr>) = quiet w"
  by (simp_all add: quiet_def)

named_theorems quiet_simps \<open>calls in a quiet world\<close>

lemma tick_quiet [simp]: "quiet w \<Longrightarrow> tick w = (None, w)"
  by (simp add: tick_def quiet_def)

lemma sys_quiet [quiet_simps]:
  "quiet w \<Longrightarrow> sys f w = (case f (wfs w) of (r, s) \<Rightarrow> (r, w\<lparr>wfs := s\<rparr>))"
  by (simp add: sys_def)

lemma sql_query_quiet [quiet_simps]: "quiet w \<Longrightarrow> sql_query f w = (f (wdb w), w)"
  by (simp add: sql_query_def) (simp add: quiet_def)

lemma sql_exec_quiet [quiet_simps]:
  "quiet w \<Longrightarrow> sql_exec f w = (case f (wdb w) of Inl e \<Rightarrow> (Inl e, w) | Inr d \<Rightarrow> (Inr (), w\<lparr>wdb := d\<rparr>))"
  by (simp add: sql_exec_def) (simp add: quiet_def)

lemma ctx_Err_quiet [quiet_simps]: "quiet w \<Longrightarrow> ctx_Err w = (Inr (), w)"
  by (simp add: ctx_Err_def quiet_def)

lemma world_fs_id [simp]: "w\<lparr>wfs := wfs w\<rparr> = w"
  by simp

section \<open>What no schedule can change\<close>

text \<open>The steps above touch the index only through \<open>sql_exec\<close>, and the counters only through
  \<open>set_stats\<close>; interference is with the file system.\<close>

lemma tick_fields [simp]:
  "tick w = (e, w') \<Longrightarrow> wdb w' = wdb w" "tick w = (e, w') \<Longrightarrow> stats w' = stats w"
  "tick w = (e, w') \<Longrightarrow> nonces w' = nonces w" "tick w = (e, w') \<Longrightarrow> conn w' = conn w"
  "tick w = (e, w') \<Longrightarrow> dials w' = dials w"
  by (auto simp: tick_def split: list.splits)

lemma tick_pending: "tick w = (e, w') \<Longrightarrow> \<exists>evs. pending w = evs @ pending w'"
  by (auto simp: tick_def split: list.splits)

lemma within_sys_db [within_intros]: "within (\<lambda>w w'. wdb w' = wdb w) (sys f)"
  by (auto simp: within_def sys_def split: prod.split option.split)

lemma within_query_db [within_intros]: "within (\<lambda>w w'. wdb w' = wdb w) (sql_query f)"
  by (auto simp: within_def sql_query_def split: prod.split option.split)

lemma within_ctx_Err [within_intros]: "preorder_rel R \<Longrightarrow> within R ctx_Err"
  by (simp add: within_def ctx_Err_def)

lemma within_rand_db [within_intros]: "within (\<lambda>w w'. wdb w' = wdb w) rand_Read"
  by (auto simp: within_def rand_Read_def split: list.split)

lemma within_stats_db [within_intros]: "within (\<lambda>w w'. wdb w' = wdb w) (set_stats f)"
  by (auto simp: within_def set_stats_def)

text \<open>An invariant of the index that every executed statement keeps.\<close>

lemma within_exec_inv:
  "(\<And>d d'. I d \<Longrightarrow> f d = Inr d' \<Longrightarrow> I d') \<Longrightarrow> within (\<lambda>w w'. I (wdb w) \<longrightarrow> I (wdb w')) (sql_exec f)"
  by (auto simp: within_def sql_exec_def split: prod.split option.split sum.split)

section \<open>Rely and guarantee\<close>

text \<open>
  \<open>rely P w\<close>: whatever other processes still do, one action of theirs changes the file system only
  within \<open>P\<close>. In a calm world they do nothing, though calls may fail and the context may be
  cancelled. \<open>fs_rel P\<close> relates the worlds before and after a run that itself stays within \<open>P\<close>: it
  has taken events from the front of \<open>pending\<close> and, under the rely condition, the file systems are
  related.
\<close>

definition rely :: "(fsys \<Rightarrow> fsys \<Rightarrow> bool) \<Rightarrow> world \<Rightarrow> bool" where
  "rely P w \<longleftrightarrow> (\<forall>ev \<in> set (pending w). \<forall>s. P s (interfere ev s))"

definition calm :: "world \<Rightarrow> bool" where
  "calm w \<longleftrightarrow> (\<forall>ev \<in> set (pending w). interfere ev = (\<lambda>s. s))"

definition consumes :: "world \<Rightarrow> world \<Rightarrow> bool" where
  "consumes w w' \<longleftrightarrow> (\<exists>evs. pending w = evs @ pending w')"

definition fs_rel :: "(fsys \<Rightarrow> fsys \<Rightarrow> bool) \<Rightarrow> world \<Rightarrow> world \<Rightarrow> bool" where
  "fs_rel P w w' \<longleftrightarrow> consumes w w' \<and> (rely P w \<longrightarrow> P (wfs w) (wfs w'))"

lemma quiet_calm: "quiet w \<Longrightarrow> calm w"
  by (simp add: quiet_def calm_def)

lemma calm_rely: "preorder_rel P \<Longrightarrow> calm w \<Longrightarrow> rely P w"
  by (simp add: rely_def calm_def)

lemma consumes_refl [simp]: "consumes w w"
  by (simp add: consumes_def)

lemma consumes_trans: "consumes u v \<Longrightarrow> consumes v w \<Longrightarrow> consumes u w"
  by (force simp: consumes_def)

lemma consumes_rely: "consumes w w' \<Longrightarrow> rely P w \<Longrightarrow> rely P w'"
  by (auto simp: consumes_def rely_def)

lemma consumes_calm: "consumes w w' \<Longrightarrow> calm w \<Longrightarrow> calm w'"
  by (auto simp: consumes_def calm_def)

lemma preorder_fs_rel [simp, intro]:
  assumes "preorder_rel P"
  shows "preorder_rel (fs_rel P)"
proof -
  have "fs_rel P x z" if "fs_rel P x y" "fs_rel P y z" for x y z
    using that preorder_rel_trans [OF assms, of "wfs x" "wfs y" "wfs z"]
      consumes_trans consumes_rely unfolding fs_rel_def by blast
  moreover have "fs_rel P x x" for x
    using assms by (simp add: fs_rel_def)
  ultimately show ?thesis
    unfolding preorder_rel_def by (blast intro: reflpI transpI)
qed

lemma fs_rel_calm:
  assumes "within (fs_rel P) m" "preorder_rel P" "calm w" "m w = (r, w')"
  shows "P (wfs w) (wfs w')" "calm w'"
  using withinD [OF assms(1,4)] calm_rely [OF assms(2,3)] consumes_calm assms(3)
  by (auto simp: fs_rel_def)

lemma fs_rel_rely:
  assumes "within (fs_rel P) m" "rely P w" "m w = (r, w')"
  shows "P (wfs w) (wfs w')" "rely P w'"
  using withinD [OF assms(1,3)] assms(2) consumes_rely by (auto simp: fs_rel_def)

text \<open>One event.\<close>

lemma tick_fs_rel:
  assumes "preorder_rel P" "tick w = (e, w')"
  shows "fs_rel P w w'"
proof (cases "pending w")
  case Nil
  with assms show ?thesis by (simp add: tick_def fs_rel_def)
next
  case (Cons ev evs)
  with assms(2) have "pending w' = evs" and fs: "wfs w' = interfere ev (wfs w)"
    by (auto simp: tick_def)
  with Cons have "pending w = [ev] @ pending w'" by simp
  then have "consumes w w'" unfolding consumes_def ..
  moreover have "rely P w \<Longrightarrow> P (wfs w) (wfs w')"
    using Cons fs by (simp add: rely_def)
  ultimately show ?thesis by (simp add: fs_rel_def)
qed

lemma tick_calm: "tick w = (e, w') \<Longrightarrow> calm w \<Longrightarrow> calm w' \<and> wfs w' = wfs w"
  by (auto simp: tick_def calm_def split: list.splits)

lemma calm_update [simp]:
  "calm (w\<lparr>wfs := s\<rparr>) = calm w" "calm (w\<lparr>wdb := d\<rparr>) = calm w"
  "calm (w\<lparr>stats := x\<rparr>) = calm w" "calm (w\<lparr>nonces := n\<rparr>) = calm w"
  "calm (w\<lparr>conn := c\<rparr>) = calm w" "calm (w\<lparr>dials := ds\<rparr>) = calm w"
  by (simp_all add: calm_def)

lemma fs_rel_update_fs: "preorder_rel P \<Longrightarrow> P (wfs w) s \<Longrightarrow> fs_rel P w (w\<lparr>wfs := s\<rparr>)"
  by (simp add: fs_rel_def consumes_def)

lemma within_sys_fs:
  assumes P: "preorder_rel P" and step: "\<And>s. P s (snd (f s))"
  shows "within (fs_rel P) (sys f)"
  unfolding within_def
proof
  fix w
  obtain e w1 where t: "tick w = (e, w1)" by fastforce
  note rel = tick_fs_rel [OF P t]
  show "fs_rel P w (snd (sys f w))"
  proof (cases e)
    case None
    obtain r s where f: "f (wfs w1) = (r, s)" by fastforce
    with step [of "wfs w1"] have "fs_rel P w1 (w1\<lparr>wfs := s\<rparr>)" by (simp add: fs_rel_update_fs P)
    with rel have "fs_rel P w (w1\<lparr>wfs := s\<rparr>)"
      using preorder_rel_trans [OF preorder_fs_rel [OF P]] by blast
    with None t f show ?thesis by (simp add: sys_def)
  next
    case (Some e')
    with t rel show ?thesis by (simp add: sys_def)
  qed
qed

lemma within_tick_fs:
  assumes P: "preorder_rel P"
    and m: "\<And>w. \<exists>r e w1 w2. tick w = (e, w1) \<and> m w = (r, w2) \<and> wfs w2 = wfs w1 \<and> pending w2 = pending w1"
  shows "within (fs_rel P) m"
  unfolding within_def
proof
  fix w
  obtain r e w1 w2 where t: "tick w = (e, w1)" and "m w = (r, w2)"
    and "wfs w2 = wfs w1" and "pending w2 = pending w1"
    using m by blast
  then show "fs_rel P w (snd (m w))"
    using tick_fs_rel [OF P t] by (simp add: fs_rel_def consumes_def)
qed

lemma within_query_fs [within_intros]: "preorder_rel P \<Longrightarrow> within (fs_rel P) (sql_query f)"
  by (rule within_tick_fs) (auto simp: sql_query_def split: prod.split option.split)

lemma within_exec_fs [within_intros]: "preorder_rel P \<Longrightarrow> within (fs_rel P) (sql_exec f)"
  by (rule within_tick_fs) (auto simp: sql_exec_def split: prod.split option.split sum.split)

lemma within_rand_fs [within_intros]: "preorder_rel P \<Longrightarrow> within (fs_rel P) rand_Read"
  by (auto simp: within_def rand_Read_def fs_rel_def consumes_def split: list.split)

lemma within_stats_fs [within_intros]: "preorder_rel P \<Longrightarrow> within (fs_rel P) (set_stats f)"
  by (auto simp: within_def set_stats_def fs_rel_def consumes_def)

text \<open>Calls that only read.\<close>

lemma within_reads [within_intros]:
  assumes "preorder_rel P"
  shows "within (fs_rel P) (os_OpenRoot path)" "within (fs_rel P) (Root_Lstat r p)"
    "within (fs_rel P) (Root_Open r p)" "within (fs_rel P) (Root_ReadDir r p)"
    "within (fs_rel P) (File_Stat h)" "within (fs_rel P) (File_ReadAt h off n)"
    "within (fs_rel P) (File_ReadLimited h k)" "within (fs_rel P) (File_Sync h)"
  using assms
  by (auto intro!: within_sys_fs simp: fs_open_root_def fs_lstat_def fs_open_def fs_read_dir_def
      fs_fstat_def fs_read_at_def fs_read_limited_def fs_sync_def split: option.split node.split
      sum.split handle.split)

section \<open>The moments of a call\<close>

text \<open>
  \<open>moment w k\<close> is the file system after the first \<open>k\<close> events that are still to come in \<open>w\<close>, as long
  as this program itself only reads; \<open>passes w w'\<close> says that it did so from \<open>w\<close> to \<open>w'\<close>.
\<close>

definition moment :: "world \<Rightarrow> nat \<Rightarrow> fsys" where
  "moment w k = fold interfere (take k (pending w)) (wfs w)"

definition elapsed :: "world \<Rightarrow> world \<Rightarrow> nat" where
  "elapsed w w' = length (pending w) - length (pending w')"

definition passes :: "world \<Rightarrow> world \<Rightarrow> bool" where
  "passes w w' \<longleftrightarrow> (\<exists>evs. pending w = evs @ pending w' \<and> wfs w' = fold interfere evs (wfs w))"

lemma moment_0 [simp]: "moment w 0 = wfs w"
  by (simp add: moment_def)

lemma preorder_passes [simp, intro]: "preorder_rel passes"
proof -
  have "passes x z" if "passes x y" "passes y z" for x y z
    using that by (auto simp: passes_def intro: exI [of _ "_ @ _"])
  moreover have "passes x x" for x
    by (simp add: passes_def)
  ultimately show ?thesis
    unfolding preorder_rel_def by (blast intro: reflpI transpI)
qed

lemma passes_trans: "passes u v \<Longrightarrow> passes v w \<Longrightarrow> passes u w"
  using preorder_rel_trans [OF preorder_passes] .

lemma passes_moment: "passes w w' \<Longrightarrow> wfs w' = moment w (elapsed w w')"
  by (auto simp: passes_def moment_def elapsed_def)

lemma elapsed_mono: "passes u v \<Longrightarrow> passes v w \<Longrightarrow> elapsed u v \<le> elapsed u w"
  by (auto simp: passes_def elapsed_def)

lemma fold_calm: "\<forall>ev \<in> set evs. interfere ev = (\<lambda>s. s) \<Longrightarrow> fold interfere evs s = s"
  by (induction evs) auto

lemma moment_calm: "calm w \<Longrightarrow> moment w k = wfs w"
  by (auto simp: moment_def calm_def intro!: fold_calm dest: in_set_takeD)

lemma tick_passes: "tick w = (e, w') \<Longrightarrow> passes w w'"
  by (auto simp: tick_def passes_def split: list.splits intro: exI [of _ "[_]"])

lemma passes_update:
  "passes w w' \<Longrightarrow> pending w'' = pending w' \<Longrightarrow> wfs w'' = wfs w' \<Longrightarrow> passes w w''"
  by (simp add: passes_def)

lemma within_sys_passes:
  assumes "\<And>s. snd (f s) = s"
  shows "within passes (sys f)"
  unfolding within_def
proof
  fix w
  obtain e w1 where t: "tick w = (e, w1)" by fastforce
  obtain r where f: "f (wfs w1) = (r, wfs w1)" using assms by (metis prod.collapse)
  show "passes w (snd (sys f w))"
    using t f tick_passes [OF t] by (cases e) (simp_all add: sys_def)
qed

lemma within_query_passes: "within passes (sql_query f)"
  unfolding within_def
proof
  fix w
  obtain e w1 where t: "tick w = (e, w1)" by fastforce
  show "passes w (snd (sql_query f w))"
    using t tick_passes [OF t] by (cases e) (simp_all add: sql_query_def)
qed

lemma within_reads_passes:
  "within passes (os_OpenRoot path)" "within passes (Root_Lstat r p)"
  "within passes (Root_Open r p)" "within passes (Root_ReadDir r p)"
  "within passes (File_Stat h)" "within passes (File_ReadAt h off n)"
  "within passes (File_ReadLimited h k)" "within passes (File_Sync h)"
  by (auto intro!: within_sys_passes simp: fs_open_root_def fs_lstat_def fs_open_def fs_read_dir_def
      fs_fstat_def fs_read_at_def fs_read_limited_def fs_sync_def split: option.split node.split
      sum.split handle.split)

lemma within_stats_passes: "within passes (set_stats f)"
  by (auto simp: within_def set_stats_def passes_def)

lemma within_rand_passes: "within passes rand_Read"
  by (auto simp: within_def rand_Read_def passes_def split: list.split)

lemma sys_Inr: "sys f w = (Inr x, w') \<Longrightarrow> \<exists>s. f s = (Inr x, wfs w')"
  by (auto simp: sys_def split: prod.splits option.splits)

section \<open>Results of queries\<close>

lemma sql_query_Inr: "sql_query f w = (Inr x, w') \<Longrightarrow> f (wdb w) = Inr x \<and> wdb w' = wdb w"
  by (auto simp: sql_query_def split: prod.splits option.splits if_splits)

lemma tick_error: "tick w = (Some e, w') \<Longrightarrow> \<exists>t. e = IOError t"
  by (cases "pending w") (auto simp: tick_def)

lemma sql_query_Inl:
  assumes "sql_query f w = (Inl err, w')"
  shows "f (wdb w) = Inl err \<or> err = Canceled \<or> (\<exists>t. err = IOError t)"
proof -
  obtain x w1 where t: "tick w = (x, w1)" by fastforce
  show ?thesis
  proof (cases x)
    case None
    with t assms tick_fields(1) [OF t] show ?thesis
      by (simp add: sql_query_def split: if_splits)
  next
    case (Some e')
    with t assms tick_error [of w e' w1] show ?thesis by (simp add: sql_query_def)
  qed
qed

section \<open>Triples over the file system of a calm world\<close>

text \<open>
  \<open>fsh P m Q E\<close>: from a calm world whose file system satisfies \<open>P\<close>, wherever calls fail or the
  context is cancelled, the world stays calm and its file system satisfies \<open>Q\<close> of the result or,
  after an error, \<open>E\<close>.
\<close>

definition fsh ::
  "(fsys \<Rightarrow> bool) \<Rightarrow> (world, 'a) io \<Rightarrow> ('a \<Rightarrow> fsys \<Rightarrow> bool) \<Rightarrow> (fsys \<Rightarrow> bool) \<Rightarrow> bool" where
  "fsh P m Q E \<longleftrightarrow>
     (\<forall>w. calm w \<and> P (wfs w) \<longrightarrow>
        wp m (\<lambda>x w'. calm w' \<and> Q x (wfs w')) (\<lambda>e w'. calm w' \<and> E (wfs w')) w)"

lemma fsh_Inr: "fsh P m Q E \<Longrightarrow> calm w \<Longrightarrow> P (wfs w) \<Longrightarrow> m w = (Inr x, w') \<Longrightarrow> calm w' \<and> Q x (wfs w')"
  unfolding fsh_def by (drule spec [of _ w]) (simp add: wp_def)

lemma fsh_Inl: "fsh P m Q E \<Longrightarrow> calm w \<Longrightarrow> P (wfs w) \<Longrightarrow> m w = (Inl e, w') \<Longrightarrow> calm w' \<and> E (wfs w')"
  unfolding fsh_def by (drule spec [of _ w]) (simp add: wp_def)

lemma fsh_return: "(\<And>s. P s \<Longrightarrow> Q x s) \<Longrightarrow> fsh P (return x) Q E"
  by (simp add: fsh_def wp_simps)

lemma fsh_throw: "(\<And>s. P s \<Longrightarrow> E s) \<Longrightarrow> fsh P (throw e) Q E"
  by (simp add: fsh_def wp_simps)

lemma fsh_bind:
  assumes "fsh P m R E" "\<And>x. fsh (R x) (f x) Q E"
  shows "fsh P (bind m f) Q E"
  unfolding fsh_def wp_bind
proof (intro allI impI)
  fix w assume "calm w \<and> P (wfs w)"
  with assms(1) have "wp m (\<lambda>x w'. calm w' \<and> R x (wfs w')) (\<lambda>e w'. calm w' \<and> E (wfs w')) w"
    by (simp add: fsh_def)
  then show "wp m (\<lambda>x. wp (f x) (\<lambda>x w'. calm w' \<and> Q x (wfs w')) (\<lambda>e w'. calm w' \<and> E (wfs w')))
      (\<lambda>e w'. calm w' \<and> E (wfs w')) w"
    by (rule wp_conseq) (use assms(2) in \<open>simp_all add: fsh_def\<close>)
qed

lemma fsh_conseq:
  "\<lbrakk> fsh P' m Q' E'; \<And>s. P s \<Longrightarrow> P' s; \<And>x s. Q' x s \<Longrightarrow> Q x s; \<And>s. E' s \<Longrightarrow> E s \<rbrakk> \<Longrightarrow> fsh P m Q E"
  unfolding fsh_def by (auto elim!: wp_conseq)

lemma fsh_attempt:
  "fsh P m (\<lambda>x. Q (Inr x)) E' \<Longrightarrow> (\<And>e s. E' s \<Longrightarrow> Q (Inl e) s) \<Longrightarrow> fsh P (attempt m) Q E"
  by (auto simp: fsh_def wp_attempt elim!: wp_conseq)

lemma fsh_sys:
  assumes "\<And>s. P s \<Longrightarrow> case f s of (Inl e, s') \<Rightarrow> E s' | (Inr x, s') \<Rightarrow> Q x s'"
    and "\<And>s. P s \<Longrightarrow> E s"
  shows "fsh P (sys f) Q E"
  unfolding fsh_def
proof (intro allI impI)
  fix w assume w: "calm w \<and> P (wfs w)"
  obtain e w1 where t: "tick w = (e, w1)" by fastforce
  then have w1: "calm w1" "wfs w1 = wfs w" using w tick_calm by blast+
  show "wp (sys f) (\<lambda>x w'. calm w' \<and> Q x (wfs w')) (\<lambda>e w'. calm w' \<and> E (wfs w')) w"
    using t w w1 assms(1) [of "wfs w"] assms(2) [of "wfs w"]
    by (auto simp: wp_def sys_def split: option.splits prod.splits sum.splits)
qed

text \<open>A run that stays within \<open>K\<close> keeps whatever \<open>K\<close> keeps.\<close>

lemma fsh_keep:
  assumes m: "within (fs_rel K) m" and K: "preorder_rel K"
    and P: "\<And>s s'. P s \<Longrightarrow> K s s' \<Longrightarrow> P s'"
  shows "fsh P m (\<lambda>_. P) P"
  unfolding fsh_def
proof (intro allI impI)
  fix w assume w: "calm w \<and> P (wfs w)"
  obtain r w' where "m w = (r, w')" by fastforce
  with fs_rel_calm [OF m K _ this] w P [of "wfs w" "wfs w'"]
  show "wp m (\<lambda>x w'. calm w' \<and> P (wfs w')) (\<lambda>e w'. calm w' \<and> P (wfs w')) w"
    by (auto simp: wp_def split: sum.split)
qed

end
