(* ===== verification/Effects.thy ===== *)
theory Effects
  imports World
begin

text \<open>
  What the system calls leave alone. Making directories, changing modes, removing and renaming
  change which file a path names only where they act, and no call but a write changes the bytes of
  a file. The relation \<open>same_except\<close> says so and composes along a run.
\<close>

section \<open>File systems with the same files\<close>

text \<open>
  \<open>same_except X s s'\<close>: from \<open>s\<close> to \<open>s'\<close> no path outside \<open>X\<close> has come to name another file, and no
  file that existed has lost or changed a byte. Directories may have been made and modes changed.
\<close>

definition same_except :: "(nat \<Rightarrow> string list \<Rightarrow> bool) \<Rightarrow> fsys \<Rightarrow> fsys \<Rightarrow> bool" where
  "same_except X s s' \<longleftrightarrow> mounts s' = mounts s \<and> next_inode s \<le> next_inode s' \<and>
     (fs_wf s \<longrightarrow> fs_wf s' \<and> (\<forall>i < next_inode s. idata (inodes s' i) = idata (inodes s i)) \<and>
        (\<forall>r q. \<not> X r q \<longrightarrow> file_ino (trees s' r) q = file_ino (trees s r) q))"

definition nothing :: "nat \<Rightarrow> string list \<Rightarrow> bool" where
  "nothing r q \<longleftrightarrow> False"

text \<open>The paths at or below \<open>p\<close> in the tree \<open>r\<close>.\<close>

definition at_or_below :: "nat \<Rightarrow> string list \<Rightarrow> nat \<Rightarrow> string list \<Rightarrow> bool" where
  "at_or_below r p r' q \<longleftrightarrow> r' = r \<and> take (length p) q = p"

lemma preorder_same_except [simp, intro]: "preorder_rel (same_except X)"
  unfolding preorder_rel_def same_except_def
  by (rule conjI; rule reflpI transpI) (auto dest: less_le_trans)

lemma same_except_mono: "same_except X s s' \<Longrightarrow> (\<And>r q. X r q \<Longrightarrow> Y r q) \<Longrightarrow> same_except Y s s'"
  unfolding same_except_def by meson

lemma same_except_refl [simp]: "same_except X s s"
  by simp

lemma same_except_trans: "same_except X s t \<Longrightarrow> same_except X t u \<Longrightarrow> same_except X s u"
  using preorder_rel_trans [OF preorder_same_except] .

lemma same_except_content:
  assumes "same_except X s s'" "fs_wf s" "\<not> X r q"
  shows "content s' r q = content s r q"
proof -
  have q: "file_ino (trees s' r) q = file_ino (trees s r) q"
    and d: "\<forall>i < next_inode s. idata (inodes s' i) = idata (inodes s i)"
    using assms by (auto simp: same_except_def)
  show ?thesis
    using d file_ino_bound [OF assms(2), of r q] unfolding content_def q
    by (cases "file_ino (trees s r) q") auto
qed

text \<open>A new tree at \<open>r\<close> whose files are the old ones outside \<open>X\<close>, over the same inodes.\<close>

lemma same_except_set_tree:
  assumes "\<And>i. fs_wf s \<Longrightarrow> i \<in> node_inos t \<Longrightarrow> i < next_inode s"
    and "\<And>q. \<not> X r q \<Longrightarrow> file_ino t q = file_ino (trees s r) q"
  shows "same_except X s (set_tree r t s)"
  using assms by (auto simp: same_except_def set_tree_def fs_wf_def)

lemma node_inos_empty_dir [simp]: "node_inos (Dir m []) = {}"
  by simp

lemma file_ino_empty_dir [simp]: "file_ino (Dir m []) q = None"
  by (cases q) (auto simp: file_ino_def)

lemma file_ino_append:
  "lookup_node t p = Inr n \<Longrightarrow> file_ino t (p @ q) = file_ino n q"
  by (simp add: file_ino_def lookup_node_append)

lemma path_split:
  assumes "take (length p) q = p" obtains z where "q = p @ z"
  using assms by (metis append_take_drop_id)

lemma lookup_node_dir_parent:
  "lookup_node t (butlast p) = Inr (Dir m es) \<Longrightarrow> is_dir_at t (butlast p)"
  by (simp add: is_dir_at_def)

text \<open>Binding the last name of a path, in a directory that is there: at or below the path one sees
  the new node.\<close>

lemma lookup_update_at:
  assumes "is_dir_at t (butlast p)" "p \<noteq> []"
  shows "lookup_node (update_node t p x) (p @ q) =
    (case x of None \<Rightarrow> Inl NotExist | Some n \<Rightarrow> lookup_node n q)"
proof -
  have "p @ q = butlast p @ last p # q" using assms(2) by (metis append_Cons append_Nil append_assoc append_butlast_last_id)
  with lookup_update_below [OF assms(1), of "last p" x q] show ?thesis
    by (simp only: append_butlast_last_id [OF assms(2)])
qed

lemma file_ino_update_at:
  assumes "is_dir_at t (butlast p)" "p \<noteq> []"
  shows "file_ino (update_node t p x) (p @ q) = (case x of None \<Rightarrow> None | Some n \<Rightarrow> file_ino n q)"
  using lookup_update_at [OF assms, of x q] by (simp add: file_ino_def split: option.split)

text \<open>A link to a node without files where nothing was.\<close>

lemma link_new_fileless:
  assumes "fs_link_new r p n s = (res, s')" "node_inos n = {}" "\<And>q. file_ino n q = None"
  shows "same_except X s s'"
proof (cases "\<exists>e m es. lookup_node (trees s r) p = Inl e \<and> lookup_node (trees s r) (butlast p) = Inr (Dir m es)")
  case False
  with assms(1) have "s' = s"
    by (auto simp: fs_link_new_def parent_of_def split: sum.splits node.splits)
  then show ?thesis by simp
next
  case True
  then obtain e m es where e: "lookup_node (trees s r) p = Inl e"
    and d: "lookup_node (trees s r) (butlast p) = Inr (Dir m es)" by blast
  from e have p: "p \<noteq> []" by auto
  have s': "s' = set_tree r (update_node (trees s r) p (Some n)) s"
    using assms(1) e d by (simp add: fs_link_new_def parent_of_def)
  show ?thesis unfolding s'
  proof (rule same_except_set_tree)
    fix i assume "fs_wf s" "i \<in> node_inos (update_node (trees s r) p (Some n))"
    then show "i < next_inode s"
      using node_inos_update [of "trees s r" p "Some n"] assms(2) by (auto simp: fs_wf_def)
  next
    fix q
    show "file_ino (update_node (trees s r) p (Some n)) q = file_ino (trees s r) q"
    proof (cases "take (length p) q = p")
      case True
      then obtain z where z: "q = p @ z" by (rule path_split)
      show ?thesis
        using file_ino_update_at [OF lookup_node_dir_parent [OF d] p, of "Some n" z]
          file_ino_missing [OF e, of z] assms(3) by (simp add: z)
    next
      case False
      then show ?thesis by (rule file_ino_update_other)
    qed
  qed
qed

lemma mkdir_same: "fs_mkdir r p m s = (res, s') \<Longrightarrow> same_except X s s'"
  unfolding fs_mkdir_def by (erule link_new_fileless) simp_all

lemma mkdir_all_same: "fs_mkdir_all r pre p m s = (res, s') \<Longrightarrow> same_except X s s'"
proof (induction r pre p m s arbitrary: res s' rule: fs_mkdir_all.induct)
  case (2 r pre a p m s)
  show ?case
  proof (cases "lookup_node (trees s r) (pre @ [a])")
    case (Inr n)
    with 2 show ?thesis by (cases n) auto
  next
    case (Inl e)
    obtain u s1 where mk: "fs_mkdir r (pre @ [a]) m s = (u, s1)" by fastforce
    show ?thesis
    proof (cases u)
      case (Inl e')
      with 2(3) mk \<open>lookup_node _ _ = Inl e\<close> mkdir_same [OF mk] show ?thesis by simp
    next
      case (Inr y)
      with 2(3) mk \<open>lookup_node _ _ = Inl e\<close>
      have "fs_mkdir_all r (pre @ [a]) p m s1 = (res, s')" by simp
      with 2(1) [OF Inl mk [symmetric] Inr] mkdir_same [OF mk] show ?thesis
        using same_except_trans by blast
    qed
  qed
qed simp

lemma chmod_same: "same_except X s (snd (fs_chmod h m s))"
  by (cases h) (auto simp: fs_chmod_def same_except_def set_inode_def fs_wf_def)

lemma remove_same: "same_except (at_or_below r p) s (snd (fs_remove r p s))"
proof -
  have "same_except (at_or_below r p) s (set_tree r (update_node (trees s r) p None) s)"
    using node_inos_update [of "trees s r" p None]
    by (intro same_except_set_tree) (auto simp: fs_wf_def at_or_below_def file_ino_update_other)
  then show ?thesis
    by (auto simp: fs_remove_def split: sum.split node.split list.split)
qed

text \<open>A created file is a new inode.\<close>

lemma create_excl_Inr:
  assumes "fs_create_excl r p m s = (Inr h, s')"
  shows "h = HFile (next_inode s)" "next_inode s' = Suc (next_inode s)"
    "idata (inodes s' (next_inode s)) = []"
    "lookup_node (trees s' r) p = Inr (File (next_inode s))"
    "same_except (at_or_below r p) s s'"
proof -
  obtain u s1 where ln: "fs_link_new r p (File (next_inode s)) s = (Inr u, s1)"
    and h: "h = HFile (next_inode s)"
    and s': "s' = (set_inode (next_inode s) \<lparr>idata = [], imode = m AND NOT (umask s), imtime = clock s\<rparr> s1)
             \<lparr>next_inode := Suc (next_inode s), clock := Suc (clock s)\<rparr>"
    using assms by (auto simp: fs_create_excl_def Let_def split: prod.splits sum.splits)
  from ln obtain e m' es where e: "lookup_node (trees s r) p = Inl e"
    and d: "lookup_node (trees s r) (butlast p) = Inr (Dir m' es)"
    and s1: "s1 = set_tree r (update_node (trees s r) p (Some (File (next_inode s)))) s"
    by (auto simp: fs_link_new_def parent_of_def split: sum.splits node.splits)
  from e have p: "p \<noteq> []" by auto
  show "h = HFile (next_inode s)" "next_inode s' = Suc (next_inode s)"
    "idata (inodes s' (next_inode s)) = []"
    by (simp_all add: h s' s1 set_inode_def)
  show "lookup_node (trees s' r) p = Inr (File (next_inode s))"
    using lookup_update_at [OF lookup_node_dir_parent [OF d] p, of "Some (File (next_inode s))" "[]"]
    by (simp add: s' s1 set_inode_def set_tree_def)
  show "same_except (at_or_below r p) s s'"
    using node_inos_update [of "trees s r" p "Some (File (next_inode s))"]
    by (auto simp: s' s1 set_inode_def set_tree_def same_except_def fs_wf_def at_or_below_def
        file_ino_update_other intro: less_SucI)
qed

lemma create_excl_same: "same_except (at_or_below r p) s (snd (fs_create_excl r p m s))"
proof (cases "fs_create_excl r p m s")
  case (Pair res s')
  show ?thesis
  proof (cases res)
    case (Inr h)
    with create_excl_Inr(5) Pair show ?thesis by simp
  next
    case (Inl e)
    then have "s' = s"
      using Pair by (auto simp: fs_create_excl_def fs_link_new_def Let_def split: prod.splits sum.splits node.splits)
    with Pair show ?thesis by simp
  qed
qed

text \<open>Renaming a file over a file, a link or nothing.\<close>

lemma rename_file:
  assumes "fs_rename r p q s = (res, s')" "lookup_node (trees s r) p = Inr (File i)" "p \<noteq> q" "p \<noteq> []" "q \<noteq> []"
  shows "same_except (\<lambda>r' z. at_or_below r p r' z \<or> (r' = r \<and> z = q)) s s'"
    and "res = Inr () \<Longrightarrow> file_ino (trees s' r) q = Some i"
    and "res \<noteq> Inr () \<Longrightarrow> s' = s"
    and "inodes s' = inodes s" "next_inode s' = next_inode s"
proof -
  let ?t = "update_node (trees s r) p None"
  let ?t' = "update_node ?t q (Some (File i))"
  show "res \<noteq> Inr () \<Longrightarrow> s' = s"
    using assms(1,2,3) by (auto simp: fs_rename_def split: sum.splits node.splits)
  show "inodes s' = inodes s" "next_inode s' = next_inode s"
    using assms(1,2,3) by (auto simp: fs_rename_def set_tree_def split: sum.splits node.splits)
  have moved: "is_dir_at (trees s r) (butlast q) \<and> \<not> is_dir_at (trees s r) q \<and> s' = set_tree r ?t' s"
    if "res = Inr ()"
    using assms(1,2,3) that
    by (auto simp: fs_rename_def parent_of_def is_dir_at_def split: sum.splits node.splits)
  have at: "lookup_node ?t' (q @ z) = lookup_node (File i) z" if "res = Inr ()" for z
  proof -
    have "take (length p) (butlast q) \<noteq> p"
    proof
      assume "take (length p) (butlast q) = p"
      then obtain y where "butlast q = p @ y" by (rule path_split)
      then show False
        using moved [OF that] assms(2) by (cases y) (auto simp: is_dir_at_def lookup_node_append)
    qed
    then have "is_dir_at ?t (butlast q)"
      using lookup_update_other [of p "butlast q" "trees s r" None] moved [OF that]
      by (auto simp: is_dir_at_def)
    from lookup_update_at [OF this assms(5), of "Some (File i)" z] show ?thesis by simp
  qed
  show "file_ino (trees s' r) q = Some i" if "res = Inr ()"
    using at [OF that, of "[]"] moved [OF that] by (simp add: file_ino_def set_tree_def)
  show "same_except (\<lambda>r' z. at_or_below r p r' z \<or> (r' = r \<and> z = q)) s s'"
  proof (cases "res = Inr ()")
    case False
    with \<open>res \<noteq> Inr () \<Longrightarrow> s' = s\<close> show ?thesis by simp
  next
    case True
    note mv = moved [OF True]
    have i: "i \<in> node_inos (trees s r)"
      using assms(2) by (intro file_ino_in_node_inos [of _ p]) (simp add: file_ino_def)
    have "same_except (\<lambda>r' z. at_or_below r p r' z \<or> (r' = r \<and> z = q)) s (set_tree r ?t' s)"
    proof (rule same_except_set_tree)
      fix j assume "fs_wf s" "j \<in> node_inos ?t'"
      then show "j < next_inode s"
        using node_inos_update [of ?t q "Some (File i)"] node_inos_update [of "trees s r" p None] i
        by (auto simp: fs_wf_def)
    next
      fix z assume z: "\<not> (at_or_below r p r z \<or> (r = r \<and> z = q))"
      show "file_ino ?t' z = file_ino (trees s r) z"
      proof (cases "take (length q) z = q")
        case True
        then obtain y where y: "z = q @ y" by (rule path_split)
        with z obtain a y' where "y = a # y'" by (cases y) auto
        with y at [OF \<open>res = Inr ()\<close>, of y] mv show ?thesis
          by (auto simp: file_ino_def lookup_node_append is_dir_at_def
              elim!: lookup_node.elims split: sum.splits node.splits)
      next
        case False
        with z show ?thesis by (simp add: file_ino_update_other at_or_below_def)
      qed
    qed
    with mv show ?thesis by simp
  qed
qed

section \<open>Results of calls\<close>

lemma fs_lstat_Inr:
  assumes "fs_lstat r p s = (Inr info, s')"
  shows "s' = s \<and> (\<exists>n. lookup_node (trees s' r) p = Inr n \<and> info = node_info s' n)"
  using assms by (cases "lookup_node (trees s r) p") (auto simp: fs_lstat_def)

lemma fi_size_nonneg: "fs_fstat h s = (Inr info, s') \<Longrightarrow> 0 \<le> fi_size info"
  by (cases h) (auto simp: fs_fstat_def handle_info_def ino_info_def plain_info_def)

end
