(* ===== verification/Files.thy ===== *)
theory Files
  imports Effects
begin

text \<open>
  \<^verbatim>\<open>internal/store/files.go\<close>: the checks on names, entries and folder markers, and the fingerprint
  of a file. Every function is the Go function of the same name, its checks in the same order.
\<close>

section \<open>Names and entries\<close>

definition markerName :: string where
  "markerName = ''.backuply-folder''"

definition tempPrefix :: string where
  "tempPrefix = ''.backuply-tmp-''"

text \<open>\<open>fs.ValidPath\<close>.\<close>

definition fs_ValidPath :: "string \<Rightarrow> bool" where
  "fs_ValidPath name \<longleftrightarrow> valid_utf8 name \<and>
     (name = ''.'' \<or> list_all (\<lambda>p. p \<noteq> [] \<and> p \<noteq> ''.'' \<and> p \<noteq> ''..'') (split_on slash name))"

definition reserved_part :: "string \<Rightarrow> bool" where
  "reserved_part part \<longleftrightarrow> part = markerName \<or> has_prefix part tempPrefix"

definition validPath :: "string \<Rightarrow> error + unit" where
  "validPath name =
     (if name = ''.'' \<or> length name > 4096 \<or> \<not> fs_ValidPath name
         \<or> contains_any name [bslash, CHR '':'', CHR 0x00]
      then Inl (Errorf ''invalid relative path %q'' [name])
      else if list_ex reserved_part (split_on slash name)
      then Inl (Errorf ''reserved path %q'' [name])
      else Inr ())"

definition validHash :: "string \<Rightarrow> bool" where
  "validHash h =
     (if length h \<noteq> 64 \<or> map ascii_lower h \<noteq> h then False
      else hex_decode h \<noteq> None)"

definition hashBytes :: "bytes \<Rightarrow> string" where
  "hashBytes b = hex_encode (sha256 b)"

text \<open>The loop of \<open>ValidateEntry\<close> over the blocks, from \<open>offset\<close>.\<close>

fun check_layout :: "int \<Rightarrow> int \<Rightarrow> Block list \<Rightarrow> error + unit" where
  "check_layout esize offset [] = Inr ()"
| "check_layout esize offset (b # bs) =
     (let size = min BlockSize (esize - offset) in
      if BOffset b \<noteq> offset \<or> BSize b \<noteq> size \<or> \<not> validHash (BHash b)
      then Inl (Errorf ''invalid block layout'' [])
      else check_layout esize (offset + size) bs)"

definition ValidateEntry :: "Entry \<Rightarrow> error + unit" where
  "ValidateEntry e =
     (case validPath (EPath e) of
        Inl err \<Rightarrow> Inl err
      | Inr _ \<Rightarrow>
          (if EMode e AND NOT 511 \<noteq> 0 then Inl (Errorf ''unsupported file permissions'' [])
           else if EKind e = ''directory'' then
             (if ESize e \<noteq> 0 \<or> EHash e \<noteq> [] \<or> EBlocks e \<noteq> []
              then Inl (Errorf ''invalid directory metadata'' [])
              else Inr ())
           else if EKind e \<noteq> ''file'' \<or> ESize e < 0 \<or> ESize e > MaxFileSize \<or> \<not> validHash (EHash e)
             then Inl (Errorf ''invalid file metadata'' [])
           else if int (length (EBlocks e)) \<noteq> (ESize e + BlockSize - 1) div BlockSize
             then Inl (Errorf ''invalid block count'' [])
           else check_layout (ESize e) 0 (EBlocks e)))"

section \<open>Folder markers\<close>

definition checkMarker :: "nat \<Rightarrow> string \<Rightarrow> (world, unit) io" where
  "checkMarker r folderID =
     bind (attempt (Root_Lstat r [markerName])) (\<lambda>res.
     case res of
       Inl err \<Rightarrow> throw (Wrap ''folder marker unavailable'' err)
     | Inr info \<Rightarrow>
         bind (fail_if (fi_type info \<noteq> Regular \<or> fi_size info > 257)
                 (Errorf ''invalid folder marker'' [])) (\<lambda>_.
         bind (Root_Open r [markerName]) (\<lambda>f.
         bind (File_ReadLimited f 258) (\<lambda>b.
         fail_if (b \<noteq> folderID @ [CHR 0x0A]) (Errorf ''folder marker ID mismatch'' [])))))"

definition CheckFolder :: "string \<Rightarrow> string \<Rightarrow> (world, unit) io" where
  "CheckFolder root folderID = bind (os_OpenRoot root) (\<lambda>r. checkMarker r folderID)"

definition openFolder :: "string \<Rightarrow> string \<Rightarrow> (world, nat) io" where
  "openFolder root folderID =
     bind (os_OpenRoot root) (\<lambda>r.
     bind (checkMarker r folderID) (\<lambda>_.
     return r))"

definition syncDir :: "nat \<Rightarrow> string \<Rightarrow> (world, unit) io" where
  "syncDir r name = bind (Root_Open r (components name)) (\<lambda>f. File_Sync f)"

definition InitFolder :: "string \<Rightarrow> string \<Rightarrow> (world, unit) io" where
  "InitFolder root folderID =
     bind (fail_if (folderID = [] \<or> length folderID > 256
                    \<or> contains_any folderID [CHR 0x0D, CHR 0x0A, CHR 0x00])
            (Errorf ''invalid folder ID'' [])) (\<lambda>_.
     bind (os_MkdirAll root 448) (\<lambda>_.
     bind (os_OpenRoot root) (\<lambda>r.
     bind (attempt (Root_CreateExcl r [markerName] 384)) (\<lambda>res.
     case res of
       Inl err \<Rightarrow> (if errors_Is err AlreadyExists then checkMarker r folderID else throw err)
     | Inr f \<Rightarrow>
         bind (attempt (bind (File_Write f 0 (folderID @ [CHR 0x0A])) (\<lambda>_. File_Sync f))) (\<lambda>err.
         bind (attempt (File_Close f)) (\<lambda>closeErr.
         bind (lift_sum err) (\<lambda>_.
         bind (lift_sum closeErr) (\<lambda>_.
         syncDir r ''.'')))))))) "

section \<open>Path components\<close>

text \<open>The loop of \<open>checkComponents\<close>: \<open>pre\<close> are the components already checked.\<close>

fun check_parts :: "nat \<Rightarrow> string \<Rightarrow> bool \<Rightarrow> string list \<Rightarrow> string list \<Rightarrow> (world, unit) io" where
  "check_parts r name allowMissing pre [] = return ()"
| "check_parts r name allowMissing pre (p # ps) =
     bind (attempt (Root_Lstat r (pre @ [p]))) (\<lambda>res.
     case res of
       Inl err \<Rightarrow>
         (if errors_Is err NotExist \<and> allowMissing then return () else throw err)
     | Inr info \<Rightarrow>
         bind (fail_if (fi_type info = Link \<or> (fi_type info \<noteq> Directory \<and> fi_type info \<noteq> Regular))
                 (Errorf ''unsupported filesystem object at %q'' [name])) (\<lambda>_.
         bind (fail_if (ps \<noteq> [] \<and> fi_type info \<noteq> Directory)
                 (Errorf ''non-directory parent at %q'' [name])) (\<lambda>_.
         check_parts r name allowMissing (pre @ [p]) ps)))"

definition checkComponents :: "nat \<Rightarrow> string \<Rightarrow> bool \<Rightarrow> (world, unit) io" where
  "checkComponents r name allowMissing =
     bind (lift_sum (validPath name)) (\<lambda>_.
     check_parts r name allowMissing [] (split_on slash name))"

text \<open>\<open>path.Dir\<close> of a valid path (which is clean): everything before the last slash, or \<open>"."\<close>.\<close>

definition path_Dir :: "string \<Rightarrow> string" where
  "path_Dir name = (let ps = split_on slash name in
     if length ps \<le> 1 then ''.'' else join_with slash (butlast ps))"

text \<open>\<open>path.Join(dir, base)\<close> of a clean directory and a plain base.\<close>

definition path_Join :: "string \<Rightarrow> string \<Rightarrow> string" where
  "path_Join dir base = (if dir = ''.'' then base else dir @ slash # base)"

definition path_Base :: "string \<Rightarrow> string" where
  "path_Base name = last (split_on slash name)"

definition ensureParents :: "nat \<Rightarrow> string \<Rightarrow> (world, unit) io" where
  "ensureParents r name =
     (let parent = path_Dir name in
      if parent = ''.'' then return ()
      else bind (checkComponents r parent True) (\<lambda>_.
           Root_MkdirAll r (components parent) 448))"

section \<open>Fingerprints\<close>

text \<open>The reading loop of \<open>fingerprint\<close>: \<open>full\<close> is what the hash has taken so far.\<close>

function read_blocks ::
  "handle \<Rightarrow> int \<Rightarrow> int \<Rightarrow> bytes \<Rightarrow> Block list \<Rightarrow> (world, bytes \<times> Block list) io" where
  "read_blocks f esize offset full bs =
     (if offset < esize then
        bind ctx_Err (\<lambda>_.
        bind (File_ReadAt f offset (min BlockSize (esize - offset))) (\<lambda>buf.
        read_blocks f esize (offset + min BlockSize (esize - offset)) (full @ buf)
          (bs @ [\<lparr>BOffset = offset, BSize = min BlockSize (esize - offset), BHash = hashBytes buf\<rparr>])))
      else return (full, bs))"
  by pat_completeness auto
termination
proof (relation "measure (\<lambda>(f, esize, offset, full, bs). nat (esize - offset))", goal_cases)
  case (2 f esize offset full bs u buf)
  moreover have "0 < min BlockSize (esize - offset)" using 2 by simp
  ultimately show ?case by (simp add: zless_nat_conj)
qed simp

declare read_blocks.simps [simp del]

definition fingerprint :: "nat \<Rightarrow> string \<Rightarrow> (world, Entry) io" where
  "fingerprint r name =
     bind (checkComponents r name False) (\<lambda>_.
     bind (Root_Open r (components name)) (\<lambda>f.
     bind (File_Stat f) (\<lambda>before.
     bind (fail_if (fi_type before \<noteq> Regular \<or> fi_size before > MaxFileSize)
             (Errorf ''unsupported file type or size'' [])) (\<lambda>_.
     bind (read_blocks f (fi_size before) 0 [] []) (\<lambda>(full, bs).
     bind (File_Stat f) (\<lambda>after.
     bind (Root_Lstat r (components name)) (\<lambda>current.
     bind (fail_if (fi_size before \<noteq> fi_size after \<or> fi_mtime before \<noteq> fi_mtime after
                    \<or> fi_object before \<noteq> fi_object current)
             (Errorf ''file changed while reading'' [])) (\<lambda>_.
     return \<lparr>EPath = name, EKind = ''file'', ESize = fi_size before, EMode = fi_perm before AND 511,
             EHash = hashBytes full, EBlocks = bs\<rparr>))))))))"

section \<open>What a valid name is\<close>

lemma validPath_parts:
  assumes "validPath name = Inr ()" "p \<in> set (split_on slash name)"
  shows "p \<noteq> []" "p \<noteq> ''.''" "p \<noteq> ''..''" "slash \<notin> set p" "p \<noteq> markerName" "\<not> has_prefix p tempPrefix"
  using assms
  by (auto simp: validPath_def fs_ValidPath_def list_all_iff list_ex_iff reserved_part_def
      split: if_splits dest: split_on_parts)

lemma validPath_facts:
  assumes "validPath name = Inr ()"
  shows "valid_utf8 name" "length name \<le> 4096" "name \<noteq> ''.''"
  using assms by (auto simp: validPath_def fs_ValidPath_def split: if_splits)

lemma components_valid: "validPath name = Inr () \<Longrightarrow> components name = split_on slash name"
  by (auto simp: components_def validPath_facts)

lemma components_nonempty: "validPath name = Inr () \<Longrightarrow> components name \<noteq> []"
  by (simp add: components_valid)

lemma components_inject:
  "validPath a = Inr () \<Longrightarrow> validPath b = Inr () \<Longrightarrow> components a = components b \<longleftrightarrow> a = b"
  by (simp add: components_valid split_on_inject)

section \<open>Hashes\<close>

lemma length_hashBytes [simp]: "length (hashBytes b) = 64"
  by (simp add: hashBytes_def)

lemma hashBytes_nonempty [simp]: "hashBytes b \<noteq> []"
  using length_hashBytes [of b] by (metis list.size(3) zero_neq_numeral)

lemma hashBytes_digit: "c \<in> set (hashBytes b) \<Longrightarrow> is_hex_digit c"
  by (simp add: hashBytes_def hex_encode_digits)

lemma validHash_hashBytes [simp]: "validHash (hashBytes b)"
proof -
  have "map ascii_lower (hashBytes b) = hashBytes b"
    by (rule map_idI) (simp add: hashBytes_digit hex_digit_cases(2))
  moreover have "hex_decode (hashBytes b) \<noteq> None"
    by (simp add: hashBytes_def)
  ultimately show ?thesis by (simp add: validHash_def)
qed

lemma validHash_iff: "validHash h \<longleftrightarrow> length h = 64 \<and> (\<forall>c \<in> set h. is_hex_digit c)"
proof
  assume h: "validHash h"
  then have len: "length h = 64" and low: "map ascii_lower h = h" and dec: "hex_decode h \<noteq> None"
    by (auto simp: validHash_def split: if_splits)
  have "is_hex_digit c" if "c \<in> set h" for c
  proof -
    have "ascii_lower c = c" using low that by (metis map_eq_conv map_ident)
    moreover have "hex_value c \<noteq> None" using dec that hex_decode_Some_digits by fastforce
    ultimately have n: "(of_char c :: nat) \<in> {48..57} \<union> {97..102}"
      by (auto simp: hex_value_def ascii_lower_def Let_def split: if_splits dest: arg_cong [where f = "of_char :: char \<Rightarrow> nat"])
    then have "c \<in> char_of ` ({48..57} \<union> {97..102 :: nat})"
      by (metis char_of_char imageI)
    then show ?thesis
      by (auto simp: is_hex_digit_def hex_digits_def atLeastAtMost_upt char_of_def bit_0 upt_rec simp flip: set_upt)
  qed
  with len show "length h = 64 \<and> (\<forall>c \<in> set h. is_hex_digit c)" by simp
next
  assume "length h = 64 \<and> (\<forall>c \<in> set h. is_hex_digit c)"
  then show "validHash h"
    using hex_decode_total [of h] by (auto simp: validHash_def hex_digit_cases(2) intro: map_idI)
qed

lemma validHash_utf8: "validHash h \<Longrightarrow> valid_utf8 h"
  by (auto simp: validHash_iff intro!: valid_utf8_ascii dest: hex_digit_cases(3))

section \<open>Fixed blocks\<close>

text \<open>The blocks of some bytes, which start at \<open>off\<close> in the file.\<close>

function blocks_from :: "int \<Rightarrow> bytes \<Rightarrow> Block list" where
  "blocks_from off data =
     (if data = [] then []
      else \<lparr>BOffset = off, BSize = int (length (take (nat BlockSize) data)),
             BHash = hashBytes (take (nat BlockSize) data)\<rparr>
           # blocks_from (off + int (length (take (nat BlockSize) data))) (drop (nat BlockSize) data))"
  by pat_completeness auto
termination
  by (relation "measure (\<lambda>(off, data). length data)") (auto simp: BlockSize_def)

declare blocks_from.simps [simp del]

text \<open>The entry that describes a file of these bytes.\<close>

definition entry_of :: "string \<Rightarrow> 32 word \<Rightarrow> bytes \<Rightarrow> Entry" where
  "entry_of name m data =
     \<lparr>EPath = name, EKind = ''file'', ESize = int (length data), EMode = m,
      EHash = hashBytes data, EBlocks = blocks_from 0 data\<rparr>"

lemma blocks_from_Nil [simp]: "blocks_from off [] = []"
  by (simp add: blocks_from.simps)

lemma blocks_from_piece:
  assumes "p \<noteq> []" "int (length p) \<le> BlockSize" "int (length p) = BlockSize \<or> rest = []"
  shows "blocks_from off (p @ rest) =
     \<lparr>BOffset = off, BSize = int (length p), BHash = hashBytes p\<rparr> # blocks_from (off + int (length p)) rest"
proof -
  have "take (nat BlockSize) (p @ rest) = p" "drop (nat BlockSize) (p @ rest) = rest"
    using assms by (auto simp: nat_eq_iff le_nat_iff)
  with assms(1) show ?thesis by (subst blocks_from.simps) simp
qed

lemma blocks_from_pieces_ind:
  fixes data :: bytes
  assumes "\<And>off. P off []"
    and "\<And>off p rest. p \<noteq> [] \<Longrightarrow> int (length p) \<le> BlockSize \<Longrightarrow>
           int (length p) = BlockSize \<or> rest = [] \<Longrightarrow> P (off + int (length p)) rest \<Longrightarrow> P off (p @ rest)"
  shows "P off data"
proof (induction off data rule: blocks_from.induct)
  case (1 off data)
  show ?case
  proof (cases "data = []")
    case True
    with assms(1) show ?thesis by simp
  next
    case False
    have "P off (take (nat BlockSize) data @ drop (nat BlockSize) data)"
    proof (rule assms(2))
      show "take (nat BlockSize) data \<noteq> []" using False by (simp add: BlockSize_def)
      show "P (off + int (length (take (nat BlockSize) data))) (drop (nat BlockSize) data)"
        using 1 [OF False] by simp
    qed (auto simp: min_def le_nat_iff)
    then show ?thesis by simp
  qed
qed

lemma ceil_div_step:
  fixes B n :: int
  assumes "0 < B" "0 < k" "k \<le> B" "k = B \<or> n = 0" "0 \<le> n"
  shows "(k + n + B - 1) div B = 1 + (n + B - 1) div B"
proof (cases "k = B")
  case True
  have "k + n + B - 1 = (n + B - 1) + 1 * B" using True by simp
  then show ?thesis using assms by (simp only: div_mult_self1)
next
  case False
  then have n: "n = 0" and "k < B" using assms by auto
  have "k + B - 1 = (k - 1) + 1 * B" by simp
  moreover have "(k - 1) div B = 0"
    using \<open>k < B\<close> assms by (intro div_pos_pos_trivial) auto
  ultimately have "(k + B - 1) div B = 1"
    using assms(1) by (simp only: div_mult_self1)
  moreover have "(B - 1) div B = 0" using assms by (intro div_pos_pos_trivial) auto
  ultimately show ?thesis using n by simp
qed

lemma length_blocks_from:
  "int (length (blocks_from off data)) = (int (length data) + BlockSize - 1) div BlockSize"
proof (induction off data rule: blocks_from_pieces_ind)
  case (1 off)
  then show ?case by (simp add: div_pos_pos_trivial)
next
  case (2 off p rest)
  then show ?case
    using ceil_div_step [of BlockSize "int (length p)" "int (length rest)"]
    by (auto simp: blocks_from_piece)
qed

lemma check_layout_blocks_from:
  "check_layout (off + int (length data)) off (blocks_from off data) = Inr ()"
proof (induction off data rule: blocks_from_pieces_ind)
  case (1 off)
  then show ?case by simp
next
  case (2 off p rest)
  then have "min BlockSize (int (length p) + int (length rest)) = int (length p)"
    by (auto simp: min_def)
  with 2 show ?case
    by (simp add: blocks_from_piece Let_def add.assoc)
qed

text \<open>Scanned entries pass the receiver's validation.\<close>

lemma ValidateEntry_entry_of:
  assumes "validPath name = Inr ()" "m AND NOT 511 = 0" "int (length data) \<le> MaxFileSize"
  shows "ValidateEntry (entry_of name m data) = Inr ()"
  using assms check_layout_blocks_from [of 0 data] length_blocks_from [of 0 data]
  by (simp add: ValidateEntry_def entry_of_def)

text \<open>Pieces of the announced sizes and hashes, put together, have exactly the announced blocks.\<close>

definition piece_ok :: "Block \<Rightarrow> bytes \<Rightarrow> bool" where
  "piece_ok b d \<longleftrightarrow> int (length d) = BSize b \<and> hashBytes d = BHash b"

lemma blocks_from_assembled:
  assumes "check_layout esize off bs = Inr ()" "list_all2 piece_ok bs ds" "off \<le> esize"
    "int (length bs) = (esize - off + BlockSize - 1) div BlockSize"
  shows "blocks_from off (concat ds) = bs \<and> int (length (concat ds)) = esize - off"
  using assms
proof (induction bs arbitrary: off ds)
  case Nil
  have B: "1 < BlockSize" by (simp add: BlockSize_def)
  have "esize - off + BlockSize - 1 < BlockSize"
    using Nil.prems(4) Nil.prems(3)
      zdiv_eq_0_iff [of "esize - off + BlockSize - 1" BlockSize] B by auto
  with Nil show ?case by simp
next
  case (Cons b bs)
  then obtain d es where ds: "ds = d # es" and d: "piece_ok b d" and es: "list_all2 piece_ok bs es"
    by (auto simp: list_all2_Cons1)
  define k where "k = min BlockSize (esize - off)"
  have b: "BOffset b = off" "BSize b = k" and rest: "check_layout esize (off + k) bs = Inr ()"
    using Cons.prems(1) by (auto simp: k_def Let_def split: if_splits)
  have pos: "off < esize"
  proof (rule ccontr)
    assume "\<not> off < esize"
    then have "(esize - off + BlockSize - 1) div BlockSize = 0"
      using Cons.prems(3) by (simp add: div_pos_pos_trivial)
    with Cons.prems(4) show False by simp
  qed
  then have k: "0 < k" "k \<le> BlockSize" "off + k \<le> esize" "k = BlockSize \<or> esize - (off + k) = 0"
    by (auto simp: k_def min_def)
  have "int (length bs) = (esize - (off + k) + BlockSize - 1) div BlockSize"
    using Cons.prems(4) ceil_div_step [of BlockSize k "esize - (off + k)"] k by simp
  with Cons.IH [OF rest es k(3)]
  have IH: "blocks_from (off + k) (concat es) = bs" "int (length (concat es)) = esize - (off + k)"
    by auto
  have len: "int (length d) = k" using d b by (simp add: piece_ok_def)
  have "d \<noteq> []" "int (length d) \<le> BlockSize" "int (length d) = BlockSize \<or> concat es = []"
    using len k IH(2) by auto
  then show ?case
    using IH len d b by (simp add: ds blocks_from_piece piece_ok_def)
qed

end
