(* ===== verification/Fingerprint.thy ===== *)
theory Fingerprint
  imports Files
begin

text \<open>
  What the operations of \<^verbatim>\<open>internal/store/files.go\<close> do: the relations between file systems their
  runs stay in, and what a fingerprint is, on every schedule, when other processes edit files
  while it is taken, and when nobody does.
\<close>

section \<open>Relations that contain the operations\<close>

text \<open>
  A reflexive and transitive relation between worlds that contains the calls which only read
  contains every operation made of them. The interpretations below take for it that the file
  system is the same, that it changed only by edits that show in the modification time, that no
  file was touched outside a set of paths, and that the index is the same.
\<close>

locale reading =
  fixes R :: "world \<Rightarrow> world \<Rightarrow> bool"
  assumes pre: "preorder_rel R"
    and open_root: "within R (os_OpenRoot path)"
    and lstat: "within R (Root_Lstat r p)"
    and open_at: "within R (Root_Open r p)"
    and read_dir: "within R (Root_ReadDir r p)"
    and fstat: "within R (File_Stat h)"
    and read_at: "within R (File_ReadAt h off n)"
    and read_limited: "within R (File_ReadLimited h k)"
    and sync: "within R (File_Sync h)"
    and query_raw: "within R (sql_query (raw :: database \<Rightarrow> error + bytes))"
    and query_rows: "within R (sql_query (rows :: database \<Rightarrow> error + bytes list))"
    and query_usage: "within R (sql_query (usage :: database \<Rightarrow> error + int \<times> int))"
    and counted: "within R (set_stats g)"
    and random: "within R rand_Read"
begin

lemmas reads = within_intros pre open_root lstat open_at read_dir fstat read_at read_limited sync
  query_raw query_rows query_usage counted random

lemma checkMarker_within: "within R (checkMarker r f)"
  unfolding checkMarker_def by (intro reads)

lemma CheckFolder_within: "within R (CheckFolder root f)"
  unfolding CheckFolder_def by (intro reads checkMarker_within)

lemma openFolder_within: "within R (openFolder root f)"
  unfolding openFolder_def by (intro reads checkMarker_within)

lemma syncDir_within: "within R (syncDir r name)"
  unfolding syncDir_def by (intro reads)

lemma check_parts_within: "within R (check_parts r name miss pre' ps)"
  by (induction ps arbitrary: pre') (auto intro!: reads)

lemma checkComponents_within: "within R (checkComponents r name miss)"
  unfolding checkComponents_def by (intro reads check_parts_within)

lemma read_blocks_within: "within R (read_blocks f esize off full bs)"
proof (induction f esize off full bs rule: read_blocks.induct)
  case (1 f esize off full bs)
  then show ?case by (subst read_blocks.simps) (auto intro!: reads)
qed

lemma fingerprint_within: "within R (fingerprint r name)"
  unfolding fingerprint_def by (intro reads checkComponents_within read_blocks_within)

end

text \<open>Operations that also make directories and change modes.\<close>

locale keeping_files = reading +
  assumes mkdir: "within R (Root_Mkdir r p m)"
    and mkdir_all: "within R (Root_MkdirAll r p m)"
    and chmod: "within R (File_Chmod h m)"
begin

lemma ensureParents_within: "within R (ensureParents r name)"
  unfolding ensureParents_def Let_def by (intro reads checkComponents_within mkdir_all)

end

lemma reading_fs_rel: "preorder_rel K \<Longrightarrow> reading (fs_rel K)"
  by unfold_locales
     (simp_all add: within_reads within_query_fs within_stats_fs within_rand_fs)

interpretation unchanged: reading "fs_rel (\<lambda>s s'. s' = s)"
  by (rule reading_fs_rel) simp

interpretation moments: reading passes
  by unfold_locales
     (simp_all add: within_reads_passes within_query_passes within_stats_passes within_rand_passes)

lemma keeping_same_except: "keeping_files (fs_rel (same_except X))"
  by (intro keeping_files.intro reading_fs_rel keeping_files_axioms.intro within_sys_fs)
     (auto simp: chmod_same mkdir_same mkdir_all_same prod_eq_iff)

interpretation same: keeping_files "fs_rel (same_except X)" for X
  by (rule keeping_same_except)

text \<open>A frame of the index, or an invariant: no call on the file system touches it.\<close>

lemma reading_db:
  assumes "\<And>w w'. wdb w' = wdb w \<Longrightarrow> R w w'" "preorder_rel R"
  shows "keeping_files R"
  by unfold_locales
     (simp_all add: assms within_mono [OF within_sys_db] within_mono [OF within_query_db]
       within_mono [OF within_stats_db] within_mono [OF within_rand_db])

interpretation frame: keeping_files "\<lambda>w w'. wdb w' = wdb w"
  by (rule reading_db) simp_all

section \<open>What a fingerprint is\<close>

text \<open>Whatever happens while it runs, a fingerprint that is returned describes some bytes: the
  pieces that were read.\<close>

lemma File_ReadAt_Inr:
  assumes "File_ReadAt h off n w = (Inr buf, w')"
  shows "\<exists>i. h = HFile i \<and> 0 \<le> off \<and> 0 \<le> n \<and> int (length buf) = n
           \<and> buf = take (nat n) (drop (nat off) (idata (inodes (wfs w') i)))
           \<and> off + n \<le> int (length (idata (inodes (wfs w') i)))"
  using sys_Inr [OF assms] by (cases h) (auto simp: fs_read_at_def split: if_splits)

lemma read_blocks_Inr:
  "read_blocks f esize off full bs w = (Inr (full', bs'), w') \<Longrightarrow> off \<le> esize \<Longrightarrow>
     \<exists>data. full' = full @ data \<and> int (length data) = esize - off \<and> bs' = bs @ blocks_from off data"
proof (induction f esize off full bs arbitrary: w rule: read_blocks.induct)
  case (1 f esize off full bs)
  show ?case
  proof (cases "off < esize")
    case False
    with 1(2,3) show ?thesis by (simp add: read_blocks.simps)
  next
    case True
    define n where "n = min BlockSize (esize - off)"
    define b where "b buf = \<lparr>BOffset = off, BSize = n, BHash = hashBytes buf\<rparr>" for buf
    have n: "0 < n" "n \<le> BlockSize" "off + n \<le> esize" "n = BlockSize \<or> off + n = esize"
      using True by (auto simp: n_def min_def)
    from 1(2) True obtain buf w1 w2 where
      rd: "File_ReadAt f off n w1 = (Inr buf, w2)" and
      rest: "read_blocks f esize (off + n) (full @ buf) (bs @ [b buf]) w2 = (Inr (full', bs'), w')"
      by (subst (asm) read_blocks.simps) (auto simp: n_def b_def elim!: bind_eq_InrE)
    from 1(1) [OF True, of buf w2] rest n obtain data where
      data: "full' = (full @ buf) @ data" "int (length data) = esize - (off + n)"
        "bs' = (bs @ [b buf]) @ blocks_from (off + n) data"
      unfolding n_def b_def by blast
    have len: "int (length buf) = n" using File_ReadAt_Inr [OF rd] by blast
    have "blocks_from off (buf @ data) = b buf # blocks_from (off + n) data"
      using len n data(2) by (subst blocks_from_piece) (auto simp: b_def)
    then show ?thesis
      using data len by (intro exI [of _ "buf @ data"]) simp
  qed
qed

lemma fingerprint_Inr:
  assumes "fingerprint r name w = (Inr e, w')"
  obtains m data where "e = entry_of name (m AND 511) data" "validPath name = Inr ()"
    "int (length data) \<le> MaxFileSize"
proof -
  from assms obtain h before w1 w2 w3 w4 full bs where
    valid: "validPath name = Inr ()" and
    st: "File_Stat h w1 = (Inr before, w2)" and
    size: "fi_size before \<le> MaxFileSize" and
    rd: "read_blocks h (fi_size before) 0 [] [] w3 = (Inr (full, bs), w4)" and
    e: "e = \<lparr>EPath = name, EKind = ''file'', ESize = fi_size before, EMode = fi_perm before AND 511,
             EHash = hashBytes full, EBlocks = bs\<rparr>"
    unfolding fingerprint_def checkComponents_def
    by (auto elim!: bind_eq_InrE simp: fail_if_Inr lift_sum_Inr split: prod.splits)
  from sys_Inr [OF st] have "0 \<le> fi_size before" using fi_size_nonneg by blast
  with read_blocks_Inr [OF rd] e size have "e = entry_of name (fi_perm before AND 511) full"
    "int (length full) \<le> MaxFileSize"
    by (auto simp: entry_of_def)
  with valid that show thesis by blast
qed

text \<open>
  Other processes may edit files while a fingerprint is taken. \<open>edits_show\<close>: an edit that changes
  the bytes of a file makes its modification time later, and no step makes it earlier.
\<close>

definition edits_show :: "fsys \<Rightarrow> fsys \<Rightarrow> bool" where
  "edits_show s s' \<longleftrightarrow> (\<forall>i. imtime (inodes s i) \<le> imtime (inodes s' i) \<and>
     (imtime (inodes s' i) = imtime (inodes s i) \<longrightarrow> idata (inodes s' i) = idata (inodes s i)))"

lemma preorder_edits_show [simp, intro]: "preorder_rel edits_show"
  unfolding preorder_rel_def edits_show_def
  by (rule conjI; rule reflpI transpI) (auto, meson le_trans, metis le_antisym)

lemma edits_show_trans: "edits_show s t \<Longrightarrow> edits_show t u \<Longrightarrow> edits_show s u"
  using preorder_rel_trans [OF preorder_edits_show] .

text \<open>Between two equal modification times nothing was written.\<close>

lemma edits_show_between:
  assumes "edits_show s t" "edits_show t u" "imtime (inodes u i) = imtime (inodes s i)"
  shows "imtime (inodes t i) = imtime (inodes s i)" "idata (inodes t i) = idata (inodes u i)"
  using assms unfolding edits_show_def by (metis le_antisym)+

interpretation editing: reading "fs_rel edits_show"
  by (rule reading_fs_rel) simp

lemma read_blocks_stable:
  assumes "read_blocks (HFile i) esize off full bs w = (Inr (full', bs'), w')" "rely edits_show w"
    "imtime (inodes (wfs w') i) = imtime (inodes (wfs w) i)" "0 \<le> off" "off \<le> esize"
  shows "full' = full @ take (nat (esize - off)) (drop (nat off) (idata (inodes (wfs w') i)))"
  using assms
proof (induction "HFile i" esize off full bs arbitrary: w rule: read_blocks.induct)
  case (1 esize off full bs w)
  show ?case
  proof (cases "off < esize")
    case False
    with 1(2,3,6) show ?thesis by (simp add: read_blocks.simps)
  next
    case True
    define n where "n = min BlockSize (esize - off)"
    have n: "0 < n" "off + n \<le> esize" using True by (auto simp: n_def)
    from 1(2) True obtain u buf w1 w2 where
      ctx: "ctx_Err w = (Inr u, w1)" and
      rd: "File_ReadAt (HFile i) off n w1 = (Inr buf, w2)" and
      rest: "read_blocks (HFile i) esize (off + n) (full @ buf)
        (bs @ [\<lparr>BOffset = off, BSize = n, BHash = hashBytes buf\<rparr>]) w2 = (Inr (full', bs'), w')"
      by (subst (asm) read_blocks.simps) (auto simp: n_def elim!: bind_eq_InrE)
    have w1: "w1 = w" using ctx by (simp add: ctx_Err_def)
    note r2 = fs_rel_rely [OF editing.read_at _ rd, unfolded w1, OF 1(3)]
    note r3 = fs_rel_rely [OF editing.read_blocks_within r2(2) rest]
    note eq = edits_show_between [OF r2(1) r3(1) 1(4)]
    have "buf = take (nat n) (drop (nat off) (idata (inodes (wfs w') i)))"
      using File_ReadAt_Inr [OF rd] eq(2) by simp
    moreover have "full' = (full @ buf) @ take (nat (esize - (off + n))) (drop (nat (off + n)) (idata (inodes (wfs w') i)))"
      using 1(1) [OF True rest [unfolded n_def]] rest r2(2) eq(1) 1(4,5) n by (simp add: n_def)
    moreover have "take (nat (esize - off)) xs = take (nat n) xs @ take (nat (esize - (off + n))) (drop (nat n) xs)"
      for xs :: bytes
    proof -
      have "nat (esize - off) = nat n + nat (esize - (off + n))" using n by simp
      then show ?thesis by (simp only: take_add)
    qed
    moreover have "nat (off + n) = nat n + nat off" using n 1(5) by simp
    ultimately show ?thesis by simp
  qed
qed

text \<open>
  What is returned is what the named file held at a moment of the call, the one of the second
  \<open>Stat\<close>, with the permissions it had at the first.
\<close>

lemma fingerprint_stable:
  assumes "fingerprint r name w = (Inr e, w')" "rely edits_show w"
  obtains i j k where "j \<le> k" "k \<le> elapsed w w'" "passes w w'"
    "file_ino (trees (wfs w') r) (components name) = Some i"
    "e = entry_of name (imode (inodes (moment w j) i) AND 511) (idata (inodes (moment w k) i))"
proof -
  from assms(1) obtain h before after current w1 w2 w3 w4 w5 full bs u w1' where
    chk: "checkComponents r name False w = (Inr u, w1')" and
    op: "Root_Open r (components name) w1' = (Inr h, w1)" and
    st1: "File_Stat h w1 = (Inr before, w2)" and
    reg: "fi_type before = Regular" and
    rd: "read_blocks h (fi_size before) 0 [] [] w2 = (Inr (full, bs), w3)" and
    st2: "File_Stat h w3 = (Inr after, w4)" and
    ls: "Root_Lstat r (components name) w4 = (Inr current, w')" and
    same: "fi_size before = fi_size after" "fi_mtime before = fi_mtime after"
      "fi_object before = fi_object current" and
    e: "e = \<lparr>EPath = name, EKind = ''file'', ESize = fi_size before, EMode = fi_perm before AND 511,
             EHash = hashBytes full, EBlocks = bs\<rparr>"
    unfolding fingerprint_def
    by (auto elim!: bind_eq_InrE simp: fail_if_Inr split: prod.splits)
  note c0 = fs_rel_rely [OF editing.checkComponents_within assms(2) chk]
  note c1 = fs_rel_rely [OF editing.open_at c0(2) op]
  note c2 = fs_rel_rely [OF editing.fstat c1(2) st1]
  note c3 = fs_rel_rely [OF editing.read_blocks_within c2(2) rd]
  note c4 = fs_rel_rely [OF editing.fstat c3(2) st2]
  note p = withinD [OF moments.checkComponents_within chk] withinD [OF moments.open_at op] withinD [OF moments.fstat st1]
    withinD [OF moments.read_blocks_within rd] withinD [OF moments.fstat st2] withinD [OF moments.lstat ls]
  have p2: "passes w w2" by (rule passes_trans [OF p(1) passes_trans [OF p(2,3)]])
  have p24: "passes w2 w4" by (rule passes_trans [OF p(4,5)])
  note p4 = passes_trans [OF p2 p24]
  have b: "before = handle_info (wfs w2) h" and a: "after = handle_info (wfs w4) h"
    using sys_Inr [OF st1] sys_Inr [OF st2] by (auto simp: fs_fstat_def)
  obtain i where h: "h = HFile i"
    using reg b by (cases h) (auto simp: handle_info_def plain_info_def)
  have mt: "imtime (inodes (wfs w4) i) = imtime (inodes (wfs w2) i)"
    using same a b h by (simp add: handle_info_def ino_info_def)
  note eq = edits_show_between [OF c3(1) c4(1) mt]
  have size: "fi_size before = int (length (idata (inodes (wfs w4) i)))"
    using same a h by (simp add: handle_info_def ino_info_def)
  have "full = idata (inodes (wfs w4) i)"
    using read_blocks_stable [OF rd [unfolded h] c2(2) eq(1)] size eq(2) by simp
  moreover have "bs = blocks_from 0 full"
    using read_blocks_Inr [OF rd] size by auto
  moreover have "fi_perm before = imode (inodes (wfs w2) i)"
    using b h by (simp add: handle_info_def ino_info_def)
  ultimately have "e = entry_of name (imode (inodes (wfs w2) i) AND 511) (idata (inodes (wfs w4) i))"
    using e size by (simp add: entry_of_def)
  moreover have "file_ino (trees (wfs w') r) (components name) = Some i"
  proof -
    obtain n where n: "lookup_node (trees (wfs w') r) (components name) = Inr n" "current = node_info (wfs w') n"
      using sys_Inr [OF ls] fs_lstat_Inr by blast
    then show ?thesis
      using same(3) b h by (cases n) (auto simp: file_ino_def handle_info_def ino_info_def node_info_def plain_info_def)
  qed
  ultimately show thesis
    using that [of "elapsed w w2" "elapsed w w4" i] elapsed_mono [OF p2 p24] elapsed_mono [OF p4 p(6)]
      passes_trans [OF p4 p(6)] passes_moment [OF p2] passes_moment [OF p4] by simp
qed

text \<open>When nobody else acts, that is what the path showed.\<close>

lemma fingerprint_calm:
  assumes "fingerprint r name w = (Inr e, w')" "calm w"
  obtains i where "file_ino (trees (wfs w) r) (components name) = Some i"
    "e = entry_of name (imode (inodes (wfs w) i) AND 511) (idata (inodes (wfs w) i))"
    "wfs w' = wfs w" "calm w'"
proof -
  have rel: "wfs w' = wfs w" "calm w'"
    using fs_rel_calm [OF unchanged.fingerprint_within _ assms(2,1)] by auto
  from fingerprint_stable [OF assms(1) calm_rely [OF preorder_edits_show assms(2)]]
  obtain i j k where "file_ino (trees (wfs w') r) (components name) = Some i"
    "e = entry_of name (imode (inodes (moment w j) i) AND 511) (idata (inodes (moment w k) i))" by blast
  with rel that show thesis by (simp add: moment_calm [OF assms(2)])
qed

section \<open>Nothing changes in a calm world\<close>

text \<open>
  Calls may still fail and the context may be cancelled, but a step that only reads changes neither
  files nor index.
\<close>

abbreviation same_index :: "world \<Rightarrow> world \<Rightarrow> bool" where
  "same_index w w' \<equiv> wdb w' = wdb w"

definition steady :: "world \<Rightarrow> world \<Rightarrow> bool" where
  "steady w w' \<longleftrightarrow> fs_rel (\<lambda>s s'. s' = s) w w' \<and> wdb w' = wdb w"

lemma within_steady:
  "within (fs_rel (\<lambda>s s'. s' = s)) m \<Longrightarrow> within same_index m \<Longrightarrow> within steady m"
  by (simp add: within_def steady_def)

interpretation steady: reading steady
proof
  show "preorder_rel steady"
    using unchanged.pre preorder_rel_trans [OF unchanged.pre]
    unfolding steady_def by (auto simp: preorder_rel_def reflp_def intro!: transpI)
qed (intro within_steady unchanged.reads frame.reads)+


text \<open>In a calm world such a step changes nothing; its result is known from its run.\<close>

definition at_state :: "fsys \<Rightarrow> database \<Rightarrow> world \<Rightarrow> bool" where
  "at_state s d w \<longleftrightarrow> calm w \<and> wfs w = s \<and> wdb w = d"

lemma wp_steady:
  assumes m: "within steady m" and w: "at_state s d w"
    and ok: "\<And>x w'. m w = (Inr x, w') \<Longrightarrow> at_state s d w' \<Longrightarrow> Q x w'"
    and err: "\<And>e w'. at_state s d w' \<Longrightarrow> E e w'"
  shows "wp m Q E w"
proof -
  obtain r w' where r: "m w = (r, w')" by fastforce
  then have st: "steady w w'" using withinD [OF m] by blast
  then have "calm w'" "wfs w' = wfs w"
    using w consumes_calm calm_rely [of "\<lambda>s s'. s' = s" w] by (auto simp: steady_def fs_rel_def at_state_def)
  with st w have "at_state s d w'" by (auto simp: at_state_def steady_def)
  with r ok err show ?thesis by (cases r) (auto simp: wp_def)
qed

lemma wp_bind_steady:
  assumes "within steady m" "at_state s d w" "\<And>w'. at_state s d w' \<Longrightarrow> E w'"
    and "\<And>x w'. m w = (Inr x, w') \<Longrightarrow> at_state s d w' \<Longrightarrow> wp (g x) Q (\<lambda>_. E) w'"
  shows "wp (bind m g) Q (\<lambda>_. E) w"
  unfolding wp_bind by (rule wp_steady [OF assms(1,2)]) (use assms(3,4) in auto)

lemma sys_calm:
  assumes "calm w" "sys f w = (Inr x, w')"
  shows "calm w' \<and> f (wfs w) = (Inr x, wfs w')"
proof -
  obtain e w1 where t: "tick w = (e, w1)" by fastforce
  with assms tick_calm [OF t] show ?thesis
    by (auto simp: sys_def split: option.splits prod.splits)
qed

lemma steady_fail_if: "within steady (fail_if b err)" and steady_lift_sum: "within steady (lift_sum v)"
  and steady_attempt: "within steady m \<Longrightarrow> within steady (attempt m)"
  by (intro steady.reads; assumption)+

lemma lstat_missing:
  assumes "Root_Lstat r p w = (Inl err, w')" "errors_Is err NotExist" "at_state s d w"
  shows "\<exists>er. lookup_node (trees s r) p = Inl er"
proof -
  obtain x w1 where t: "tick w = (x, w1)" by fastforce
  then have "wfs w1 = s" using tick_calm assms(3) by (auto simp: at_state_def)
  with t assms(1,2) tick_error [of w _ w1] show ?thesis
    by (cases x) (auto simp: sys_def fs_lstat_def split: sum.splits)
qed

lemma openFolder_Inr:
  assumes "openFolder root folder w = (Inr r, w')" "at_state s d w"
  shows "mounts s root = Some r"
proof -
  obtain r1 w1 u w2 where op: "os_OpenRoot root w = (Inr r1, w1)"
    and "checkMarker r1 folder w1 = (Inr u, w2)" "return r1 w2 = (Inr r, w')"
    using assms(1) unfolding openFolder_def by (elim bind_eq_InrE)
  with sys_calm [OF _ op] assms(2) show ?thesis
    by (auto simp: at_state_def fs_open_root_def split: option.splits node.splits)
qed

end
