(* ===== verification/Network.thy ===== *)
theory Network
  imports Fingerprint
begin

text \<open>
  The calls of \<open>net\<close>, \<open>io\<close> and \<open>bufio\<close> on the connection of the world. Like every system call a call
  on the connection takes one event: it may fail, and others may act meanwhile. The bytes that
  arrive are those of \<open>rx\<close>, whatever the peer chose to send; after the last of them a read fails.
\<close>

section \<open>Calls\<close>

definition closed_error :: error where
  "closed_error = IOError ''use of closed network connection''"

definition net :: "(wire \<Rightarrow> (error + 'a) \<times> wire) \<Rightarrow> (world, 'a) io" where
  "net f = (\<lambda>w. case tick w of
       (Some e, w1) \<Rightarrow> (Inl e, w1)
     | (None, w1) \<Rightarrow>
         (if shut (conn w1) then (Inl closed_error, w1)
          else case f (conn w1) of (r, c) \<Rightarrow> (r, w1\<lparr>conn := c\<rparr>)))"

definition set_wire :: "(wire \<Rightarrow> wire) \<Rightarrow> (world, unit) io" where
  "set_wire f = modify (\<lambda>w. w\<lparr>conn := f (conn w)\<rparr>)"

abbreviation "Conn_SetDeadline \<equiv> net (\<lambda>c. (Inr (), c))"

abbreviation "Conn_Close \<equiv> set_wire (\<lambda>c. c\<lparr>shut := True\<rparr>)"

text \<open>\<open>io.ReadFull\<close> of \<open>n\<close> bytes.\<close>

definition wire_take :: "nat \<Rightarrow> wire \<Rightarrow> (error + bytes) \<times> wire" where
  "wire_take n c =
     (if length (rx c) < n then (Inl (IOError ''unexpected EOF''), c\<lparr>rx := []\<rparr>)
      else (Inr (take n (rx c)), c\<lparr>rx := drop n (rx c)\<rparr>))"

abbreviation "io_ReadFull n \<equiv> net (wire_take n)"

text \<open>\<open>bufio.Writer\<close> with the buffer of \<open>newWire\<close>: a write that fits is buffered; otherwise the buffer
  is filled and flushed, or the bytes go out directly when it is empty.\<close>

definition buffer_size :: nat where
  "buffer_size = 32 * 1024"

abbreviation "buffer_put p \<equiv> set_wire (\<lambda>c. c\<lparr>wbuf := wbuf c @ p\<rparr>)"

abbreviation "send_direct p \<equiv> net (\<lambda>c. (Inr (), c\<lparr>tx := tx c @ p\<rparr>))"

definition Writer_Flush :: "(world, unit) io" where
  "Writer_Flush =
     bind get_state (\<lambda>w.
     do_if (wbuf (conn w) \<noteq> []) (net (\<lambda>c. (Inr (), c\<lparr>tx := tx c @ wbuf c, wbuf := []\<rparr>))))"

definition put_or_send :: "bytes \<Rightarrow> (world, unit) io" where
  "put_or_send p = (if length p \<le> buffer_size then buffer_put p else send_direct p)"

definition Writer_Write :: "bytes \<Rightarrow> (world, unit) io" where
  "Writer_Write p =
     bind get_state (\<lambda>w.
     let room = buffer_size - length (wbuf (conn w)) in
     if length p \<le> room then buffer_put p
     else if wbuf (conn w) = [] then send_direct p
     else
       bind (buffer_put (take room p)) (\<lambda>_.
       bind Writer_Flush (\<lambda>_.
       put_or_send (drop room p))))"

text \<open>A handshake on the connection: \<open>verify\<close> is what the configuration says of the certificates.\<close>

definition tls_Handshake ::
  "(int \<Rightarrow> certificate list \<Rightarrow> error + certificate list) \<Rightarrow> (world, certificate list) io" where
  "tls_Handshake verify =
     bind ctx_Err (\<lambda>_.
     bind time_Now (\<lambda>t.
     net (\<lambda>c. (verify t (peer_chain c), c))))"

text \<open>\<open>net.Dial\<close>: the next connection, or a refusal.\<close>

definition net_Dial :: "(world, unit) io" where
  "net_Dial = (\<lambda>w. case tick w of
       (Some e, w1) \<Rightarrow> (Inl e, w1)
     | (None, w1) \<Rightarrow>
         (case dials w1 of
            [] \<Rightarrow> (Inl (IOError ''connection refused''), w1)
          | c # cs \<Rightarrow> (Inr (), w1\<lparr>conn := c, dials := cs\<rparr>)))"

section \<open>What the calls leave alone\<close>

lemma within_time_Now [within_intros]: "preorder_rel R \<Longrightarrow> within R time_Now"
  by (simp add: within_def time_Now_def)

lemma net_frame:
  assumes "net f w = (r, w')"
  shows "wdb w' = wdb w" "stats w' = stats w" "dials w' = dials w"
  using assms by (auto simp: net_def split: prod.splits option.splits if_splits)

lemma within_net_db [within_intros]: "within same_index (net f)"
  by (auto simp: within_def net_def split: prod.split option.split)

lemma within_net_fs [within_intros]: "preorder_rel P \<Longrightarrow> within (fs_rel P) (net f)"
proof (erule within_tick_fs)
  fix w :: world
  obtain e w1 where t: "tick w = (e, w1)" by fastforce
  obtain r w2 where n: "net f w = (r, w2)" by fastforce
  with t have "wfs w2 = wfs w1" "pending w2 = pending w1"
    by (auto simp: net_def split: option.splits if_splits prod.splits)
  with t n show "\<exists>r e w1 w2. tick w = (e, w1) \<and> net f w = (r, w2) \<and> wfs w2 = wfs w1 \<and> pending w2 = pending w1"
    by blast
qed

lemma within_wire_db [within_intros]: "within same_index (set_wire f)"
  by (simp add: within_def set_wire_def)

lemma within_wire_fs [within_intros]: "preorder_rel P \<Longrightarrow> within (fs_rel P) (set_wire f)"
  by (simp add: within_def set_wire_def fs_rel_def consumes_def)

lemma within_flush_db [within_intros]: "within same_index Writer_Flush"
  and within_flush_fs [within_intros]: "preorder_rel P \<Longrightarrow> within (fs_rel P) Writer_Flush"
  unfolding Writer_Flush_def by (intro within_intros; simp)+

lemma within_handshake_db [within_intros]: "within same_index (tls_Handshake verify)"
  and within_handshake_fs [within_intros]: "preorder_rel P \<Longrightarrow> within (fs_rel P) (tls_Handshake verify)"
  unfolding tls_Handshake_def by (intro within_intros; simp)+

lemma within_write_db [within_intros]: "within same_index (Writer_Write p)"
  and within_write_fs [within_intros]: "preorder_rel P \<Longrightarrow> within (fs_rel P) (Writer_Write p)"
  unfolding Writer_Write_def put_or_send_def by (intro within_intros; simp)+

lemma within_net_passes: "within passes (net f)"
  unfolding within_def
proof
  fix w :: world
  obtain e w1 where t: "tick w = (e, w1)" by fastforce
  show "passes w (snd (net f w))"
    using t tick_passes [OF t] by (cases e) (auto simp: net_def intro: passes_update split: prod.split)
qed

lemma net_Dial_passes: "within passes net_Dial"
  unfolding within_def
proof
  fix w :: world
  obtain e w1 where t: "tick w = (e, w1)" by fastforce
  show "passes w (snd (net_Dial w))"
    using t tick_passes [OF t] by (cases e) (auto simp: net_Dial_def intro: passes_update split: list.split)
qed

lemma within_wire_passes: "within passes (set_wire f)"
  by (simp add: within_def set_wire_def passes_def)

section \<open>Conversations\<close>

text \<open>
  \<open>talks w m x i out P\<close>: in the quiet world \<open>w\<close> with any open connection on which \<open>i\<close> arrives next, \<open>m\<close>
  returns \<open>x\<close>, has eaten exactly \<open>i\<close>, has written exactly \<open>out\<close> and leaves everything but the
  connection as it was; \<open>P\<close> holds of the connection afterwards.
\<close>

definition talks :: "world \<Rightarrow> (world, 'a) io \<Rightarrow> 'a \<Rightarrow> bytes \<Rightarrow> bytes \<Rightarrow> (wire \<Rightarrow> bool) \<Rightarrow> bool" where
  "talks w m x i out P \<longleftrightarrow> (\<forall>c rest. \<not> shut c \<longrightarrow> rx c = i @ rest \<longrightarrow>
     (\<exists>c'. m (w\<lparr>conn := c\<rparr>) = (Inr x, w\<lparr>conn := c'\<rparr>) \<and> rx c' = rest
        \<and> tx c' @ wbuf c' = tx c @ wbuf c @ out \<and> \<not> shut c' \<and> P c'))"

abbreviation flushed :: "wire \<Rightarrow> bool" where
  "flushed c \<equiv> wbuf c = []"

lemma conn_update_eq [simp]: "w\<lparr>conn := c\<rparr> = w\<lparr>conn := c'\<rparr> \<longleftrightarrow> c = c'"
  by (metis select_convs(7) surjective update_convs(7))

abbreviation anyhow :: "wire \<Rightarrow> bool" where
  "anyhow c \<equiv> True"

named_theorems talks_intros \<open>conversations of the calls and of their compositions\<close>

lemma talksI:
  assumes "\<And>c rest. \<not> shut c \<Longrightarrow> rx c = i @ rest \<Longrightarrow>
     \<exists>c'. m (w\<lparr>conn := c\<rparr>) = (Inr x, w\<lparr>conn := c'\<rparr>) \<and> rx c' = rest
        \<and> tx c' @ wbuf c' = tx c @ wbuf c @ out \<and> \<not> shut c' \<and> P c'"
  shows "talks w m x i out P"
  using assms by (simp add: talks_def)

lemma talksE:
  assumes "talks w m x i out P" "\<not> shut c" "rx c = i @ rest"
  obtains c' where "m (w\<lparr>conn := c\<rparr>) = (Inr x, w\<lparr>conn := c'\<rparr>)" "rx c' = rest"
    "tx c' @ wbuf c' = tx c @ wbuf c @ out" "\<not> shut c'" "P c'"
  using assms unfolding talks_def by blast

lemma talks_weaken: "talks w m x i out P \<Longrightarrow> talks w m x i out anyhow"
  unfolding talks_def by blast

lemma talks_return: "talks w (return x) x [] [] anyhow"
  by (simp add: talks_def)

lemma talks_bind:
  assumes m: "talks w m x i out anyhow" and f: "talks w (f x) y i' out' P"
  shows "talks w (bind m f) y (i @ i') (out @ out') P"
proof (rule talksI)
  fix c :: wire and rest assume c: "\<not> shut c" "rx c = (i @ i') @ rest"
  then have "rx c = i @ (i' @ rest)" by simp
  from talksE [OF m c(1) this] obtain c1 where c1:
    "m (w\<lparr>conn := c\<rparr>) = (Inr x, w\<lparr>conn := c1\<rparr>)" "rx c1 = i' @ rest"
    "tx c1 @ wbuf c1 = tx c @ wbuf c @ out" "\<not> shut c1" .
  from talksE [OF f c1(4,2)] obtain c2 where c2:
    "f x (w\<lparr>conn := c1\<rparr>) = (Inr y, w\<lparr>conn := c2\<rparr>)" "rx c2 = rest"
    "tx c2 @ wbuf c2 = tx c1 @ wbuf c1 @ out'" "\<not> shut c2" "P c2" .
  have "tx c2 @ wbuf c2 = tx c @ wbuf c @ out @ out'"
    using c2(3) c1(3) by (metis append.assoc)
  with c1 c2 show "\<exists>c'. bind m f (w\<lparr>conn := c\<rparr>) = (Inr y, w\<lparr>conn := c'\<rparr>) \<and> rx c' = rest
      \<and> tx c' @ wbuf c' = tx c @ wbuf c @ out @ out' \<and> \<not> shut c' \<and> P c'"
    by (auto simp: bind_def)
qed

text \<open>A call that does not touch the connection.\<close>

lemma talks_local:
  "(\<And>c. m (w\<lparr>conn := c\<rparr>) = (Inr x, w\<lparr>conn := c\<rparr>)) \<Longrightarrow> talks w m x [] [] anyhow"
  by (simp add: talks_def)

lemma talks_ignore: "talks w (f x) y i out P \<Longrightarrow> (\<And>c. m (w\<lparr>conn := c\<rparr>) = (Inr x, w\<lparr>conn := c\<rparr>))
    \<Longrightarrow> talks w (bind m f) y i out P"
  using talks_bind [OF talks_local, of m w x f y i out P] by simp

lemma net_quiet [quiet_simps]:
  "quiet w \<Longrightarrow> net f w = (if shut (conn w) then (Inl closed_error, w)
     else case f (conn w) of (r, c) \<Rightarrow> (r, w\<lparr>conn := c\<rparr>))"
  by (simp add: net_def)

lemma talks_deadline: "quiet w \<Longrightarrow> talks w Conn_SetDeadline () [] [] anyhow"
  by (auto simp: talks_def net_quiet)

lemma talks_read: "quiet w \<Longrightarrow> talks w (io_ReadFull (length d)) d d [] anyhow"
  by (auto simp: talks_def net_quiet wire_take_def)

lemma talks_flush: "quiet w \<Longrightarrow> talks w Writer_Flush () [] [] flushed"
  by (rule talksI) (auto simp: Writer_Flush_def net_quiet run_simps)

lemma talks_buffer: "quiet w \<Longrightarrow> talks w (buffer_put p) () [] p anyhow"
  by (rule talksI) (auto simp: set_wire_def run_simps)

lemma talks_direct:
  assumes "quiet w" "\<not> shut c" "wbuf c = []"
  shows "send_direct p (w\<lparr>conn := c\<rparr>) = (Inr (), w\<lparr>conn := c\<lparr>tx := tx c @ p\<rparr>\<rparr>)"
  using assms by (simp add: net_quiet)

lemma talks_put_or_send:
  assumes "quiet w" "\<not> shut c" "wbuf c = []"
  shows "\<exists>c'. put_or_send p (w\<lparr>conn := c\<rparr>) = (Inr (), w\<lparr>conn := c'\<rparr>) \<and> rx c' = rx c
     \<and> tx c' @ wbuf c' = tx c @ p \<and> \<not> shut c'"
  using assms by (auto simp: put_or_send_def set_wire_def run_simps net_quiet)

lemma talks_write: "quiet w \<Longrightarrow> talks w (Writer_Write p) () [] p anyhow"
proof (rule talksI)
  fix c :: wire and rest assume q: "quiet w" and c: "\<not> shut c" "rx c = [] @ rest"
  define k where "k = buffer_size - length (wbuf c)"
  let ?w = "w\<lparr>conn := c\<rparr>"
  show "\<exists>c'. Writer_Write p ?w = (Inr (), w\<lparr>conn := c'\<rparr>) \<and> rx c' = rest
      \<and> tx c' @ wbuf c' = tx c @ wbuf c @ p \<and> \<not> shut c' \<and> True"
  proof (cases "length p \<le> k \<or> wbuf c = []")
    case True
    with q c show ?thesis
      by (auto simp: Writer_Write_def run_bind Let_def k_def net_quiet set_wire_def)
  next
    case False
    let ?c1 = "c\<lparr>wbuf := wbuf c @ take k p\<rparr>"
    let ?c2 = "c\<lparr>tx := tx c @ wbuf c @ take k p, wbuf := []\<rparr>"
    have "buffer_put (take k p) ?w = (Inr (), w\<lparr>conn := ?c1\<rparr>)" by (simp add: set_wire_def)
    moreover have "Writer_Flush (w\<lparr>conn := ?c1\<rparr>) = (Inr (), w\<lparr>conn := ?c2\<rparr>)"
      using q c False by (auto simp: Writer_Flush_def run_simps net_quiet)
    ultimately have "Writer_Write p ?w = put_or_send (drop k p) (w\<lparr>conn := ?c2\<rparr>)"
      using False by (simp add: Writer_Write_def run_bind Let_def k_def)
    moreover obtain c' where "put_or_send (drop k p) (w\<lparr>conn := ?c2\<rparr>) = (Inr (), w\<lparr>conn := c'\<rparr>)"
      "rx c' = rx ?c2" "tx c' @ wbuf c' = tx ?c2 @ drop k p" "\<not> shut c'"
      using talks_put_or_send [OF q, of ?c2 "drop k p"] c by auto
    ultimately show ?thesis using c by (auto simp: append_assoc)
  qed
qed

end
