(* ===== verification/Store.thy ===== *)
theory Store
  imports Fingerprint
begin

text \<open>
  \<^verbatim>\<open>internal/store/store.go\<close>: opening the index, listing a folder, reading and writing one entry,
  and the budget check.
\<close>

definition limits_error :: error where
  "limits_error = Errorf ''folder index exceeds manifest limits'' []"

text \<open>\<open>Open\<close>; the database file is created and closed before SQLite opens it. The schema script is
  executed statement by statement: the tables and triggers, the recount, the schema version.\<close>

definition Store_Open :: "string \<Rightarrow> (world, unit) io" where
  "Store_Open stateDir =
     bind (os_MkdirAll stateDir 448) (\<lambda>_.
     bind (sys (\<lambda>s. (Inr (), s))) (\<lambda>_.
     bind (sys (\<lambda>s. (Inr (), s))) (\<lambda>_.
     bind (db_QueryRow (\<lambda>db. Inr (user_version db))) (\<lambda>version.
     bind (fail_if (version \<noteq> 0 \<and> version \<noteq> 1)
             (Errorf ''unsupported database schema version %d'' [show_int version])) (\<lambda>_.
     bind (db_Exec recount_usage) (\<lambda>_.
     db_Exec (set_user_version 1)))))))"

text \<open>The loop of \<open>List\<close> over the rows: \<open>manifestBytes\<close> counts the text of the listing.\<close>

fun list_rows :: "bytes list \<Rightarrow> Entry list \<Rightarrow> int \<Rightarrow> error + Entry list" where
  "list_rows [] entries manifestBytes = Inr entries"
| "list_rows (raw # raws) entries manifestBytes =
     (if int (length entries) \<ge> MaxEntries \<or> manifestBytes + int (length raw) + 1 > MaxManifestBytes
      then Inl limits_error
      else case json_Unmarshal raw of
          None \<Rightarrow> Inl (Errorf ''invalid manifest'' [])
        | Some entry \<Rightarrow>
            (case ValidateEntry entry of
               Inl err \<Rightarrow> Inl err
             | Inr _ \<Rightarrow> list_rows raws (entries @ [entry]) (manifestBytes + int (length raw) + 1)))"

definition Store_List :: "string \<Rightarrow> (world, Entry list) io" where
  "Store_List folderID =
     bind (sql_query (\<lambda>db. Inr (select_folder db folderID))) (\<lambda>rows.
     lift_sum (list_rows rows [] 2))"

definition store_get :: "string \<Rightarrow> string \<Rightarrow> (world, Entry) io" where
  "store_get folderID name =
     bind (sql_query (\<lambda>db. case select_manifest db folderID name of
                            None \<Rightarrow> Inl NoRows | Some raw \<Rightarrow> Inr raw)) (\<lambda>raw.
     case json_Unmarshal raw of
       None \<Rightarrow> throw (Errorf ''invalid manifest'' [])
     | Some entry \<Rightarrow> return entry)"

definition store_put :: "string \<Rightarrow> Entry \<Rightarrow> (world, unit) io" where
  "store_put folderID entry =
     sql_exec (upsert_row folderID (EPath entry) (json_Marshal entry))"

definition checkCapacity :: "string \<Rightarrow> Entry \<Rightarrow> (world, unit) io" where
  "checkCapacity folderID e =
     bind (sql_query (\<lambda>db. Inr (capacity_after db folderID (EPath e) (json_Marshal e)))) (\<lambda>(count, size).
     fail_if (count > MaxEntries \<or> size > MaxManifestBytes - 2) limits_error)"

section \<open>Relations that contain the operations\<close>

context reading begin

lemma store_get_within: "within R (store_get f name)"
  unfolding store_get_def by (intro reads)

lemma Store_List_within: "within R (Store_List f)"
  unfolding Store_List_def by (intro reads)

lemma checkCapacity_within: "within R (checkCapacity f e)"
  unfolding checkCapacity_def by (intro reads)

end

section \<open>Operations that end in one statement\<close>

text \<open>
  \<open>commits upd m\<close>: on every schedule an error of \<open>m\<close> leaves the index as it was, and a result \<open>x\<close>
  means that exactly \<open>upd x\<close> was executed.
\<close>

definition commits :: "('a \<Rightarrow> database \<Rightarrow> error + database) \<Rightarrow> (world, 'a) io \<Rightarrow> bool" where
  "commits upd m \<longleftrightarrow>
     (\<forall>w err w'. m w = (Inl err, w') \<longrightarrow> wdb w' = wdb w) \<and>
     (\<forall>w x w'. m w = (Inr x, w') \<longrightarrow> upd x (wdb w) = Inr (wdb w'))"

lemma commits_exec: "commits (\<lambda>_. u) (sql_exec u)"
  by (auto simp: commits_def sql_exec_def split: prod.splits option.splits sum.splits if_splits)

lemma commits_throw: "commits upd (throw err)"
  by (simp add: commits_def)

lemma commits_bind:
  assumes "within same_index m" "\<And>x. commits upd (g x)"
  shows "commits upd (bind m g)"
  using assms(2) withinD [OF assms(1)]
  unfolding commits_def bind_def by (auto split: prod.splits sum.splits) metis+

lemma commits_then_return: "commits (\<lambda>_. upd x) m \<Longrightarrow> commits upd (bind m (\<lambda>_. return x))"
  unfolding commits_def bind_def by (auto split: prod.splits sum.splits)

lemma commits_then_stats: "commits (\<lambda>_. u) m \<Longrightarrow> commits (\<lambda>_. u) (bind m (\<lambda>_. set_stats g))"
  unfolding commits_def bind_def set_stats_def
  by (simp split: prod.split sum.split)

lemma commits_deferring:
  assumes "within same_index c" "commits upd m"
  shows "commits upd (deferring c m)"
proof -
  have "wdb (snd (c w)) = wdb w" for w using assms(1) by (simp add: within_def)
  with assms(2) show ?thesis
    unfolding commits_def deferring_def by (auto split: prod.splits)
qed

lemma commits_if: "(b \<Longrightarrow> commits upd m) \<Longrightarrow> (\<not> b \<Longrightarrow> commits upd n) \<Longrightarrow> commits upd (if b then m else n)"
  by simp

lemma commits_Inl: "commits upd m \<Longrightarrow> m w = (Inl err, w') \<Longrightarrow> wdb w' = wdb w"
  and commits_Inr: "commits upd m \<Longrightarrow> m w = (Inr x, w') \<Longrightarrow> upd x (wdb w) = Inr (wdb w')"
  by (simp_all add: commits_def)

lemmas commits_intros = commits_then_stats commits_then_return commits_exec commits_bind commits_throw
  commits_if commits_deferring

section \<open>What a lookup says\<close>

lemma store_get_Inr:
  assumes "store_get folder name w = (Inr ix, w')"
  shows "\<exists>raw. select_manifest (wdb w) folder name = Some raw \<and> json_Unmarshal raw = Some ix"
proof -
  obtain raw w1 where q: "sql_query (\<lambda>db. case select_manifest db folder name of
        None \<Rightarrow> Inl NoRows | Some raw \<Rightarrow> Inr raw) w = (Inr raw, w1)"
    and "(case json_Unmarshal raw of None \<Rightarrow> throw (Errorf ''invalid manifest'' [])
        | Some entry \<Rightarrow> return entry) w1 = (Inr ix, w')"
    using assms unfolding store_get_def by (elim bind_eq_InrE)
  then show ?thesis
    using sql_query_Inr [OF q] by (auto split: option.splits)
qed

lemma store_get_NoRows:
  assumes "store_get folder name w = (Inl err, w')" "errors_Is err NoRows"
  shows "select_manifest (wdb w) folder name = None"
proof -
  define q where "q = (\<lambda>db. case select_manifest db folder name of
        None \<Rightarrow> Inl NoRows | Some raw \<Rightarrow> Inr raw)"
  obtain r w1 where qw: "sql_query q w = (r, w1)" by fastforce
  show ?thesis
  proof (cases r)
    case (Inl e)
    with qw assms have "errors_Is e NoRows"
      by (simp add: store_get_def q_def run_bind)
    with sql_query_Inl [OF qw [unfolded Inl]] show ?thesis
      by (auto simp: q_def split: option.splits)
  next
    case (Inr raw)
    with qw assms show ?thesis
      by (auto simp: store_get_def q_def run_bind split: option.splits)
  qed
qed

end
