(* ===== verification/Scan.thy ===== *)
theory Scan
  imports Store
begin

text \<open>
  \<^verbatim>\<open>internal/store/scan.go\<close>: the walk over a folder that replaces its index, and the serving of
  one indexed block.
\<close>

section \<open>Scan\<close>

text \<open>The function \<open>Scan\<close> passes to \<open>fs.WalkDir\<close>, for one name: \<open>isdir\<close> is what the directory
  entry says, the accumulator is \<open>entries\<close> and \<open>manifestBytes\<close>, and the flag tells the walk to
  skip a directory (\<open>fs.SkipDir\<close>).\<close>

type_synonym scan_acc = "Entry list \<times> int"

definition scan_visit ::
  "nat \<Rightarrow> string \<Rightarrow> bool \<Rightarrow> scan_acc \<Rightarrow> (world, bool \<times> scan_acc) io" where
  "scan_visit r name isdir acc =
     bind ctx_Err (\<lambda>_.
     if name = ''.'' then return (False, acc)
     else if path_Base name = markerName \<or> has_prefix (path_Base name) tempPrefix
       then return (isdir, acc)
     else
       bind (checkComponents r name False) (\<lambda>_.
       bind (Root_Lstat r (components name)) (\<lambda>info.
       bind (if fi_type info = Directory then
               return \<lparr>EPath = name, EKind = ''directory'', ESize = 0, EMode = fi_perm info AND 511,
                       EHash = [], EBlocks = []\<rparr>
             else if fi_type info = Regular then
               bind (attempt (fingerprint r name)) (\<lambda>res.
               case res of
                 Inl err \<Rightarrow> throw (Wrap (''scan '' @ name) err)
               | Inr e \<Rightarrow> return e)
             else throw (Errorf ''unsupported file type at %q'' [name])) (\<lambda>e.
       bind (fail_if (int (length (fst acc)) \<ge> MaxEntries
                      \<or> snd acc + int (length (json_Marshal e)) + 1 > MaxManifestBytes - 2)
               (Errorf ''folder manifest exceeds limits'' [])) (\<lambda>_.
       return (False, (fst acc @ [e], snd acc + int (length (json_Marshal e)) + 1)))))))"

text \<open>
  \<open>fs.WalkDir\<close>: visit a name, then, if it is a directory that is not skipped, its entries in byte
  order. The fuel bounds the depth; \<open>checkComponents\<close> rejects a name longer than 4096 bytes, and a
  name at depth \<open>d\<close> has at least \<open>2d - 1\<close> bytes, so the walk never gets below depth 2049.
\<close>

fun walk_dir :: "nat \<Rightarrow> nat \<Rightarrow> string \<Rightarrow> bool \<Rightarrow> scan_acc \<Rightarrow> (world, scan_acc) io"
  and walk_list :: "nat \<Rightarrow> nat \<Rightarrow> string \<Rightarrow> (string \<times> ftype) list \<Rightarrow> scan_acc \<Rightarrow> (world, scan_acc) io" where
  "walk_dir fuel r name isdir acc =
     bind (scan_visit r name isdir acc) (\<lambda>(skip, acc1).
     if skip \<or> \<not> isdir then return acc1
     else
       (case fuel of
          0 \<Rightarrow> throw (Errorf ''walk too deep'' [])
        | Suc n \<Rightarrow>
            bind (Root_ReadDir r (components name)) (\<lambda>dirs.
            walk_list n r name dirs acc1)))"
| "walk_list fuel r name [] acc = return acc"
| "walk_list fuel r name (d # ds) acc =
     bind (walk_dir fuel r (path_Join name (fst d)) (snd d = Directory) acc) (\<lambda>acc1.
     walk_list fuel r name ds acc1)"

declare walk_dir.simps [simp del]

definition walk_fuel :: nat where
  "walk_fuel = 4098"

text \<open>The transaction: delete the rows of the folder, insert the new ones; a failure anywhere
  before the commit leaves the tables as they were.\<close>

fun insert_entries :: "string \<Rightarrow> Entry list \<Rightarrow> database \<Rightarrow> error + database" where
  "insert_entries folderID [] db = Inr db"
| "insert_entries folderID (e # es) db =
     (case insert_row folderID (EPath e) (json_Marshal e) db of
        Inl err \<Rightarrow> Inl err
      | Inr db' \<Rightarrow> insert_entries folderID es db')"

definition replace_folder :: "string \<Rightarrow> Entry list \<Rightarrow> database \<Rightarrow> error + database" where
  "replace_folder folderID entries db =
     (case delete_folder folderID db of
        Inl err \<Rightarrow> Inl err
      | Inr db' \<Rightarrow> insert_entries folderID entries db')"

definition Scan :: "string \<Rightarrow> string \<Rightarrow> (world, Entry list) io" where
  "Scan folderID root =
     bind (openFolder root folderID) (\<lambda>r.
     bind (Root_Lstat r []) (\<lambda>info.
     bind (walk_dir walk_fuel r ''.'' (fi_type info = Directory) ([], 0)) (\<lambda>(entries, manifestBytes).
     bind (CheckFolder root folderID) (\<lambda>_.
     bind (checkMarker r folderID) (\<lambda>_.
     bind (sql_exec (replace_folder folderID entries)) (\<lambda>_.
     return entries))))))"

section \<open>ReadBlock\<close>

definition Store_ReadBlock ::
  "string \<Rightarrow> string \<Rightarrow> string \<Rightarrow> string \<Rightarrow> Block \<Rightarrow> (world, bytes) io" where
  "Store_ReadBlock folderID root name entryHash b =
     bind (lift_sum (validPath name)) (\<lambda>_.
     bind ctx_Err (\<lambda>_.
     bind (store_get folderID name) (\<lambda>e.
     bind (lift_sum (ValidateEntry e)) (\<lambda>_.
     bind (fail_if (EKind e \<noteq> ''file'' \<or> EHash e \<noteq> entryHash \<or> BOffset b < 0 \<or> BOffset b mod BlockSize \<noteq> 0)
             (Errorf ''stale or invalid block request'' [])) (\<lambda>_.
     bind (fail_if (BOffset b div BlockSize \<ge> int (length (EBlocks e))
                    \<or> EBlocks e ! nat (BOffset b div BlockSize) \<noteq> b)
             (Errorf ''block not in indexed manifest'' [])) (\<lambda>_.
     bind (openFolder root folderID) (\<lambda>r.
     bind (checkComponents r name False) (\<lambda>_.
     bind (Root_Open r (components name)) (\<lambda>f.
     bind (File_Stat f) (\<lambda>info.
     bind (fail_if (fi_type info \<noteq> Regular \<or> fi_size info \<noteq> ESize e)
             (Errorf ''source file changed'' [])) (\<lambda>_.
     bind (File_ReadAt f (BOffset b) (BSize b)) (\<lambda>data.
     bind (fail_if (hashBytes data \<noteq> BHash b) (Errorf ''source block changed'' [])) (\<lambda>_.
     return data)))))))))))))"

section \<open>Relations that contain the operations\<close>

context reading begin

lemma scan_visit_within: "within R (scan_visit r name isdir acc)"
  unfolding scan_visit_def by (intro reads checkComponents_within fingerprint_within)

lemma walk_within:
  "within R (walk_dir fuel r name isdir acc)"
  "within R (walk_list fuel r name ds acc)"
proof (induction fuel r name isdir acc and fuel r name ds acc rule: walk_dir_walk_list.induct)
  case (1 fuel r name isdir acc)
  have deeper: "within R (case fuel of 0 \<Rightarrow> throw (Errorf ''walk too deep'' [])
        | Suc n \<Rightarrow> bind (Root_ReadDir r (components name)) (\<lambda>dirs. walk_list n r name dirs acc'))"
    if "\<not> (skip \<or> \<not> isdir)" for skip acc'
  proof (cases fuel)
    case 0
    then show ?thesis unfolding 0 nat.case by (intro reads)
  next
    case (Suc n)
    show ?thesis unfolding Suc nat.case by (intro reads 1 [OF that Suc])
  qed
  show ?case
    unfolding walk_dir.simps by (intro reads scan_visit_within deeper; assumption)
qed (unfold walk_list.simps, (intro reads; assumption)+)

end

end
