(* ===== verification/Catalog.thy ===== *)
theory Catalog
  imports Scan
begin

text \<open>
  The index as a catalogue of entries: valid entries survive being stored, the invariant
  \<open>index_ok\<close> of the tables, the statements that keep it, and the listing of a folder on an index
  that satisfies it.
\<close>

section \<open>Valid entries are kept by the index\<close>

definition valid_entry :: "Entry \<Rightarrow> bool" where
  "valid_entry e \<longleftrightarrow> ValidateEntry e = Inr ()"

lemma check_layout_text:
  "check_layout esize off bs = Inr () \<Longrightarrow> 0 \<le> off \<Longrightarrow> off \<le> esize \<Longrightarrow> esize \<le> MaxFileSize \<Longrightarrow>
     list_all block_text_ok bs"
proof (induction bs arbitrary: off)
  case (Cons b bs)
  define k where "k = min BlockSize (esize - off)"
  have b: "BOffset b = off" "BSize b = k" "validHash (BHash b)" "check_layout esize (off + k) bs = Inr ()"
    using Cons.prems(1) by (auto simp: k_def Let_def split: if_splits)
  have k: "0 \<le> k" "off + k \<le> esize" "k \<le> esize" using Cons.prems(2,3) by (auto simp: k_def)
  with Cons.IH [OF b(4)] Cons.prems(2,4) have "list_all block_text_ok bs" by simp
  moreover have "block_text_ok b"
    using b k Cons.prems by (simp add: block_text_ok_def validHash_utf8 int64_range_def MaxFileSize_def)
  ultimately show ?case by simp
qed simp

lemma valid_text:
  assumes "valid_entry e"
  shows "entry_text_ok e"
proof -
  have v: "valid_utf8 (EPath e)"
    using assms by (auto simp: valid_entry_def ValidateEntry_def split: sum.splits dest: validPath_facts(1))
  show ?thesis
  proof (cases "EKind e = ''directory''")
    case True
    with assms v show ?thesis
      by (auto simp: valid_entry_def ValidateEntry_def entry_text_ok_def int64_range_def
          valid_utf8_ascii split: sum.splits if_splits)
  next
    case False
    with assms have f: "EKind e = ''file''" "0 \<le> ESize e" "ESize e \<le> MaxFileSize" "validHash (EHash e)"
      "check_layout (ESize e) 0 (EBlocks e) = Inr ()"
      by (auto simp: valid_entry_def ValidateEntry_def split: sum.splits if_splits)
    with v check_layout_text [OF f(5)] show ?thesis
      by (simp add: entry_text_ok_def valid_utf8_ascii validHash_utf8 int64_range_def MaxFileSize_def)
  qed
qed

interpretation manifest: codec json_Marshal json_Unmarshal valid_entry
  by unfold_locales (simp add: json_Unmarshal_Marshal valid_text)

text \<open>Rows that hold valid entries are listed back, as long as the listing is within its limits.\<close>

definition listing_bytes :: "Entry list \<Rightarrow> int" where
  "listing_bytes es = (\<Sum>e\<leftarrow>es. int (length (json_Marshal e)) + 1)"

lemma listing_bytes_simps [simp]:
  "listing_bytes [] = 0" "listing_bytes (e # es) = int (length (json_Marshal e)) + 1 + listing_bytes es"
  "listing_bytes (es @ es') = listing_bytes es + listing_bytes es'"
  by (simp_all add: listing_bytes_def)

lemma listing_bytes_nonneg: "0 \<le> listing_bytes es"
  by (induction es) auto

lemma list_rows_listed:
  assumes "\<forall>e \<in> set es. valid_entry e" "int (length acc) + int (length es) \<le> MaxEntries"
    "mb + listing_bytes es \<le> MaxManifestBytes"
  shows "list_rows (map json_Marshal es) acc mb = Inr (acc @ es)"
  using assms
proof (induction es arbitrary: acc mb)
  case (Cons e es)
  have "0 \<le> listing_bytes es" by (rule listing_bytes_nonneg)
  with Cons manifest.dec_enc [of e] show ?case by (auto simp: valid_entry_def)
qed simp

text \<open>Whatever the tables hold, only valid entries are returned, within the limits.\<close>

lemma list_rows_Inr:
  assumes "list_rows raws acc mb = Inr es" "\<forall>e \<in> set acc. valid_entry e" "int (length acc) \<le> MaxEntries"
    "mb \<le> MaxManifestBytes"
  shows "(\<forall>e \<in> set es. valid_entry e) \<and> int (length es) \<le> MaxEntries"
  using assms
proof (induction raws arbitrary: acc mb)
  case (Cons raw raws)
  from Cons.prems(1) obtain e where "json_Unmarshal raw = Some e" "valid_entry e"
    "list_rows raws (acc @ [e]) (mb + int (length raw) + 1) = Inr es"
    "int (length acc) < MaxEntries" "mb + int (length raw) + 1 \<le> MaxManifestBytes"
    by (auto simp: valid_entry_def split: if_splits option.splits sum.splits)
  with Cons.IH [of "acc @ [e]"] Cons.prems(2) show ?case by auto
qed simp

section \<open>The invariant of the index\<close>

text \<open>The tables are consistent, and every manifest is that of a valid entry stored under its path.\<close>

definition rows_valid :: "database \<Rightarrow> bool" where
  "rows_valid db \<longleftrightarrow>
     (\<forall>f p m. select_manifest db f p = Some m \<longrightarrow> (\<exists>e. m = json_Marshal e \<and> EPath e = p \<and> valid_entry e))"

definition index_ok :: "database \<Rightarrow> bool" where
  "index_ok db \<longleftrightarrow> db_inv db \<and> rows_valid db"

lemma index_ok_empty: "index_ok empty_database"
  using db_inv_empty by (simp add: index_ok_def rows_valid_def select_manifest_def) (simp add: empty_database_def)

lemma upsert_row_ok:
  assumes "index_ok db" "valid_entry e" "upsert_row f (EPath e) (json_Marshal e) db = Inr db'"
  shows "index_ok db'"
  using assms upsert_row_inv [OF _ assms(3)] select_upsert_row [OF assms(3)]
  by (auto simp: index_ok_def rows_valid_def)

lemma insert_row_ok:
  assumes "index_ok db" "valid_entry e" "insert_row f (EPath e) (json_Marshal e) db = Inr db'"
  shows "index_ok db'"
  using assms insert_row_inv [OF _ assms(3)] select_insert_row [OF assms(3)]
  by (auto simp: index_ok_def rows_valid_def)

lemma insert_entries_ok:
  "insert_entries f es db = Inr db' \<Longrightarrow> index_ok db \<Longrightarrow> \<forall>e \<in> set es. valid_entry e \<Longrightarrow> index_ok db'"
  by (induction es arbitrary: db) (auto split: sum.splits dest: insert_row_ok)

lemma map_of_filter_folder:
  "map_of (filter (\<lambda>r. fst (fst r) \<noteq> f) t) (g, p) = (if g = f then None else map_of t (g, p))"
  by (induction t) auto

lemma delete_folder_ok:
  assumes "index_ok db" "delete_folder f db = Inr db'"
  shows "index_ok db'"
proof -
  have d: "db_inv db'" "entries_tbl db' = filter (\<lambda>r. fst (fst r) \<noteq> f) (entries_tbl db)"
    using delete_folder_Inr [of db f] assms by (auto simp: index_ok_def)
  have "select_manifest db' g p = Some m \<Longrightarrow> select_manifest db g p = Some m" for g p m
    by (simp add: select_manifest_def d(2) map_of_filter_folder split: if_splits)
  with assms(1) d(1) show ?thesis unfolding index_ok_def rows_valid_def by blast
qed

lemma replace_folder_ok:
  assumes "index_ok db" "\<forall>e \<in> set es. valid_entry e" "replace_folder f es db = Inr db'"
  shows "index_ok db'"
proof -
  obtain db1 where "delete_folder f db = Inr db1" "insert_entries f es db1 = Inr db'"
    using assms(3) by (auto simp: replace_folder_def split: sum.splits)
  with assms show ?thesis using delete_folder_ok insert_entries_ok by blast
qed


text \<open>The listing of a folder.\<close>

lemma sum_list_sort_key: "(\<Sum>x\<leftarrow>sort_key k xs. g x) = (\<Sum>x\<leftarrow>xs. g x)" for g :: "'a \<Rightarrow> int"
proof -
  have "(\<Sum>x\<leftarrow>insort_key k y ys. g x) = g y + (\<Sum>x\<leftarrow>ys. g x)" for y ys
    by (induction ys) auto
  then show ?thesis by (induction xs) auto
qed

lemma listing_of_rows:
  assumes ok: "index_ok db"
  obtains es where "select_folder db f = map json_Marshal es" "\<forall>e \<in> set es. valid_entry e"
    "map EPath es = map fst (sort_key fst (folder_rows db f))"
proof -
  define rows where "rows = sort_key fst (folder_rows db f)"
  define es where "es = map (\<lambda>r. the (json_Unmarshal (snd r))) rows"
  have keys: "keys_ok db" using ok by (simp add: index_ok_def db_inv_def)
  have row: "\<exists>e. snd r = json_Marshal e \<and> EPath e = fst r \<and> valid_entry e" if "r \<in> set rows" for r
  proof -
    have "map_of (folder_rows db f) (fst r) = Some (snd r)"
      using that distinct_folder_rows [OF keys, of f] by (simp add: rows_def)
    then have "select_manifest db f (fst r) = Some (snd r)"
      by (simp add: select_manifest_folder_rows [OF keys])
    with ok show ?thesis by (auto simp: index_ok_def rows_valid_def)
  qed
  have dec: "json_Marshal (the (json_Unmarshal (snd r))) = snd r \<and> EPath (the (json_Unmarshal (snd r))) = fst r
      \<and> valid_entry (the (json_Unmarshal (snd r)))" if "r \<in> set rows" for r
    using row [OF that] manifest.dec_enc by auto
  have "select_folder db f = map json_Marshal es"
    using dec by (simp add: select_folder_def es_def flip: rows_def)
  moreover have "\<forall>e \<in> set es. valid_entry e" using dec by (auto simp: es_def)
  moreover have "map EPath es = map fst rows" using dec by (simp add: es_def)
  ultimately show thesis using that rows_def by blast
qed

lemma listing_within:
  assumes "db_inv db" "select_folder db f = map json_Marshal es"
  shows "int (length es) \<le> MaxEntries" "2 + listing_bytes es \<le> MaxManifestBytes"
proof -
  have "length es = length (folder_rows db f)"
    using arg_cong [OF assms(2), of length] by (simp add: select_folder_def)
  moreover have "listing_bytes es = rows_bytes (folder_rows db f)"
  proof -
    have "listing_bytes es = (\<Sum>m\<leftarrow>select_folder db f. row_bytes m)"
      by (simp add: assms(2) listing_bytes_def row_bytes_def o_def)
    also have "\<dots> = rows_bytes (folder_rows db f)"
      by (simp add: select_folder_def rows_bytes_def o_def split_def sum_list_sort_key)
    finally show ?thesis .
  qed
  ultimately show "int (length es) \<le> MaxEntries" "2 + listing_bytes es \<le> MaxManifestBytes"
    using usage_of_check [OF assms(1), of f] by (auto simp: usage_of_def usage_check_def)
qed

text \<open>On an index that satisfies the invariant a listing never fails on its limits or on a manifest.\<close>

lemma list_rows_ok:
  assumes "index_ok db" "select_folder db f = map json_Marshal es" "\<forall>e \<in> set es. valid_entry e"
  shows "list_rows (select_folder db f) [] 2 = Inr es"
  using list_rows_listed [OF assms(3), of "[]" 2] listing_within [OF _ assms(2)] assms(1,2)
  by (simp add: index_ok_def)

section \<open>Listing\<close>

lemma Store_List_Inr:
  assumes "Store_List f w = (Inr es, w')"
  shows "list_rows (select_folder (wdb w) f) [] 2 = Inr es"
proof -
  obtain rows w1 where q: "sql_query (\<lambda>db. Inr (select_folder db f)) w = (Inr rows, w1)"
    and "lift_sum (list_rows rows [] 2) w1 = (Inr es, w')"
    using assms unfolding Store_List_def by (elim bind_eq_InrE)
  then show ?thesis using sql_query_Inr [OF q] by (simp add: lift_sum_Inr)
qed

text \<open>On a good index the only failures of a listing are those of the machine.\<close>

lemma Store_List_Inl:
  assumes "Store_List f w = (Inl err, w')" "index_ok (wdb w)"
  shows "err = Canceled \<or> (\<exists>t. err = IOError t)"
proof -
  obtain r w1 where q: "sql_query (\<lambda>db. Inr (select_folder db f)) w = (r, w1)" by fastforce
  show ?thesis
  proof (cases r)
    case (Inl e)
    with assms(1) q sql_query_Inl [OF q [unfolded Inl]] show ?thesis
      by (auto simp: Store_List_def run_bind)
  next
    case (Inr rows)
    obtain es where es: "select_folder (wdb w) f = map json_Marshal es" "\<forall>e \<in> set es. valid_entry e"
      using listing_of_rows [OF assms(2)] by blast
    have "list_rows rows [] 2 = Inr es"
      using list_rows_ok [OF assms(2) es] sql_query_Inr [OF q [unfolded Inr]] by simp
    with assms(1) q Inr show ?thesis by (simp add: Store_List_def run_bind run_lift_sum)
  qed
qed

section \<open>Blocks that are served\<close>

lemma Store_ReadBlock_Inr:
  assumes "Store_ReadBlock f root name h b w = (Inr data, w')"
  obtains raw e where "select_manifest (wdb w) f name = Some raw" "json_Unmarshal raw = Some e"
    "valid_entry e" "EKind e = ''file''" "EHash e = h" "b \<in> set (EBlocks e)" "piece_ok b data"
proof -
  from assms obtain u0 w0 u1 w1 e w2 u3 w3 u4 w4 u5 w5 r w6 u7 w7 hd w8 info w9 u10 w10 w11 u12 w12 where
    s: "lift_sum (validPath name) w = (Inr u0, w0)" "ctx_Err w0 = (Inr u1, w1)" and
    get: "store_get f name w1 = (Inr e, w2)" and
    v: "lift_sum (ValidateEntry e) w2 = (Inr u3, w3)" and
    c1: "fail_if (EKind e \<noteq> ''file'' \<or> EHash e \<noteq> h \<or> BOffset b < 0 \<or> BOffset b mod BlockSize \<noteq> 0)
             (Errorf ''stale or invalid block request'' []) w3 = (Inr u4, w4)" and
    c2: "fail_if (BOffset b div BlockSize \<ge> int (length (EBlocks e))
                    \<or> EBlocks e ! nat (BOffset b div BlockSize) \<noteq> b)
             (Errorf ''block not in indexed manifest'' []) w4 = (Inr u5, w5)" and
    "openFolder root f w5 = (Inr r, w6)" "checkComponents r name False w6 = (Inr u7, w7)"
    "Root_Open r (components name) w7 = (Inr hd, w8)" "File_Stat hd w8 = (Inr info, w9)"
    "fail_if (fi_type info \<noteq> Regular \<or> fi_size info \<noteq> ESize e) (Errorf ''source file changed'' []) w9 = (Inr u10, w10)" and
    rd: "File_ReadAt hd (BOffset b) (BSize b) w10 = (Inr data, w11)" and
    c3: "fail_if (hashBytes data \<noteq> BHash b) (Errorf ''source block changed'' []) w11 = (Inr u12, w12)"
    unfolding Store_ReadBlock_def by (elim bind_eq_InrE) (simp only: run_return prod.inject sum.inject)
  have w1: "w1 = w" using s by (auto simp: lift_sum_Inr ctx_Err_def split: if_splits)
  obtain raw where raw: "select_manifest (wdb w) f name = Some raw" "json_Unmarshal raw = Some e"
    using store_get_Inr [OF get] w1 by auto
  have off: "0 \<le> BOffset b" and e: "EKind e = ''file''" "EHash e = h" using c1 by (auto simp: fail_if_Inr)
  have "nat (BOffset b div BlockSize) < length (EBlocks e)" "EBlocks e ! nat (BOffset b div BlockSize) = b"
    using c2 off by (auto simp: fail_if_Inr nat_less_iff pos_imp_zdiv_nonneg_iff)
  then have "b \<in> set (EBlocks e)" by (metis nth_mem)
  moreover have "piece_ok b data" using File_ReadAt_Inr [OF rd] c3 by (auto simp: piece_ok_def fail_if_Inr)
  moreover have "valid_entry e" using v by (simp add: valid_entry_def lift_sum_Inr)
  ultimately show thesis using that raw e by blast
qed

end
