(* ===== verification/Message.thy ===== *)
theory Message
  imports Catalog
begin

text \<open>
  The control messages of \<^verbatim>\<open>internal/transport/transport.go\<close> and their JSON form: a field with the
  \<open>omitempty\<close> tag is left out when it has its zero value or is a nil pointer.
\<close>

section \<open>Messages\<close>

record message =
  MType :: string
  MVersion :: int
  MFolder :: string
  MPath :: string
  MHash :: string
  MBlock :: "Block option"
  MEntry :: "Entry option"
  MError :: string

definition zero_message :: message where
  "zero_message = \<lparr>MType = [], MVersion = 0, MFolder = [], MPath = [], MHash = [],
     MBlock = None, MEntry = None, MError = []\<rparr>"

definition omit_string :: "string \<Rightarrow> string \<Rightarrow> (string \<times> json) list" where
  "omit_string k s = (if s = [] then [] else [(k, JStr s)])"

definition omit_int :: "string \<Rightarrow> int \<Rightarrow> (string \<times> json) list" where
  "omit_int k i = (if i = 0 then [] else [(k, JNum (show_int i))])"

definition omit_nil :: "string \<Rightarrow> ('a \<Rightarrow> json) \<Rightarrow> 'a option \<Rightarrow> (string \<times> json) list" where
  "omit_nil k enc p = (case p of None \<Rightarrow> [] | Some x \<Rightarrow> [(k, enc x)])"

definition enc_message :: "message \<Rightarrow> json" where
  "enc_message m = JObj ([(''type'', JStr (MType m))]
     @ omit_int ''version'' (MVersion m)
     @ omit_string ''folder'' (MFolder m) @ omit_string ''path'' (MPath m) @ omit_string ''hash'' (MHash m)
     @ omit_nil ''block'' enc_block (MBlock m) @ omit_nil ''entry'' enc_entry (MEntry m)
     @ omit_string ''error'' (MError m))"

text \<open>Into a pointer: \<open>null\<close> makes it nil, an object fills what it points to or a new zero value.\<close>

definition dec_pointer :: "((string \<times> json) list \<Rightarrow> 'a \<Rightarrow> 'a option) \<Rightarrow> 'a \<Rightarrow> json \<Rightarrow> 'a option \<Rightarrow> 'a option option" where
  "dec_pointer dec zero j old = (case j of
       JNull \<Rightarrow> Some None
     | JObj ms \<Rightarrow> map_option Some (dec ms (case old of None \<Rightarrow> zero | Some x \<Rightarrow> x))
     | _ \<Rightarrow> None)"

fun dec_message_members :: "(string \<times> json) list \<Rightarrow> message \<Rightarrow> message option" where
  "dec_message_members [] m = Some m"
| "dec_message_members ((k, j) # ms) m =
     (if member_is k ''type'' then
        (case dec_string j (MType m) of None \<Rightarrow> None
         | Some s \<Rightarrow> dec_message_members ms (m\<lparr>MType := s\<rparr>))
      else if member_is k ''version'' then
        (case dec_int64 j (MVersion m) of None \<Rightarrow> None
         | Some i \<Rightarrow> dec_message_members ms (m\<lparr>MVersion := i\<rparr>))
      else if member_is k ''folder'' then
        (case dec_string j (MFolder m) of None \<Rightarrow> None
         | Some s \<Rightarrow> dec_message_members ms (m\<lparr>MFolder := s\<rparr>))
      else if member_is k ''path'' then
        (case dec_string j (MPath m) of None \<Rightarrow> None
         | Some s \<Rightarrow> dec_message_members ms (m\<lparr>MPath := s\<rparr>))
      else if member_is k ''hash'' then
        (case dec_string j (MHash m) of None \<Rightarrow> None
         | Some s \<Rightarrow> dec_message_members ms (m\<lparr>MHash := s\<rparr>))
      else if member_is k ''block'' then
        (case dec_pointer dec_block_members zero_block j (MBlock m) of None \<Rightarrow> None
         | Some p \<Rightarrow> dec_message_members ms (m\<lparr>MBlock := p\<rparr>))
      else if member_is k ''entry'' then
        (case dec_pointer dec_entry_members zero_entry j (MEntry m) of None \<Rightarrow> None
         | Some p \<Rightarrow> dec_message_members ms (m\<lparr>MEntry := p\<rparr>))
      else if member_is k ''error'' then
        (case dec_string j (MError m) of None \<Rightarrow> None
         | Some s \<Rightarrow> dec_message_members ms (m\<lparr>MError := s\<rparr>))
      else dec_message_members ms m)"

definition dec_message :: "json \<Rightarrow> message option" where
  "dec_message j = (case j of
       JObj ms \<Rightarrow> dec_message_members ms zero_message | JNull \<Rightarrow> Some zero_message | _ \<Rightarrow> None)"

definition marshal_message :: "message \<Rightarrow> bytes" where
  "marshal_message m = json_text (enc_message m)"

definition unmarshal_message :: "bytes \<Rightarrow> message option" where
  "unmarshal_message s = (case parse_json s of None \<Rightarrow> None | Some j \<Rightarrow> dec_message j)"

section \<open>The round trip\<close>

definition message_ok :: "message \<Rightarrow> bool" where
  "message_ok m \<longleftrightarrow> valid_utf8 (MType m) \<and> int64_range (MVersion m) \<and> valid_utf8 (MFolder m)
     \<and> valid_utf8 (MPath m) \<and> valid_utf8 (MHash m) \<and> valid_utf8 (MError m)
     \<and> pred_option block_text_ok (MBlock m) \<and> pred_option entry_text_ok (MEntry m)"

lemma dec_enc_pointer_block:
  "block_text_ok b \<Longrightarrow> dec_pointer dec_block_members zero_block (enc_block b) None = Some (Some b)"
  using dec_enc_block [of b] by (simp add: dec_pointer_def dec_block_def enc_block_def)

lemma dec_enc_pointer_entry:
  "entry_text_ok e \<Longrightarrow> dec_pointer dec_entry_members zero_entry (enc_entry e) None = Some (Some e)"
  using dec_enc_entry [of e] by (simp add: dec_pointer_def dec_entry_def enc_entry_def)

lemmas member_names = member_is_def ascii_lower_def dec_string_def dec_int64_def

lemma dec_message_type:
  "dec_message_members ((''type'', JStr s) # ms) m = dec_message_members ms (m\<lparr>MType := s\<rparr>)"
  by (simp add: member_names)

lemma dec_message_version:
  "int64_range v \<Longrightarrow> dec_message_members (omit_int ''version'' v @ ms) m =
     dec_message_members ms (if v = 0 then m else m\<lparr>MVersion := v\<rparr>)"
  by (simp add: omit_int_def member_names)

lemma dec_message_folder:
  "dec_message_members (omit_string ''folder'' f @ ms) m = dec_message_members ms (if f = [] then m else m\<lparr>MFolder := f\<rparr>)"
  by (simp add: omit_string_def member_names)

lemma dec_message_path:
  "dec_message_members (omit_string ''path'' f @ ms) m = dec_message_members ms (if f = [] then m else m\<lparr>MPath := f\<rparr>)"
  by (simp add: omit_string_def member_names)

lemma dec_message_hash:
  "dec_message_members (omit_string ''hash'' f @ ms) m = dec_message_members ms (if f = [] then m else m\<lparr>MHash := f\<rparr>)"
  by (simp add: omit_string_def member_names)

lemma dec_message_error:
  "dec_message_members (omit_string ''error'' f) m = Some (if f = [] then m else m\<lparr>MError := f\<rparr>)"
  by (simp add: omit_string_def member_names)

lemma dec_message_block:
  "MBlock m = None \<Longrightarrow> pred_option block_text_ok p \<Longrightarrow>
     dec_message_members (omit_nil ''block'' enc_block p @ ms) m = dec_message_members ms (if p = None then m else m\<lparr>MBlock := p\<rparr>)"
  by (cases p) (simp_all add: omit_nil_def member_names dec_enc_pointer_block)

lemma dec_message_entry:
  "MEntry m = None \<Longrightarrow> pred_option entry_text_ok q \<Longrightarrow>
     dec_message_members (omit_nil ''entry'' enc_entry q @ ms) m = dec_message_members ms (if q = None then m else m\<lparr>MEntry := q\<rparr>)"
  by (cases q) (simp_all add: omit_nil_def member_names dec_enc_pointer_entry)

lemmas dec_message_fields = dec_message_type dec_message_version dec_message_folder dec_message_path
  dec_message_hash dec_message_block dec_message_entry dec_message_error

lemma dec_enc_message:
  assumes "message_ok m"
  shows "dec_message (enc_message m) = Some m"
  using assms
  by (cases m) (simp add: dec_message_def enc_message_def message_ok_def dec_message_fields
      zero_message_def del: dec_message_members.simps)

lemma json_ok_omit:
  "valid_utf8 k \<Longrightarrow> list_all (\<lambda>(k, v). valid_utf8 k \<and> json_ok v) (omit_string k s) = (s = [] \<or> valid_utf8 s)"
  "valid_utf8 k \<Longrightarrow> list_all (\<lambda>(k, v). valid_utf8 k \<and> json_ok v) (omit_int k i)"
  "valid_utf8 k \<Longrightarrow> list_all (\<lambda>(k, v). valid_utf8 k \<and> json_ok v) (omit_nil k enc p) = pred_option (json_ok \<circ> enc) p"
  by (auto simp: omit_string_def omit_int_def omit_nil_def split: option.split)

lemma json_ok_enc_message:
  assumes "message_ok m"
  shows "json_ok (enc_message m)"
proof -
  have "pred_option (json_ok \<circ> enc_block) (MBlock m)" "pred_option (json_ok \<circ> enc_entry) (MEntry m)"
    using assms json_ok_enc_block json_ok_enc_entry
    by (cases "MBlock m"; cases "MEntry m"; simp add: message_ok_def)+
  with assms show ?thesis
    by (simp add: enc_message_def message_ok_def json_ok_omit valid_utf8_ascii)
qed

lemma unmarshal_marshal_message: "message_ok m \<Longrightarrow> unmarshal_message (marshal_message m) = Some m"
  by (simp add: unmarshal_message_def marshal_message_def parse_json_text json_ok_enc_message dec_enc_message)

interpretation control: codec marshal_message unmarshal_message message_ok
  by unfold_locales (rule unmarshal_marshal_message)

end
