(* ===== verification/Transport.thy ===== *)
theory Transport
  imports Network Message
begin

text \<open>
  \<^verbatim>\<open>internal/transport/transport.go\<close>: frames, control messages, the handling of one connection and
  the client. A function that writes returns after the bytes are in the buffer; only \<open>Flush\<close> sends
  them.
\<close>

section \<open>Constants\<close>

definition Version :: int where "Version = 1"
definition maxControl :: int where "maxControl = 4 * 2 ^ 20"
definition maxIndexBytes :: int where "maxIndexBytes = 64 * 2 ^ 20"
definition maxEntries :: int where "maxEntries = 100000"
definition maxSessions :: nat where "maxSessions = 32"

section \<open>Frames\<close>

definition readFrame :: "int \<Rightarrow> (world, bytes) io" where
  "readFrame limit =
     bind (io_ReadFull 4) (\<lambda>header.
     bind (fail_if (word_of_bytes header = 0 \<or> uint (word_of_bytes header) > limit mod 2 ^ 64)
             (Errorf ''invalid frame size %d'' [show_nat (unat (word_of_bytes header))])) (\<lambda>_.
     io_ReadFull (unat (word_of_bytes header))))"

text \<open>\<open>binary.BigEndian.PutUint32(header, uint32(n))\<close>.\<close>

definition frame_header :: "nat \<Rightarrow> bytes" where
  "frame_header n = be_bytes 4 (unat (of_nat n :: 32 word))"

definition writeFrame :: "bytes \<Rightarrow> int \<Rightarrow> (world, unit) io" where
  "writeFrame data limit =
     bind (fail_if (data = [] \<or> int (length data) > limit)
             (Errorf ''frame size exceeds protocol limit'' [])) (\<lambda>_.
     bind (Writer_Write (frame_header (length data))) (\<lambda>_.
     Writer_Write data))"

definition wire_read :: "(world, message \<times> int) io" where
  "wire_read =
     bind (readFrame maxControl) (\<lambda>b.
     case unmarshal_message b of
       None \<Rightarrow> throw (Errorf ''invalid control frame'' [])
     | Some msg \<Rightarrow> return (msg, int (length b)))"

definition wire_write :: "message \<Rightarrow> (world, int) io" where
  "wire_write msg =
     bind (writeFrame (marshal_message msg) maxControl) (\<lambda>_.
     return (int (length (marshal_message msg))))"

definition wire_send :: "message \<Rightarrow> (world, unit) io" where
  "wire_send msg = bind (wire_write msg) (\<lambda>_. Writer_Flush)"

section \<open>Configurations\<close>

definition validateTLS :: "tls_Config option \<Rightarrow> bool \<Rightarrow> error + unit" where
  "validateTLS config server =
     (case config of
        None \<Rightarrow> Inl (Errorf ''TLS configuration is required'' [])
      | Some cfg \<Rightarrow>
          (if MinVersion cfg < VersionTLS13 then Inl (Errorf ''TLS 1.3 minimum is required'' [])
           else if server then
             (let verified = (ClientAuth cfg = RequireAndVerifyClientCert);
                  pinned = (ClientAuth cfg = RequireAnyClientCert \<and> VerifyConnection cfg \<noteq> None)
              in if \<not> verified \<and> \<not> pinned
                 then Inl (Errorf ''mutually authenticated TLS is required'' []) else Inr ())
           else if InsecureSkipVerify cfg \<and> VerifyConnection cfg = None
             then Inl (Errorf ''TLS peer verification is required'' [])
           else Inr ()))"

section \<open>Requests\<close>

record Backend =
  backend_List :: "string \<Rightarrow> string \<Rightarrow> (world, Entry list) io"
  backend_ReadBlock :: "string \<Rightarrow> string \<Rightarrow> string \<Rightarrow> string \<Rightarrow> Block \<Rightarrow> (world, bytes) io"

definition hello_message :: message where
  "hello_message = zero_message\<lparr>MType := ''hello'', MVersion := Version\<rparr>"

definition error_message :: message where
  "error_message = zero_message\<lparr>MType := ''error'', MError := ''request rejected''\<rparr>"

definition entry_message :: "Entry \<Rightarrow> message" where
  "entry_message e = zero_message\<lparr>MType := ''entry'', MEntry := Some e\<rparr>"

definition list_message :: "string \<Rightarrow> message" where
  "list_message folder = zero_message\<lparr>MType := ''list'', MFolder := folder\<rparr>"

definition block_message :: "string \<Rightarrow> string \<Rightarrow> string \<Rightarrow> Block \<Rightarrow> message" where
  "block_message folder name entryHash b =
     zero_message\<lparr>MType := ''block'', MFolder := folder, MPath := name, MHash := entryHash, MBlock := Some b\<rparr>"

abbreviation end_message :: message where
  "end_message \<equiv> zero_message\<lparr>MType := ''end''\<rparr>"

abbreviation data_message :: message where
  "data_message \<equiv> zero_message\<lparr>MType := ''block''\<rparr>"

text \<open>The error of the backend is an argument that \<open>sendError\<close> ignores.\<close>

definition sendError :: "error \<Rightarrow> (world, unit) io" where
  "sendError err = wire_send error_message"

fun send_entries :: "Entry list \<Rightarrow> int \<Rightarrow> (world, unit) io" where
  "send_entries [] spent = return ()"
| "send_entries (e # es) spent =
     bind ctx_Err (\<lambda>_.
     bind (wire_write (entry_message e)) (\<lambda>n.
     bind (fail_if (spent + n > maxIndexBytes) (Errorf ''index metadata limit exceeded'' [])) (\<lambda>_.
     send_entries es (spent + n))))"

definition handle_list :: "Backend \<Rightarrow> string \<Rightarrow> message \<Rightarrow> (world, unit) io" where
  "handle_list backend peerID request =
     bind (attempt (backend_List backend peerID (MFolder request))) (\<lambda>res.
     case res of
       Inl err \<Rightarrow> sendError err
     | Inr entries \<Rightarrow>
         (if int (length entries) > maxEntries
          then sendError (Errorf ''index entry limit exceeded'' [])
          else bind (send_entries entries 0) (\<lambda>_. wire_send end_message)))"

definition invalid_block_request :: "message \<Rightarrow> Block \<Rightarrow> bool" where
  "invalid_block_request request b \<longleftrightarrow>
     BSize b \<le> 0 \<or> BSize b > BlockSize \<or> BOffset b < 0
     \<or> length (MHash request) \<noteq> 64 \<or> length (BHash b) \<noteq> 64"

definition handle_block :: "Backend \<Rightarrow> string \<Rightarrow> message \<Rightarrow> (world, unit) io" where
  "handle_block backend peerID request =
     (case MBlock request of
        None \<Rightarrow> throw (Errorf ''invalid block request'' [])
      | Some b \<Rightarrow>
          bind (fail_if (invalid_block_request request b) (Errorf ''invalid block request'' [])) (\<lambda>_.
          bind (attempt (backend_ReadBlock backend peerID (MFolder request) (MPath request) (MHash request) b)) (\<lambda>res.
          case res of
            Inl err \<Rightarrow> sendError err
          | Inr data \<Rightarrow>
              (if int (length data) \<noteq> BSize b
               then sendError (Errorf ''backend returned incorrect block size'' [])
               else
                 bind (wire_write data_message) (\<lambda>_.
                 bind (writeFrame data BlockSize) (\<lambda>_.
                 Writer_Flush))))))"

definition handleRequest :: "Backend \<Rightarrow> string \<Rightarrow> message \<Rightarrow> (world, unit) io" where
  "handleRequest backend peerID request =
     bind (fail_if (MFolder request = [] \<or> length (MFolder request) > 256 \<or> length (MPath request) > 4096)
             (Errorf ''invalid request'' [])) (\<lambda>_.
     if MType request = ''list'' then handle_list backend peerID request
     else if MType request = ''block'' then handle_block backend peerID request
     else throw (Errorf ''unknown request type'' []))"

section \<open>One connection of the server\<close>

text \<open>
  The loop of \<open>serveConn\<close> ends only by an error, so the handler of a connection always ends in one.
  Every round reads a frame of at least five bytes, so as many rounds as bytes arrive are enough.
\<close>

fun serve_requests :: "nat \<Rightarrow> Backend \<Rightarrow> string \<Rightarrow> (world, unit) io" where
  "serve_requests 0 backend peerID = throw (Errorf ''out of fuel'' [])"
| "serve_requests (Suc n) backend peerID =
     bind Conn_SetDeadline (\<lambda>_.
     bind wire_read (\<lambda>(request, _).
     bind Conn_SetDeadline (\<lambda>_.
     bind (handleRequest backend peerID request) (\<lambda>_.
     serve_requests n backend peerID))))"

definition peer_fingerprint :: "certificate \<Rightarrow> string" where
  "peer_fingerprint cert = hashBytes (Raw cert)"

definition serveConn :: "tls_Config \<Rightarrow> Backend \<Rightarrow> (world, unit) io" where
  "serveConn config backend =
     bind Conn_SetDeadline (\<lambda>_.
     bind (tls_Handshake (tls_server_verify config)) (\<lambda>certs.
     case certs of
       [] \<Rightarrow> throw (Errorf ''no peer certificate'' [])
     | cert # _ \<Rightarrow>
         bind wire_read (\<lambda>(hello, _).
         bind (fail_if (MType hello \<noteq> ''hello'' \<or> MVersion hello \<noteq> Version)
                 (Errorf ''unsupported hello'' [])) (\<lambda>_.
         bind (wire_send hello_message) (\<lambda>_.
         bind get_state (\<lambda>w.
         serve_requests (Suc (length (rx (conn w)))) backend (peer_fingerprint cert)))))))"

section \<open>The client\<close>

text \<open>
  \<open>operation\<close>: the gate lets one operation run at a time. An operation that fails once it has begun
  to use the connection closes it, and so does one whose context ends while it runs.
\<close>

definition client_operation :: "(world, 'a) io \<Rightarrow> (world, 'a) io" where
  "client_operation fn =
     bind ctx_Err (\<lambda>_.
     bind (attempt Conn_SetDeadline) (\<lambda>deadline.
     case deadline of
       Inl err \<Rightarrow> bind Conn_Close (\<lambda>_. throw err)
     | Inr _ \<Rightarrow>
         bind (attempt fn) (\<lambda>res.
         bind (attempt ctx_Err) (\<lambda>ended.
         case (case ended of Inl err \<Rightarrow> Inl err | Inr _ \<Rightarrow> res) of
           Inl err \<Rightarrow> bind Conn_Close (\<lambda>_. throw err)
         | Inr x \<Rightarrow> return x))))"

fun list_loop :: "nat \<Rightarrow> Entry list \<Rightarrow> int \<Rightarrow> (world, Entry list) io" where
  "list_loop 0 entries spent = throw (Errorf ''out of fuel'' [])"
| "list_loop (Suc k) entries spent =
     bind wire_read (\<lambda>(msg, n).
     bind (fail_if (spent + n > maxIndexBytes) (Errorf ''peer index metadata limit exceeded'' [])) (\<lambda>_.
     if MType msg = ''entry'' then
       (case MEntry msg of
          None \<Rightarrow> throw (Errorf ''invalid peer index'' [])
        | Some e \<Rightarrow>
            (if int (length entries) \<ge> maxEntries then throw (Errorf ''invalid peer index'' [])
             else list_loop k (entries @ [e]) (spent + n)))
     else if MType msg = ''end'' then return entries
     else if MType msg = ''error'' then throw (Errorf ''peer rejected list request'' [])
     else throw (Errorf ''unexpected index response'' [])))"

definition client_List :: "string \<Rightarrow> (world, Entry list) io" where
  "client_List folderID =
     client_operation (
       bind (wire_send (list_message folderID)) (\<lambda>_.
       bind get_state (\<lambda>w.
       list_loop (Suc (length (rx (conn w)))) [] 0)))"

definition client_ReadBlock :: "string \<Rightarrow> string \<Rightarrow> string \<Rightarrow> Block \<Rightarrow> (world, bytes) io" where
  "client_ReadBlock folderID name entryHash b =
     bind (fail_if (BSize b \<le> 0 \<or> BSize b > BlockSize \<or> BOffset b < 0) (Errorf ''invalid block'' [])) (\<lambda>_.
     client_operation (
       bind (wire_send (block_message folderID name entryHash b)) (\<lambda>_.
       bind wire_read (\<lambda>(msg, _).
       bind (fail_if (MType msg = ''error'') (Errorf ''peer rejected block request'' [])) (\<lambda>_.
       bind (fail_if (MType msg \<noteq> ''block'') (Errorf ''unexpected block response'' [])) (\<lambda>_.
       bind (readFrame (BSize b)) (\<lambda>data.
       bind (fail_if (int (length data) \<noteq> BSize b) (Errorf ''incorrect block length'' [])) (\<lambda>_.
       bind (fail_if (hashBytes data \<noteq> BHash b) (Errorf ''block hash mismatch'' [])) (\<lambda>_.
       return data)))))))))"

definition client_hello :: "(world, unit) io" where
  "client_hello =
     bind (wire_send hello_message) (\<lambda>_.
     bind wire_read (\<lambda>(msg, _).
     fail_if (MType msg \<noteq> ''hello'' \<or> MVersion msg \<noteq> Version)
       (Errorf ''unsupported peer protocol'' [])))"

definition client_Dial :: "tls_Config option \<Rightarrow> (world, unit) io" where
  "client_Dial tlsConfig =
     bind (lift_sum (validateTLS tlsConfig False)) (\<lambda>_.
     case tlsConfig of
       None \<Rightarrow> throw (Errorf ''TLS configuration is required'' [])
     | Some cfg \<Rightarrow>
         bind net_Dial (\<lambda>_.
         bind (attempt (bind (tls_Handshake (tls_client_verify cfg)) (\<lambda>_. client_operation client_hello))) (\<lambda>res.
         case res of
           Inl err \<Rightarrow> bind Conn_Close (\<lambda>_. throw err)
         | Inr _ \<Rightarrow> return ())))"

end
