(* ===== verification/Frames.thy ===== *)
theory Frames
  imports Transport
begin

text \<open>
  Frames and messages on a connection: what is written is read back, and a valid entry always fits
  a control frame.
\<close>


section \<open>Frames\<close>

lemma byte_of_word: "(of_nat (of_char (char_of (unat w div 256 ^ i) :: char)) :: 32 word) = take_bit 8 (drop_bit (8 * i) w)"
proof -
  have "unat w div 256 ^ i = drop_bit (8 * i) (unat w)"
    by (simp add: drop_bit_eq_div power_mult)
  moreover have "(of_char (char_of (n :: nat)) :: nat) = take_bit 8 n" for n
    by (simp add: take_bit_eq_mod)
  ultimately show ?thesis
    by simp (rule bit_word_eqI, auto simp: bit_simps)
qed

lemma word_of_be_bytes: "word_of_bytes (be_bytes 4 (unat w)) = w"
proof -
  have r: "rev [0..<4] = [3, 2, 1, 0::nat]" by code_simp
  show ?thesis
    unfolding be_bytes_def r
  proof (rule bit_word_eqI)
    fix k assume k: "k < LENGTH(32)"
    consider "k < 8" | "8 \<le> k" "k < 16" | "16 \<le> k" "k < 24" | "24 \<le> k" "k < 32" using k by fastforce
    then show "bit (word_of_bytes (map (\<lambda>i. char_of (unat w div 256 ^ i)) [3, 2, 1, 0])) k = bit w k"
      using byte_of_word [of w 3, simplified] byte_of_word [of w 2, simplified]
        byte_of_word [of w 1, simplified] byte_of_word [of w 0, simplified]
      by cases (auto simp: bit_simps word_of_bytes.simps)
  qed
qed

lemma length_frame_header: "length (frame_header n) = 4"
  by (simp add: frame_header_def be_bytes_def)

lemma word_of_frame_header: "word_of_bytes (frame_header n) = of_nat n"
  by (simp only: frame_header_def word_of_be_bytes)

definition framed :: "bytes \<Rightarrow> bytes" where
  "framed d = frame_header (length d) @ d"

lemma framed_more: "length d < length (framed d)"
  by (simp add: framed_def length_frame_header)

lemma talks_seq:
  "\<lbrakk> talks w m x i out anyhow; talks w (f x) y i' out' P; I = i @ i'; O' = out @ out' \<rbrakk> \<Longrightarrow>
     talks w (bind m f) y I O' P"
  by (simp add: talks_bind)

lemma talks_pass: "talks w (f x) y i out P \<Longrightarrow> (\<And>c. m (w\<lparr>conn := c\<rparr>) = (Inr x, w\<lparr>conn := c\<rparr>)) \<Longrightarrow>
     talks w (bind m f) y i out P"
  by (rule talks_ignore)

lemma talks_guard: "\<not> b \<Longrightarrow> talks w (f ()) y i out P \<Longrightarrow> talks w (bind (fail_if b e) f) y i out P"
  by (rule talks_pass) (simp_all add: run_fail_if)

lemma talks_writeFrame:
  assumes "quiet w" "d \<noteq> []" "int (length d) \<le> limit"
  shows "talks w (writeFrame d limit) () [] (framed d) anyhow"
  unfolding writeFrame_def
  by (rule talks_guard, use assms in simp, rule talks_seq [OF talks_write [OF assms(1)] talks_write [OF assms(1)]])
     (simp_all add: framed_def)

lemma talks_readFrame:
  assumes q: "quiet w" and d: "d \<noteq> []" "int (length d) \<le> limit" "limit < 2 ^ 32"
  shows "talks w (readFrame limit) d (framed d) [] anyhow"
proof -
  let ?h = "frame_header (length d)"
  have n: "length d < 2 ^ 32" using d by simp
  then have u: "unat (of_nat (length d) :: 32 word) = length d" by (simp add: unsigned_of_nat take_bit_nat_eq_self)
  have z: "(of_nat (length d) :: 32 word) \<noteq> 0" 
  proof
    assume "(of_nat (length d) :: 32 word) = 0"
    with u have "length d = 0" by simp
    with d(1) show False by simp
  qed
  have "uint (of_nat (length d) :: 32 word) = int (length d)" using n by (simp add: unsigned_of_nat take_bit_nat_eq_self)
  with d have le: "\<not> uint (of_nat (length d) :: 32 word) > limit mod 2 ^ 64" by simp
  have body: "talks w (io_ReadFull (unat (word_of_bytes ?h))) d d [] anyhow"
    using talks_read [OF q, of d] by (simp only: word_of_frame_header u)
  have rest: "talks w (bind (fail_if (word_of_bytes ?h = 0 \<or> uint (word_of_bytes ?h) > limit mod 2 ^ 64)
      (Errorf ''invalid frame size %d'' [show_nat (unat (word_of_bytes ?h))])) (\<lambda>_. io_ReadFull (unat (word_of_bytes ?h)))) d d [] anyhow"
    by (rule talks_guard [OF _ body]) (use z le in \<open>simp add: word_of_frame_header\<close>)
  have head: "talks w (io_ReadFull 4) ?h ?h [] anyhow"
    using talks_read [OF q, of ?h] by (simp only: length_frame_header)
  show ?thesis
    unfolding readFrame_def framed_def by (rule talks_seq [OF head], rule rest) simp_all
qed

section \<open>Messages\<close>

definition control_ok :: "message \<Rightarrow> bool" where
  "control_ok m \<longleftrightarrow> message_ok m \<and> int (length (marshal_message m)) \<le> maxControl"

abbreviation "told m \<equiv> framed (marshal_message m)"

lemma marshal_nonempty: "marshal_message m \<noteq> []"
  by (simp add: marshal_message_def enc_message_def)

lemma talks_wire_write:
  assumes "quiet w" "control_ok m"
  shows "talks w (wire_write m) (int (length (marshal_message m))) [] (told m) anyhow"
  unfolding wire_write_def
  using assms
  by (intro talks_seq [OF talks_writeFrame talks_return]) (simp_all add: marshal_nonempty control_ok_def)

lemma talks_wire_read:
  assumes "quiet w" "control_ok m"
  shows "talks w wire_read (m, int (length (marshal_message m))) (told m) [] anyhow"
proof -
  have "talks w (readFrame maxControl) (marshal_message m) (told m) [] anyhow"
    using assms by (intro talks_readFrame) (simp_all add: marshal_nonempty control_ok_def, simp add: maxControl_def)
  then show ?thesis
    unfolding wire_read_def
    by (rule talks_seq) (use assms in \<open>simp_all add: control.dec_enc control_ok_def talks_return\<close>)
qed

lemma talks_wire_send:
  assumes "quiet w" "control_ok m"
  shows "talks w (wire_send m) () [] (told m) flushed"
  unfolding wire_send_def
  by (rule talks_seq [OF talks_wire_write [OF assms] talks_flush [OF assms(1)]]) simp_all

section \<open>Sizes\<close>

lemma length_show_nat: "n < 10 ^ k \<Longrightarrow> 0 < k \<Longrightarrow> length (show_nat n) \<le> k"
proof (induction n arbitrary: k rule: show_nat.induct)
  case (1 n)
  show ?case
  proof (cases "n < 10")
    case True
    with 1(3) show ?thesis by (subst show_nat.simps) simp
  next
    case False
    obtain j where k: "k = Suc j" "0 < j"
    proof (cases k)
      case (Suc j)
      with False 1(2) that show ?thesis by (cases j) auto
    qed (use 1(3) in simp)
    have "n div 10 < 10 ^ j" using 1(2) k by (simp add: less_mult_imp_div_less mult.commute)
    from 1(1) [OF False this k(2)] False k show ?thesis by (subst show_nat.simps) simp
  qed
qed

lemma length_show_int: "0 \<le> i \<Longrightarrow> i < 10 ^ k \<Longrightarrow> 0 < k \<Longrightarrow> length (show_int i) \<le> k"
  by (simp add: show_int_def) (rule length_show_nat, simp_all add: nat_less_iff)

lemma json_escape_hex: "\<forall>c \<in> set s. is_hex_digit c \<Longrightarrow> json_escape s = s"
proof (induction s)
  case (Cons c s)
  then have c: "is_hex_digit c" by simp
  then have "json_escape_ascii c = [c]"
    by (auto simp: is_hex_digit_def hex_digits_def json_escape_ascii_def)
  with Cons hex_digit_cases(3) [OF c] show ?case by (simp add: json_escape.simps)
qed simp

lemma length_join_bound: "\<forall>p \<in> set ps. length p \<le> k \<Longrightarrow> length (join_with c ps) \<le> (k + 1) * length ps"
  by (induction ps) (auto simp: join_with_Cons)

lemma json_keys:
  "json_string ''type'' = quote_char # ''type'' @ [quote_char]"
  "json_string ''entry'' = quote_char # ''entry'' @ [quote_char]"
  "json_string ''path'' = quote_char # ''path'' @ [quote_char]"
  "json_string ''kind'' = quote_char # ''kind'' @ [quote_char]"
  "json_string ''size'' = quote_char # ''size'' @ [quote_char]"
  "json_string ''mode'' = quote_char # ''mode'' @ [quote_char]"
  "json_string ''hash'' = quote_char # ''hash'' @ [quote_char]"
  "json_string ''blocks'' = quote_char # ''blocks'' @ [quote_char]"
  "json_string ''offset'' = quote_char # ''offset'' @ [quote_char]"
  "json_string ''file'' = quote_char # ''file'' @ [quote_char]"
  "json_string ''directory'' = quote_char # ''directory'' @ [quote_char]"
  by (simp_all add: json_string_def json_escape.simps json_escape_ascii_def)

lemma length_json_hash: "validHash h \<Longrightarrow> length (json_string h) = 66"
  by (simp add: json_string_def validHash_iff json_escape_hex)

definition small_block :: "Block \<Rightarrow> bool" where
  "small_block b \<longleftrightarrow> 0 \<le> BOffset b \<and> BOffset b < 10 ^ 10 \<and> 0 \<le> BSize b \<and> BSize b < 10 ^ 6 \<and> validHash (BHash b)"

lemma length_enc_block:
  assumes "small_block b"
  shows "length (json_text (enc_block b)) \<le> 109"
proof -
  have "length (show_int (BOffset b)) \<le> 10" "length (show_int (BSize b)) \<le> 6" "length (json_string (BHash b)) = 66"
    using assms by (auto simp: small_block_def length_json_hash intro!: length_show_int)
  then show ?thesis by (simp add: enc_block_def json_keys)
qed

lemma check_layout_small:
  "check_layout esize off bs = Inr () \<Longrightarrow> 0 \<le> off \<Longrightarrow> off \<le> esize \<Longrightarrow> esize \<le> MaxFileSize \<Longrightarrow>
     \<forall>b \<in> set bs. small_block b"
proof (induction bs arbitrary: off)
  case (Cons b bs)
  define k where "k = min BlockSize (esize - off)"
  have b: "BOffset b = off" "BSize b = k" "validHash (BHash b)" "check_layout esize (off + k) bs = Inr ()"
    using Cons.prems(1) by (auto simp: k_def Let_def split: if_splits)
  have k: "0 \<le> k" "off + k \<le> esize" "k \<le> BlockSize" using Cons.prems(2,3) by (auto simp: k_def)
  with Cons.IH [OF b(4)] Cons.prems(2,4) have "\<forall>b \<in> set bs. small_block b" by simp
  moreover have "small_block b"
    using b k Cons.prems by (simp add: small_block_def MaxFileSize_def BlockSize_def)
  ultimately show ?case by simp
qed simp

lemma length_enc_entry:
  assumes "valid_entry e"
  shows "length (json_Marshal e) \<le> 3630000"
proof -
  have path: "validPath (EPath e) = Inr ()" and mode: "EMode e AND NOT 511 = 0"
    using assms by (auto simp: valid_entry_def ValidateEntry_def split: sum.splits if_splits)
  have p: "length (json_string (EPath e)) \<le> 24578"
    using length_json_escape [of "EPath e"] validPath_facts(2) [OF path] by (simp add: json_string_def)
  have m: "length (show_nat (unat (EMode e))) \<le> 10"
    using unsigned_less [of "EMode e", where 'a = nat] by (intro length_show_nat) simp_all
  show ?thesis
  proof (cases "EKind e = ''directory''")
    case True
    with assms have d: "ESize e = 0" "EHash e = []" "EBlocks e = []"
      by (auto simp: valid_entry_def ValidateEntry_def split: sum.splits if_splits)
    have "length (show_int 0) \<le> 1" by (rule length_show_int) simp_all
    with True d p m show ?thesis
      by (simp add: json_Marshal_def enc_entry_def json_keys json_string_def [of "[]"])
  next
    case False
    with assms have f: "EKind e = ''file''" "0 \<le> ESize e" "ESize e \<le> MaxFileSize" "validHash (EHash e)"
      "int (length (EBlocks e)) = (ESize e + BlockSize - 1) div BlockSize"
      "check_layout (ESize e) 0 (EBlocks e) = Inr ()"
      by (auto simp: valid_entry_def ValidateEntry_def split: sum.splits if_splits)
    have n: "length (EBlocks e) \<le> 32768"
    proof -
      have "(ESize e + BlockSize - 1) div BlockSize \<le> (32768 * BlockSize + BlockSize - 1) div BlockSize"
        using f(3) by (intro zdiv_mono1) (simp_all add: MaxFileSize_def BlockSize_def)
      with f(5) show ?thesis by (simp add: BlockSize_def)
    qed
    have "\<forall>b \<in> set (EBlocks e). small_block b" using check_layout_small [OF f(6)] f(2,3) by simp
    then have "\<forall>t \<in> set (map (json_text \<circ> enc_block) (EBlocks e)). length t \<le> 109"
      by (auto intro: length_enc_block)
    from length_join_bound [OF this, of "CHR '',''"] n
    have bs: "length (join_with (CHR '','') (map (json_text \<circ> enc_block) (EBlocks e))) \<le> 3604480" by simp
    have s: "length (show_int (ESize e)) \<le> 10" using f(2,3) by (intro length_show_int) (simp_all add: MaxFileSize_def)
    show ?thesis
      using p m s bs f(1) length_json_hash [OF f(4)]
      by (simp add: json_Marshal_def enc_entry_def json_keys)
  qed
qed

end
