(* ===== verification/Demo.thy ===== *)
theory Demo
  imports Catalog
begin

text \<open>A concrete machine on which the witnesses of the store's theorems are evaluated.\<close>

section \<open>A small machine\<close>

text \<open>One folder \<open>f\<close> at \<open>/r\<close> with its marker and one file \<open>a\<close>.\<close>

definition demo_fs :: fsys where
  "demo_fs = \<lparr>mounts = [''/r'' \<mapsto> 0],
     trees = (\<lambda>_. Dir 448 [(markerName, File 0), (''a'', File 1)]),
     inodes = (\<lambda>i. if i = 0 then \<lparr>idata = ''f'' @ [CHR 0x0A], imode = 384, imtime = 0\<rparr>
                   else \<lparr>idata = ''old'', imode = 420, imtime = 1\<rparr>),
     next_inode = 2, next_tree = 1, clock = 2, umask = 18\<rparr>"

definition demo_world :: world where
  "demo_world = \<lparr>wfs = demo_fs, wdb = empty_database, ctx_done = False, pending = [],
     nonces = [replicate 16 (CHR 0x41)], stats = zero_stats,
     conn = \<lparr>rx = [], wbuf = [], tx = [], shut = False, peer_chain = []\<rparr>, dials = []\<rparr>"

lemma demo_calm: "calm demo_world" "quiet demo_world" "mounts (wfs demo_world) ''/r'' = Some 0"
  by (simp_all add: demo_world_def calm_def quiet_def demo_fs_def)

lemma demo_wf: "fs_wf (wfs demo_world)"
  by (simp add: demo_world_def demo_fs_def fs_wf_def)

lemma demo_valid: "validPath ''a'' = Inr ()" "validPath ''b'' = Inr ()"
  by (simp_all add: validPath_def fs_ValidPath_def reserved_part_def markerName_def tempPrefix_def
      has_prefix_def contains_any_def valid_utf8_ascii)

lemma demo_fingerprint:
  "fingerprint 0 ''a'' demo_world = (Inr (entry_of ''a'' 420 ''old''), demo_world)"
proof -
  have a: "lookup_node (trees (wfs demo_world) 0) [''a''] = Inr (File 1)"
    "inodes (wfs demo_world) 1 = \<lparr>idata = ''old'', imode = 420, imtime = 1\<rparr>"
    by (simp_all add: demo_world_def demo_fs_def markerName_def)
  have rb: "read_blocks (HFile 1) 3 0 [] [] demo_world =
      (Inr (''old'', [\<lparr>BOffset = 0, BSize = 3, BHash = hashBytes ''old''\<rparr>]), demo_world)"
    using demo_calm(2) a(2)
    by (simp add: read_blocks.simps run_simps ctx_Err_quiet sys_quiet fs_read_at_def BlockSize_def)
  have e: "entry_of ''a'' 420 ''old'' = \<lparr>EPath = ''a'', EKind = ''file'', ESize = 3, EMode = 420,
      EHash = hashBytes ''old'', EBlocks = [\<lparr>BOffset = 0, BSize = 3, BHash = hashBytes ''old''\<rparr>]\<rparr>"
    by (simp add: entry_of_def blocks_from.simps BlockSize_def)
  show ?thesis
    using demo_calm(2) demo_valid(1) a rb
    by (simp add: fingerprint_def checkComponents_def run_simps sys_quiet components_def fs_lstat_def
        fs_open_def fs_fstat_def node_info_def handle_info_def ino_info_def MaxFileSize_def e)
qed

lemma demo_content: "content (wfs demo_world) 0 (components ''a'') = Some ''old''"
    "content (wfs demo_world) 0 (components ''b'') = None"
  by (simp_all add: content_def file_ino_def demo_world_def demo_fs_def components_def markerName_def)

text \<open>An announced empty file \<open>a\<close> whose hash is not the one of the bytes on the disk.\<close>

definition demo_remote :: "string \<Rightarrow> Entry" where
  "demo_remote name = \<lparr>EPath = name, EKind = ''file'', ESize = 0, EMode = 420,
     EHash = (if hashBytes ''old'' = replicate 64 (CHR ''0'') then replicate 64 (CHR ''1'') else replicate 64 (CHR ''0'')),
     EBlocks = []\<rparr>"

lemma demo_remote_valid: "validPath name = Inr () \<Longrightarrow> valid_entry (demo_remote name)"
proof -
  have "validHash (replicate 64 (CHR ''0''))" "validHash (replicate 64 (CHR ''1''))" by code_simp+
  then show "validPath name = Inr () \<Longrightarrow> valid_entry (demo_remote name)"
    by (simp add: valid_entry_def ValidateEntry_def demo_remote_def BlockSize_def MaxFileSize_def)
qed

lemma demo_remote_hash: "hashBytes ''old'' \<noteq> EHash (demo_remote name)"
proof -
  have "replicate 64 (CHR ''0'') \<noteq> replicate 64 (CHR ''1'')" by code_simp
  then show ?thesis by (simp add: demo_remote_def)
qed

lemma demo_remote_fields: "EPath (demo_remote name) = name" "EKind (demo_remote name) = ''file''"
  by (simp_all add: demo_remote_def)

definition demo_indexed :: world where
  "demo_indexed = demo_world\<lparr>wdb := empty_database\<lparr>entries_tbl := [((''f'', ''b''), ''?'')]\<rparr>\<rparr>"

end
