(* ===== verification/Conversation.thy ===== *)
theory Conversation
  imports Frames Demo
begin

text \<open>
  Client and server of \<^verbatim>\<open>internal/transport/transport.go\<close> from end to end: what one writes is what the
  other reads, for a listing and for a block.
\<close>

section \<open>Listings\<close>

definition entry_cost :: "Entry \<Rightarrow> int" where
  "entry_cost e = int (length (marshal_message (entry_message e)))"

definition listing_cost :: "Entry list \<Rightarrow> int" where
  "listing_cost es = (\<Sum>e\<leftarrow>es. entry_cost e)"

abbreviation "entries_told es \<equiv> concat (map (\<lambda>e. told (entry_message e)) es)"

lemma listing_cost_simps [simp]:
  "listing_cost [] = 0" "listing_cost (e # es) = entry_cost e + listing_cost es"
  "listing_cost (es @ fs) = listing_cost es + listing_cost fs"
  by (simp_all add: listing_cost_def)

lemma listing_cost_nonneg: "0 \<le> entry_cost e" "0 \<le> listing_cost es"
  by (simp add: entry_cost_def) (induction es; simp add: entry_cost_def)

lemma message_ok_simple:
  "message_ok hello_message" "message_ok error_message" "message_ok end_message" "message_ok data_message"
  by (simp_all add: message_ok_def hello_message_def error_message_def zero_message_def valid_utf8_ascii
      Version_def int64_range_def)

lemma control_ok_entry:
  assumes "ValidateEntry e = Inr ()"
  shows "control_ok (entry_message e)"
  using length_enc_entry [of e] valid_text [of e] assms
  by (simp add: control_ok_def message_ok_def valid_utf8_ascii int64_range_def valid_entry_def marshal_message_def
      entry_message_def enc_message_def zero_message_def omit_string_def omit_int_def omit_nil_def json_keys
      maxControl_def json_Marshal_def)

lemma small_messages:
  "length (marshal_message hello_message) \<le> 200" "length (marshal_message error_message) \<le> 200"
  "length (marshal_message end_message) \<le> 200" "length (marshal_message data_message) \<le> 200"
  using length_json_escape [of "''hello''"] length_json_escape [of "''error''"] length_json_escape [of "''end''"]
    length_json_escape [of "''block''"] length_json_escape [of "''request rejected''"] length_json_escape [of "''version''"]
    length_show_int [of 1 1]
  by (simp_all add: marshal_message_def enc_message_def hello_message_def error_message_def zero_message_def
      omit_string_def omit_int_def omit_nil_def json_keys Version_def, simp_all add: json_string_def)

lemma control_ok_simple:
  "control_ok hello_message" "control_ok error_message" "control_ok end_message" "control_ok data_message"
  using small_messages by (simp_all add: control_ok_def message_ok_simple maxControl_def)

lemma talks_send_entries:
  assumes "quiet w" "\<forall>e \<in> set es. ValidateEntry e = Inr ()" "spent + listing_cost es \<le> maxIndexBytes"
  shows "talks w (send_entries es spent) () [] (entries_told es) anyhow"
  using assms(2,3)
proof (induction es arbitrary: spent)
  case Nil
  show ?case by (simp only: send_entries.simps list.map concat.simps talks_return)
next
  case (Cons e es)
  have ok: "control_ok (entry_message e)" using Cons.prems by (intro control_ok_entry) simp
  have le: "spent + int (length (marshal_message (entry_message e))) \<le> maxIndexBytes"
    using Cons.prems listing_cost_nonneg(2) [of es] by (simp add: entry_cost_def)
  have rest: "talks w (send_entries es (spent + entry_cost e)) () [] (entries_told es) anyhow"
    using Cons by simp
  have "talks w (bind (wire_write (entry_message e)) (\<lambda>n.
     bind (fail_if (spent + n > maxIndexBytes) (Errorf ''index metadata limit exceeded'' [])) (\<lambda>_.
     send_entries es (spent + n)))) () [] (entries_told (e # es)) anyhow"
    by (rule talks_seq [OF talks_wire_write [OF assms(1) ok]], rule talks_guard)
       (use le rest in \<open>simp_all add: entry_cost_def\<close>)
  then show ?case
    unfolding send_entries.simps
    by (rule talks_pass [where x = "()"]) (simp add: ctx_Err_quiet assms(1))
qed

lemma talks_list_loop:
  assumes "quiet w" "\<forall>e \<in> set es. ValidateEntry e = Inr ()" "length es < k"
    "int (length acc + length es) \<le> maxEntries"
    "spent + listing_cost es + int (length (marshal_message end_message)) \<le> maxIndexBytes"
  shows "talks w (list_loop k acc spent) (acc @ es) (entries_told es @ told end_message) [] anyhow"
  using assms(2-)
proof (induction es arbitrary: k acc spent)
  case Nil
  then obtain j where k: "k = Suc j" by (cases k) auto
  have d: "end_message = zero_message\<lparr>MType := ''end''\<rparr>" by simp
  show ?case
    unfolding k list_loop.simps
    by (rule talks_seq [OF talks_wire_read [OF assms(1) control_ok_simple(3)]], unfold prod.case, rule talks_guard)
       (use Nil.prems talks_return [of w acc] in simp_all)
next
  case (Cons e es)
  then obtain j where k: "k = Suc j" by (cases k) auto
  have ok: "control_ok (entry_message e)" using Cons.prems by (intro control_ok_entry) simp
  have le: "spent + int (length (marshal_message (entry_message e))) \<le> maxIndexBytes"
    using Cons.prems listing_cost_nonneg(2) [of es] by (simp add: entry_cost_def)
  have rest: "talks w (list_loop j (acc @ [e]) (spent + int (length (marshal_message (entry_message e)))))
      ((acc @ [e]) @ es) (entries_told es @ told end_message) [] anyhow"
    using Cons.prems k by (intro Cons.IH) (simp_all add: entry_cost_def)
  have m: "MType (entry_message e) = ''entry''" "MEntry (entry_message e) = Some e"
    by (simp_all add: entry_message_def)
  show ?case
    unfolding k list_loop.simps
    by (rule talks_seq [OF talks_wire_read [OF assms(1) ok]], unfold prod.case, rule talks_guard)
       (use le m rest Cons.prems in simp_all)
qed

lemma talks_operation:
  assumes "quiet w" "talks w fn x i out P"
  shows "talks w (client_operation fn) x i out P"
proof (rule talksI)
  fix c :: wire and rest assume c: "\<not> shut c" "rx c = i @ rest"
  from talksE [OF assms(2) c] obtain c' where c':
    "fn (w\<lparr>conn := c\<rparr>) = (Inr x, w\<lparr>conn := c'\<rparr>)" "rx c' = rest"
    "tx c' @ wbuf c' = tx c @ wbuf c @ out" "\<not> shut c'" "P c'" .
  then have "client_operation fn (w\<lparr>conn := c\<rparr>) = (Inr x, w\<lparr>conn := c'\<rparr>)"
    using assms(1) c(1) by (simp add: client_operation_def run_bind run_attempt net_quiet ctx_Err_quiet)
  with c' show "\<exists>c'. client_operation fn (w\<lparr>conn := c\<rparr>) = (Inr x, w\<lparr>conn := c'\<rparr>) \<and> rx c' = rest
      \<and> tx c' @ wbuf c' = tx c @ wbuf c @ out \<and> \<not> shut c' \<and> P c'" by blast
qed

lemma framed_length_concat: "length es \<le> length (entries_told es)"
  by (induction es) (simp_all add: framed_def length_frame_header)

lemma talks_listing:
  assumes "quiet w" "\<forall>e \<in> set es. ValidateEntry e = Inr ()" "int (length es) \<le> maxEntries"
    "listing_cost es + int (length (marshal_message end_message)) \<le> maxIndexBytes"
  shows "talks w (bind get_state (\<lambda>w. list_loop (Suc (length (rx (conn w)))) [] 0)) es
    (entries_told es @ told end_message) [] anyhow"
proof (rule talksI)
  fix c :: wire and rest assume c: "\<not> shut c" "rx c = (entries_told es @ told end_message) @ rest"
  have "length es < Suc (length (rx c))" using framed_length_concat [of es] c(2) by simp
  from talks_list_loop [OF assms(1,2) this, of "[]" 0] assms(3,4)
  have "talks w (list_loop (Suc (length (rx c))) [] 0) es (entries_told es @ told end_message) [] anyhow" by simp
  from talksE [OF this c] obtain c' where "list_loop (Suc (length (rx c))) [] 0 (w\<lparr>conn := c\<rparr>) = (Inr es, w\<lparr>conn := c'\<rparr>)"
    "rx c' = rest" "tx c' @ wbuf c' = tx c @ wbuf c @ []" "\<not> shut c'" .
  then show "\<exists>c'. bind get_state (\<lambda>w. list_loop (Suc (length (rx (conn w)))) [] 0) (w\<lparr>conn := c\<rparr>) = (Inr es, w\<lparr>conn := c'\<rparr>)
      \<and> rx c' = rest \<and> tx c' @ wbuf c' = tx c @ wbuf c @ [] \<and> \<not> shut c' \<and> anyhow c'"
    by (simp add: run_bind del: list_loop.simps)
qed

section \<open>Reading leaves the output alone\<close>

definition keeps_out :: "world \<Rightarrow> world \<Rightarrow> bool" where
  "keeps_out w w' \<longleftrightarrow> (wbuf (conn w'), tx (conn w')) = (wbuf (conn w), tx (conn w))"

lemma within_net_out: "(\<And>c. wbuf (snd (f c)) = wbuf c \<and> tx (snd (f c)) = tx c) \<Longrightarrow> within keeps_out (net f)"
proof -
  assume f: "\<And>c. wbuf (snd (f c)) = wbuf c \<and> tx (snd (f c)) = tx c"
  have "keeps_out w (snd (net f w))" for w
  proof -
    obtain e w1 where t: "tick w = (e, w1)" by fastforce
    show ?thesis using t f [of "conn w1"] by (auto simp: net_def keeps_out_def split: option.split prod.split)
  qed
  then show ?thesis by (simp only: within_def) blast
qed

lemma preorder_keeps_out [simp, intro]: "preorder_rel keeps_out"
  unfolding keeps_out_def by (rule preorder_rel_frame [where f = "\<lambda>w. (wbuf (conn w), tx (conn w))"])

lemma readFrame_keeps_out: "within keeps_out (readFrame limit)"
  unfolding readFrame_def by (intro within_intros within_net_out preorder_keeps_out) (auto simp: wire_take_def)

lemma wire_read_keeps_out: "within keeps_out wire_read"
  unfolding wire_read_def by (intro within_intros readFrame_keeps_out preorder_keeps_out)

lemma list_loop_keeps_out: "within keeps_out (list_loop k acc spent)"
proof (induction k arbitrary: acc spent)
  case 0
  show ?case unfolding list_loop.simps by (intro within_intros preorder_keeps_out)
next
  case (Suc k)
  show ?case unfolding list_loop.simps by (intro within_intros wire_read_keeps_out preorder_keeps_out Suc)
qed

lemma talks_then_read:
  assumes m: "talks w m x i out flushed" and f: "talks w (f x) y i' [] anyhow" "within keeps_out (f x)"
  shows "talks w (bind m f) y (i @ i') out flushed"
proof (rule talksI)
  fix c :: wire and rest assume c: "\<not> shut c" "rx c = (i @ i') @ rest"
  then have "rx c = i @ (i' @ rest)" by simp
  from talksE [OF m c(1) this] obtain c1 where c1:
    "m (w\<lparr>conn := c\<rparr>) = (Inr x, w\<lparr>conn := c1\<rparr>)" "rx c1 = i' @ rest"
    "tx c1 @ wbuf c1 = tx c @ wbuf c @ out" "\<not> shut c1" "flushed c1" .
  from talksE [OF f(1) c1(4,2)] obtain c2 where c2:
    "f x (w\<lparr>conn := c1\<rparr>) = (Inr y, w\<lparr>conn := c2\<rparr>)" "rx c2 = rest" "\<not> shut c2" .
  from withinD [OF f(2) c2(1)] have "wbuf c2 = wbuf c1" "tx c2 = tx c1" by (simp_all add: keeps_out_def)
  with c1 c2 show "\<exists>c'. bind m f (w\<lparr>conn := c\<rparr>) = (Inr y, w\<lparr>conn := c'\<rparr>) \<and> rx c' = rest
      \<and> tx c' @ wbuf c' = tx c @ wbuf c @ out \<and> \<not> shut c' \<and> flushed c'"
    by (auto simp: bind_def)
qed

section \<open>A listing from end to end\<close>

text \<open>One round of the server.\<close>

definition serve_one :: "Backend \<Rightarrow> string \<Rightarrow> (world, unit) io" where
  "serve_one backend peerID = bind wire_read (\<lambda>(request, _). handleRequest backend peerID request)"

lemma control_ok_list:
  assumes "valid_utf8 folder" "length folder \<le> 256"
  shows "control_ok (list_message folder)"
  using assms length_json_escape [of folder] length_json_escape [of "''list''"] length_json_escape [of "''folder''"]
    length_json_escape [of "''type''"]
  by (simp add: control_ok_def message_ok_def list_message_def zero_message_def valid_utf8_ascii int64_range_def
      marshal_message_def enc_message_def omit_string_def omit_int_def omit_nil_def json_keys maxControl_def json_string_def)

lemma talks_client_List:
  assumes "quiet w" "\<forall>e \<in> set es. ValidateEntry e = Inr ()" "int (length es) \<le> maxEntries"
    "listing_cost es + int (length (marshal_message end_message)) \<le> maxIndexBytes"
    "valid_utf8 folder" "length folder \<le> 256"
  shows "talks w (client_List folder) es (entries_told es @ told end_message) (told (list_message folder)) flushed"
  unfolding client_List_def
  by (rule talks_operation [OF assms(1)], rule talks_then_read [where i = "[]", simplified],
      rule talks_wire_send [OF assms(1) control_ok_list [OF assms(5,6)]], rule talks_listing [OF assms(1-4)])
     (intro within_intros list_loop_keeps_out preorder_keeps_out)

lemma talks_handle_list:
  assumes "quiet w" "\<forall>e \<in> set es. ValidateEntry e = Inr ()" "int (length es) \<le> maxEntries"
    "listing_cost es \<le> maxIndexBytes"
    "\<And>c. backend_List backend peer folder (w\<lparr>conn := c\<rparr>) = (Inr es, w\<lparr>conn := c\<rparr>)"
    "folder \<noteq> []" "length folder \<le> 256"
  shows "talks w (handleRequest backend peer (list_message folder)) () [] (entries_told es @ told end_message) flushed"
proof -
  have t: "MType (list_message folder) = ''list''" "MFolder (list_message folder) = folder" "MPath (list_message folder) = []"
    by (simp_all add: list_message_def zero_message_def)
  have send: "talks w (bind (send_entries es 0) (\<lambda>_. wire_send end_message)) () [] (entries_told es @ told end_message) flushed"
    by (rule talks_seq [OF talks_send_entries [OF assms(1,2)]], simp add: assms(4),
        rule talks_wire_send [OF assms(1) control_ok_simple(3)]) simp_all
  have h: "talks w (handle_list backend peer (list_message folder)) () [] (entries_told es @ told end_message) flushed"
    unfolding handle_list_def
    by (rule talks_pass [where x = "Inr es"]) (use assms(3) t send in \<open>simp_all add: run_attempt assms(5)\<close>)
  show ?thesis
    unfolding handleRequest_def by (rule talks_guard) (use assms(6,7) t h in simp_all)
qed

lemma talks_serve_list:
  assumes "quiet w" "\<forall>e \<in> set es. ValidateEntry e = Inr ()" "int (length es) \<le> maxEntries"
    "listing_cost es \<le> maxIndexBytes"
    "\<And>c. backend_List backend peer folder (w\<lparr>conn := c\<rparr>) = (Inr es, w\<lparr>conn := c\<rparr>)"
    "valid_utf8 folder" "folder \<noteq> []" "length folder \<le> 256"
  shows "talks w (serve_one backend peer) () (told (list_message folder)) (entries_told es @ told end_message) flushed"
  unfolding serve_one_def
  by (rule talks_seq [OF talks_wire_read [OF assms(1) control_ok_list [OF assms(6,8)]]], unfold prod.case,
      rule talks_handle_list [OF assms(1-5,7,8)]) simp_all

text \<open>C15. Client and server agree on a listing: for entries the index accepts, few enough and small
  enough for the wire budgets, there are a request and a response such that the client returns
  exactly the entries of the backend when it gets that response, and the server produces that
  response from that request.\<close>

theorem list_end_to_end:
  assumes "quiet wc" "quiet ws" "\<forall>e \<in> set es. ValidateEntry e = Inr ()" "int (length es) \<le> maxEntries"
    "listing_cost es + int (length (marshal_message end_message)) \<le> maxIndexBytes"
    "\<And>c. backend_List backend peer folder (ws\<lparr>conn := c\<rparr>) = (Inr es, ws\<lparr>conn := c\<rparr>)"
    "valid_utf8 folder" "folder \<noteq> []" "length folder \<le> 256"
  shows "\<exists>request response. talks wc (client_List folder) es response request flushed
     \<and> talks ws (serve_one backend peer) () request response flushed"
proof (intro exI conjI)
  show "talks wc (client_List folder) es (entries_told es @ told end_message) (told (list_message folder)) flushed"
    by (rule talks_client_List) (use assms in simp_all)
  show "talks ws (serve_one backend peer) () (told (list_message folder)) (entries_told es @ told end_message) flushed"
    by (rule talks_serve_list) (use assms in simp_all)
qed

section \<open>A block from end to end\<close>

definition block_request_ok :: "string \<Rightarrow> string \<Rightarrow> string \<Rightarrow> Block \<Rightarrow> bool" where
  "block_request_ok folder name h b \<longleftrightarrow>
     folder \<noteq> [] \<and> length folder \<le> 256 \<and> valid_utf8 folder \<and> length name \<le> 4096 \<and> valid_utf8 name
     \<and> validHash h \<and> validHash (BHash b) \<and> 0 < BSize b \<and> BSize b \<le> BlockSize \<and> 0 \<le> BOffset b \<and> BOffset b < 10 ^ 10"

lemma control_ok_block:
  assumes "block_request_ok folder name h b"
  shows "control_ok (block_message folder name h b)"
proof -
  have sm: "small_block b" using assms by (simp add: block_request_ok_def small_block_def BlockSize_def)
  have bt: "block_text_ok b"
    using assms by (simp add: block_request_ok_def block_text_ok_def validHash_utf8 int64_range_def BlockSize_def)
  have "length (json_string folder) \<le> 1538" "length (json_string name) \<le> 24578"
    using assms length_json_escape [of folder] length_json_escape [of name]
    by (simp_all add: block_request_ok_def json_string_def)
  moreover have "length (json_string ''folder'') \<le> 38" "length (json_string ''block'') \<le> 32"
    using length_json_escape [of "''folder''"] length_json_escape [of "''block''"] by (simp_all add: json_string_def)
  ultimately have "length (marshal_message (block_message folder name h b)) \<le> 30000"
    using length_enc_block [OF sm] length_json_hash [of h] assms
    by (simp add: block_request_ok_def marshal_message_def block_message_def enc_message_def zero_message_def
        omit_string_def omit_int_def omit_nil_def json_keys)
  with assms bt show ?thesis
    by (simp add: control_ok_def block_request_ok_def message_ok_def block_message_def zero_message_def maxControl_def
        valid_utf8_ascii int64_range_def validHash_utf8)
qed

lemma block_message_fields:
  "MType (block_message f n h b) = ''block''" "MFolder (block_message f n h b) = f" "MPath (block_message f n h b) = n"
  "MHash (block_message f n h b) = h" "MBlock (block_message f n h b) = Some b"
  by (simp_all add: block_message_def)

abbreviation "block_told d \<equiv> told data_message @ framed d"

lemma talks_client_block:
  assumes "quiet w" "block_request_ok folder name h b" "piece_ok b data"
  shows "talks w (client_ReadBlock folder name h b) data (block_told data) (told (block_message folder name h b)) flushed"
proof -
  have d: "int (length data) = BSize b" "hashBytes data = BHash b" using assms(3) by (simp_all add: piece_ok_def)
  have r: "0 < BSize b" "BSize b \<le> BlockSize" "0 \<le> BOffset b"
    using assms(2) by (simp_all add: block_request_ok_def)
  have ne: "data \<noteq> []" using d(1) r(1) by auto
  have frame: "talks w (readFrame (BSize b)) data (framed data) [] anyhow"
    using d r by (intro talks_readFrame [OF assms(1) ne]) (simp_all add: BlockSize_def)
  have reply: "talks w (bind wire_read (\<lambda>(msg, _).
       bind (fail_if (MType msg = ''error'') (Errorf ''peer rejected block request'' [])) (\<lambda>_.
       bind (fail_if (MType msg \<noteq> ''block'') (Errorf ''unexpected block response'' [])) (\<lambda>_.
       bind (readFrame (BSize b)) (\<lambda>data.
       bind (fail_if (int (length data) \<noteq> BSize b) (Errorf ''incorrect block length'' [])) (\<lambda>_.
       bind (fail_if (hashBytes data \<noteq> BHash b) (Errorf ''block hash mismatch'' [])) (\<lambda>_.
       return data))))))) data (block_told data) [] anyhow"
    by (rule talks_seq [OF talks_wire_read [OF assms(1) control_ok_simple(4)]], unfold prod.case,
        rule talks_guard, simp, rule talks_guard, simp, rule talks_seq [OF frame], rule talks_guard, use d in simp,
        rule talks_guard, use d in simp, rule talks_return) simp_all
  show ?thesis
    unfolding client_ReadBlock_def
    by (rule talks_guard, use r in simp, rule talks_operation [OF assms(1)],
        rule talks_then_read [where i = "[]", simplified], rule talks_wire_send [OF assms(1) control_ok_block [OF assms(2)]],
        rule reply)
       (intro within_intros wire_read_keeps_out readFrame_keeps_out preorder_keeps_out)
qed

lemma talks_handle_block:
  assumes "quiet w" "block_request_ok folder name h b" "piece_ok b data"
    "\<And>c. backend_ReadBlock backend peer folder name h b (w\<lparr>conn := c\<rparr>) = (Inr data, w\<lparr>conn := c\<rparr>)"
  shows "talks w (handleRequest backend peer (block_message folder name h b)) () [] (block_told data) flushed"
proof -
  have d: "int (length data) = BSize b" using assms(3) by (simp add: piece_ok_def)
  have r: "0 < BSize b" "BSize b \<le> BlockSize" "0 \<le> BOffset b" "validHash h" "validHash (BHash b)"
    using assms(2) by (simp_all add: block_request_ok_def)
  have ne: "data \<noteq> []" using d r(1) by auto
  have send: "talks w (bind (wire_write data_message) (\<lambda>_. bind (writeFrame data BlockSize) (\<lambda>_. Writer_Flush))) () []
      (block_told data) flushed"
    by (rule talks_seq [OF talks_wire_write [OF assms(1) control_ok_simple(4)]],
        rule talks_seq [OF talks_writeFrame [OF assms(1) ne]], use d r in simp, rule talks_flush [OF assms(1)]) simp_all
  have "talks w (handle_block backend peer (block_message folder name h b)) () [] (block_told data) flushed"
    unfolding handle_block_def block_message_fields option.case
    by (rule talks_guard, use r in \<open>simp add: invalid_block_request_def block_message_fields validHash_iff\<close>,
        rule talks_pass [where x = "Inr data"])
       (use send d in \<open>simp_all add: run_attempt assms(4)\<close>)
  then show ?thesis
    unfolding handleRequest_def
    by (intro talks_guard) (use assms(2) in \<open>simp_all add: block_message_fields block_request_ok_def\<close>)
qed

lemma talks_serve_block:
  assumes "quiet w" "block_request_ok folder name h b" "piece_ok b data"
    "\<And>c. backend_ReadBlock backend peer folder name h b (w\<lparr>conn := c\<rparr>) = (Inr data, w\<lparr>conn := c\<rparr>)"
  shows "talks w (serve_one backend peer) () (told (block_message folder name h b)) (block_told data) flushed"
  unfolding serve_one_def
  by (rule talks_seq [OF talks_wire_read [OF assms(1) control_ok_block [OF assms(2)]]], unfold prod.case,
      rule talks_handle_block [OF assms]) simp_all

text \<open>C16. Client and server agree on a block: for a well-formed request whose backend answer has the
  announced size and hash, the request the client sends is answered by the server with the response
  that makes the client return exactly those bytes.\<close>

theorem block_end_to_end:
  assumes "quiet wc" "quiet ws" "block_request_ok folder name h b" "piece_ok b data"
    "\<And>c. backend_ReadBlock backend peer folder name h b (ws\<lparr>conn := c\<rparr>) = (Inr data, ws\<lparr>conn := c\<rparr>)"
  shows "\<exists>request response. talks wc (client_ReadBlock folder name h b) data response request flushed
     \<and> talks ws (serve_one backend peer) () request response flushed"
  using talks_client_block [OF assms(1,3,4)] talks_serve_block [OF assms(2-5)] by blast

section \<open>A concrete conversation\<close>

definition demo_entry :: Entry where
  "demo_entry = entry_of ''a'' 420 ''old''"

lemma demo_entry_valid: "ValidateEntry demo_entry = Inr ()"
  unfolding demo_entry_def by (rule ValidateEntry_entry_of) (simp_all add: demo_valid MaxFileSize_def)

definition demo_block :: Block where
  "demo_block = \<lparr>BOffset = 0, BSize = 3, BHash = hashBytes ''old''\<rparr>"

definition demo_backend :: Backend where
  "demo_backend = \<lparr>backend_List = (\<lambda>_ _. return [demo_entry]), backend_ReadBlock = (\<lambda>_ _ _ _ _. return ''old'')\<rparr>"

text \<open>C21. Every entry the index can hold fits into one control frame: its message in JSON has at most 4
  MiB.\<close>

theorem entry_fits_frame:
  assumes "ValidateEntry e = Inr ()"
  shows "int (length (marshal_message (entry_message e))) \<le> maxControl"
  using length_enc_entry [of e] assms
  by (simp add: valid_entry_def marshal_message_def entry_message_def enc_message_def zero_message_def
      omit_string_def omit_int_def omit_nil_def json_keys maxControl_def json_Marshal_def)

theorem entry_fits_frame_witness:
  "int (length (marshal_message (entry_message demo_entry))) \<le> maxControl"
  by (rule entry_fits_frame [OF demo_entry_valid])

theorem list_end_to_end_witness:
  "\<exists>request response. talks demo_world (client_List ''f'') [demo_entry] response request flushed
     \<and> talks demo_world (serve_one demo_backend ''p'') () request response flushed"
proof (rule list_end_to_end [OF demo_calm(2) demo_calm(2)])
  have "int (length (marshal_message (entry_message demo_entry))) \<le> maxControl"
    using control_ok_entry [OF demo_entry_valid] by (simp add: control_ok_def)
  then show "listing_cost [demo_entry] + int (length (marshal_message end_message)) \<le> maxIndexBytes"
    using small_messages(3) by (simp add: entry_cost_def maxControl_def maxIndexBytes_def)
qed (simp_all add: demo_entry_valid maxEntries_def demo_backend_def valid_utf8_ascii)

theorem block_end_to_end_witness:
  "\<exists>request response. talks demo_world (client_ReadBlock ''f'' ''a'' (hashBytes ''old'') demo_block) ''old'' response request flushed
     \<and> talks demo_world (serve_one demo_backend ''p'') () request response flushed"
  by (rule block_end_to_end [OF demo_calm(2) demo_calm(2)])
     (simp_all add: block_request_ok_def demo_block_def piece_ok_def demo_backend_def valid_utf8_ascii BlockSize_def)

end
