(* ===== verification/Apply.thy ===== *)
theory Apply
  imports Store
begin

text \<open>
  \<^verbatim>\<open>internal/store/apply.go\<close>: \<open>Apply\<close> installs one entry received from a peer. The Go function is
  one body; here its parts are named: the directory branch, the same-content branch, the download
  loop and the final checks with the rename. \<open>fetch\<close> is the caller's block fetcher (\<open>None\<close> is
  \<open>nil\<close>); it is a step of the world, so anything may happen to the file system while it runs. The
  mutex makes \<open>Apply\<close> and \<open>Scan\<close> of one store exclude each other.
\<close>

type_synonym FetchBlock = "Block \<Rightarrow> (world, bytes) io"

text \<open>A missing path that is still indexed was deleted locally.\<close>

definition check_not_indexed :: "string \<Rightarrow> string \<Rightarrow> (world, unit) io" where
  "check_not_indexed folderID name =
     bind (attempt (store_get folderID name)) (\<lambda>res.
     case res of
       Inr _ \<Rightarrow> throw (LocallyDeleted name)
     | Inl err \<Rightarrow> (if \<not> errors_Is err NoRows then throw err else return ()))"

definition apply_directory :: "nat \<Rightarrow> string \<Rightarrow> Entry \<Rightarrow> FileInfo option \<Rightarrow> (world, unit) io" where
  "apply_directory r folderID e info =
     bind (do_if (info = None) (check_not_indexed folderID (EPath e))) (\<lambda>_.
     bind (fail_if (case info of None \<Rightarrow> False | Some i \<Rightarrow> fi_type i \<noteq> Directory)
             (LocalChange (EPath e))) (\<lambda>_.
     bind (ensureParents r (EPath e)) (\<lambda>_.
     bind (do_if (info = None)
             (bind (Root_Mkdir r (components (EPath e)) (EMode e OR 448)) (\<lambda>_.
              syncDir r (path_Dir (EPath e))))) (\<lambda>_.
     store_put folderID e))))"

text \<open>The file already has the announced bytes: repair the index and the mode.\<close>

definition apply_same_content :: "nat \<Rightarrow> string \<Rightarrow> Entry \<Rightarrow> Entry \<Rightarrow> (world, unit) io" where
  "apply_same_content r folderID e current =
     bind (fail_if (EBlocks current \<noteq> EBlocks e)
             (Errorf ''blocks do not match file checksum'' [])) (\<lambda>_.
     bind (Root_Open r (components (EPath e))) (\<lambda>f.
     bind (attempt (File_Chmod f (EMode e))) (\<lambda>err.
     bind (attempt (File_Close f)) (\<lambda>closeErr.
     bind (lift_sum err) (\<lambda>_.
     bind (lift_sum closeErr) (\<lambda>_.
     bind (set_stats (\<lambda>s. s\<lparr>BytesReused := ESize e\<rparr>)) (\<lambda>_.
     store_put folderID e)))))))"

text \<open>The map from hashes to the blocks of the current file; a later block replaces an equal one.\<close>

definition block_map :: "Block list \<Rightarrow> string \<Rightarrow> Block option" where
  "block_map bs = map_of (rev (map (\<lambda>b. (BHash b, b)) bs))"

definition reuse_block :: "(handle \<times> Entry) option \<Rightarrow> Block \<Rightarrow> (world, bytes option) io" where
  "reuse_block old b =
     (case old of
        None \<Rightarrow> return None
      | Some (h, current) \<Rightarrow>
          (case block_map (EBlocks current) (BHash b) of
             None \<Rightarrow> return None
           | Some reuse \<Rightarrow>
               (if BSize reuse = BSize b then
                  bind (attempt (File_ReadAt h (BOffset reuse) (BSize b))) (\<lambda>res.
                  case res of
                    Inl _ \<Rightarrow> return None
                  | Inr buf \<Rightarrow>
                      (if hashBytes buf = BHash b then
                         bind (set_stats (\<lambda>s. s\<lparr>BytesReused := BytesReused s + int (length buf)\<rparr>)) (\<lambda>_.
                         return (Some buf))
                       else return None))
                else return None)))"

definition fetch_block :: "FetchBlock option \<Rightarrow> Block \<Rightarrow> (world, bytes) io" where
  "fetch_block fetch b =
     (case fetch of
        None \<Rightarrow> throw (Errorf ''missing block fetcher'' [])
      | Some f \<Rightarrow>
          bind (f b) (\<lambda>data.
          bind (fail_if (int (length data) \<noteq> BSize b \<or> hashBytes data \<noteq> BHash b)
                  (Errorf ''received corrupt block'' [])) (\<lambda>_.
          bind (set_stats (\<lambda>s. s\<lparr>BytesReceived := BytesReceived s + int (length data)\<rparr>)) (\<lambda>_.
          return data))))"

text \<open>The loop over the announced blocks: \<open>full\<close> is what was written and hashed so far.\<close>

fun apply_blocks ::
  "(handle \<times> Entry) option \<Rightarrow> handle \<Rightarrow> FetchBlock option \<Rightarrow> bytes \<Rightarrow> Block list \<Rightarrow> (world, bytes) io" where
  "apply_blocks old out fetch full [] = return full"
| "apply_blocks old out fetch full (b # bs) =
     bind ctx_Err (\<lambda>_.
     bind (reuse_block old b) (\<lambda>reused.
     bind (case reused of Some d \<Rightarrow> return d | None \<Rightarrow> fetch_block fetch b) (\<lambda>data.
     bind (File_Write out (length full) data) (\<lambda>_.
     apply_blocks old out fetch (full @ data) bs))))"

text \<open>The check just before the rename: edits made during the download are kept.\<close>

definition recheck_local :: "nat \<Rightarrow> Entry \<Rightarrow> (handle \<times> Entry) option \<Rightarrow> (world, unit) io" where
  "recheck_local r e old =
     (case old of
        Some (h, current) \<Rightarrow>
          bind (fingerprint r (EPath e)) (\<lambda>latest.
          fail_if (EHash latest \<noteq> EHash current) (LocalChange (EPath e)))
      | None \<Rightarrow>
          bind (attempt (Root_Lstat r (components (EPath e)))) (\<lambda>res.
          case res of
            Inl err \<Rightarrow> (if \<not> errors_Is err NotExist then throw err else return ())
          | Inr _ \<Rightarrow> throw (LocalChange (EPath e))))"

text \<open>Everything after the temporary file was created.\<close>

definition apply_staged ::
  "string \<Rightarrow> nat \<Rightarrow> string \<Rightarrow> Entry \<Rightarrow> FetchBlock option \<Rightarrow> (handle \<times> Entry) option \<Rightarrow> string \<Rightarrow> handle
   \<Rightarrow> (world, unit) io" where
  "apply_staged root r folderID e fetch old tmp out =
     bind (apply_blocks old out fetch [] (EBlocks e)) (\<lambda>full.
     bind (fail_if (hashBytes full \<noteq> EHash e) (Errorf ''file checksum mismatch'' [])) (\<lambda>_.
     bind (File_Chmod out (EMode e)) (\<lambda>_.
     bind (File_Sync out) (\<lambda>_.
     bind (File_Close out) (\<lambda>_.
     bind (CheckFolder root folderID) (\<lambda>_.
     bind (checkMarker r folderID) (\<lambda>_.
     bind (checkComponents r (EPath e) True) (\<lambda>_.
     bind (recheck_local r e old) (\<lambda>_.
     bind ctx_Err (\<lambda>_.
     bind (Root_Rename r (components tmp) (components (EPath e))) (\<lambda>_.
     bind (syncDir r (path_Dir (EPath e))) (\<lambda>_.
     bind (store_put folderID e) (\<lambda>_.
     set_stats (\<lambda>s. s\<lparr>Files := 1\<rparr>))))))))))))))"

definition temp_name :: "string \<Rightarrow> bytes \<Rightarrow> string" where
  "temp_name name nonce = path_Join (path_Dir name) (tempPrefix @ hex_encode nonce)"

text \<open>The deferred cleanup.\<close>

definition discard_temp :: "nat \<Rightarrow> string \<Rightarrow> handle \<Rightarrow> (world, error + unit) io" where
  "discard_temp r tmp out =
     bind (attempt (File_Close out)) (\<lambda>_. attempt (Root_Remove r (components tmp)))"

definition apply_install ::
  "string \<Rightarrow> nat \<Rightarrow> string \<Rightarrow> Entry \<Rightarrow> FetchBlock option \<Rightarrow> (handle \<times> Entry) option \<Rightarrow> (world, unit) io" where
  "apply_install root r folderID e fetch old =
     bind (ensureParents r (EPath e)) (\<lambda>_.
     bind rand_Read (\<lambda>nonce.
     bind (Root_CreateExcl r (components (temp_name (EPath e) nonce)) 384) (\<lambda>out.
     deferring (discard_temp r (temp_name (EPath e) nonce) out)
       (apply_staged root r folderID e fetch old (temp_name (EPath e) nonce) out))))"

definition apply_file ::
  "string \<Rightarrow> nat \<Rightarrow> string \<Rightarrow> Entry \<Rightarrow> FetchBlock option \<Rightarrow> FileInfo option \<Rightarrow> (world, unit) io" where
  "apply_file root r folderID e fetch info =
     (case info of
        Some i \<Rightarrow>
          bind (fail_if (fi_type i \<noteq> Regular) (LocalChange (EPath e))) (\<lambda>_.
          bind (fingerprint r (EPath e)) (\<lambda>current.
          if EHash current = EHash e then apply_same_content r folderID e current
          else
            bind (attempt (store_get folderID (EPath e))) (\<lambda>indexed.
            bind (fail_if (case indexed of
                             Inl err \<Rightarrow> errors_Is err NoRows
                           | Inr ix \<Rightarrow> EKind ix \<noteq> ''file'' \<or> EHash ix \<noteq> EHash current)
                    (LocalChange (EPath e))) (\<lambda>_.
            bind (lift_sum indexed) (\<lambda>_.
            bind (Root_Open r (components (EPath e))) (\<lambda>old.
            apply_install root r folderID e fetch (Some (old, current))))))))
      | None \<Rightarrow>
          bind (check_not_indexed folderID (EPath e)) (\<lambda>_.
          apply_install root r folderID e fetch None))"

definition Apply :: "string \<Rightarrow> string \<Rightarrow> Entry \<Rightarrow> FetchBlock option \<Rightarrow> (world, unit) io" where
  "Apply folderID root e fetch =
     bind (set_stats (\<lambda>_. zero_stats)) (\<lambda>_.
     bind (lift_sum (ValidateEntry e)) (\<lambda>_.
     bind ctx_Err (\<lambda>_.
     bind (checkCapacity folderID e) (\<lambda>_.
     bind (openFolder root folderID) (\<lambda>r.
     bind (checkComponents r (EPath e) True) (\<lambda>_.
     bind (attempt (Root_Lstat r (components (EPath e)))) (\<lambda>stat.
     bind (case stat of
             Inl err \<Rightarrow> (if \<not> errors_Is err NotExist then throw err else return None)
           | Inr info \<Rightarrow> return (Some info)) (\<lambda>info.
     if EKind e = ''directory'' then apply_directory r folderID e info
     else apply_file root r folderID e fetch info))))))))"

section \<open>Relations that contain the operations\<close>

context reading begin

lemma check_not_indexed_within: "within R (check_not_indexed f name)"
  unfolding check_not_indexed_def by (intro reads store_get_within)

lemma reuse_block_within: "within R (reuse_block old b)"
  unfolding reuse_block_def by (intro reads)

lemma fetch_block_within: "(\<And>f. fetch = Some f \<Longrightarrow> within R (f b)) \<Longrightarrow> within R (fetch_block fetch b)"
  unfolding fetch_block_def by (intro reads) simp

lemma recheck_local_within: "within R (recheck_local r e old)"
  unfolding recheck_local_def by (intro reads fingerprint_within)

end

text \<open>
  Any relation that also contains the calls that write files and the index row of \<open>e\<close>, and what the
  fetcher does, contains all of \<open>Apply\<close>.
\<close>

locale applying = keeping_files +
  fixes folder :: string and e :: Entry
  assumes put: "within R (store_put folder e)"
    and create: "within R (Root_CreateExcl r p m)"
    and rename: "within R (Root_Rename r p q)"
    and remove: "within R (Root_Remove r p)"
    and write_at: "within R (File_Write h n d)"
begin

lemma apply_directory_within: "within R (apply_directory r folder e info)"
  unfolding apply_directory_def
  by (intro reads check_not_indexed_within ensureParents_within syncDir_within mkdir put)

lemma apply_same_content_within: "within R (apply_same_content r folder e current)"
  unfolding apply_same_content_def by (intro reads chmod put)

lemma apply_blocks_within:
  assumes "\<And>f b. fetch = Some f \<Longrightarrow> within R (f b)"
  shows "within R (apply_blocks old out fetch full bs)"
  using assms by (induction bs arbitrary: full) (auto intro!: reads reuse_block_within fetch_block_within write_at)

lemma apply_staged_within:
  assumes "\<And>f b. fetch = Some f \<Longrightarrow> within R (f b)"
  shows "within R (apply_staged root r folder e fetch old tmp out)"
  unfolding apply_staged_def
  by (intro reads apply_blocks_within assms chmod CheckFolder_within checkMarker_within
      checkComponents_within recheck_local_within rename syncDir_within put)

lemma apply_install_within:
  assumes "\<And>f b. fetch = Some f \<Longrightarrow> within R (f b)"
  shows "within R (apply_install root r folder e fetch old)"
  unfolding apply_install_def discard_temp_def
  by (intro reads ensureParents_within create remove apply_staged_within assms)

lemma apply_file_within:
  assumes "\<And>f b. fetch = Some f \<Longrightarrow> within R (f b)"
  shows "within R (apply_file root r folder e fetch info)"
  unfolding apply_file_def
  by (intro reads fingerprint_within apply_same_content_within store_get_within
      check_not_indexed_within apply_install_within assms)

lemma Apply_within:
  assumes "\<And>f b. fetch = Some f \<Longrightarrow> within R (f b)"
  shows "within R (Apply folder root e fetch)"
  unfolding Apply_def
  by (intro reads checkCapacity_within openFolder_within checkComponents_within
      apply_directory_within apply_file_within assms)

end

text \<open>The relations on the index alone.\<close>

lemma applying_db:
  assumes "\<And>w w'. wdb w' = wdb w \<Longrightarrow> R w w'" "preorder_rel R" "within R (store_put folder e)"
  shows "applying R folder e"
  by (intro applying.intro applying_axioms.intro reading_db assms within_mono [OF within_sys_db])

text \<open>The invariant of the tables.\<close>

lemma store_put_inv: "within (\<lambda>w w'. db_inv (wdb w) \<longrightarrow> db_inv (wdb w')) (store_put f e)"
  unfolding store_put_def by (rule within_exec_inv) (rule upsert_row_inv)

interpretation tables: applying "\<lambda>w w'. db_inv (wdb w) \<longrightarrow> db_inv (wdb w')" folder e for folder e
  by (rule applying_db) (simp_all add: store_put_inv)

text \<open>Every other row.\<close>

definition other_rows :: "string \<Rightarrow> string \<Rightarrow> database \<Rightarrow> database \<Rightarrow> bool" where
  "other_rows f p db db' \<longleftrightarrow>
     (\<forall>g q. (g, q) \<noteq> (f, p) \<longrightarrow> select_manifest db' g q = select_manifest db g q)"

lemma store_put_other: "within (\<lambda>w w'. other_rows f (EPath e) (wdb w) (wdb w')) (store_put f e)"
  by (auto simp: within_def store_put_def sql_exec_def other_rows_def select_upsert_row
      split: prod.split option.split sum.split)

interpretation rows: applying "\<lambda>w w'. other_rows folder (EPath e) (wdb w) (wdb w')" folder e for folder e
  by (rule applying_db [OF _ _ store_put_other])
     (auto simp: other_rows_def preorder_rel_def reflp_def transp_def)

end
