(* ===== verification/Install.thy ===== *)
theory Install
  imports Apply Catalog
begin

text \<open>
  What \<open>Apply\<close> guarantees. The index: an error leaves it as it was, a success has stored the entry,
  on every schedule. The files: in a machine where nobody else edits them, whatever calls fail and
  whenever the request is cancelled, only the destination can come to show other bytes, and then
  exactly the announced ones. \<open>staged\<close> describes the file system while the temporary file is
  written, \<open>placed\<close> once it has been renamed.
\<close>

section \<open>The index row\<close>

text \<open>On every schedule: an error leaves the index as it was, a success has stored the entry.\<close>

abbreviation stores :: "string \<Rightarrow> Entry \<Rightarrow> (world, 'a) io \<Rightarrow> bool" where
  "stores f e \<equiv> commits (\<lambda>_. upsert_row f (EPath e) (json_Marshal e))"

lemma stores_put: "stores f e (store_put f e)"
  unfolding store_put_def by (rule commits_exec)

lemmas stores_intros = stores_put commits_then_stats commits_bind commits_throw commits_if commits_deferring

lemmas index_frames = frame.reads frame.chmod frame.mkdir frame.ensureParents_within
  frame.syncDir_within frame.check_not_indexed_within frame.checkCapacity_within
  frame.openFolder_within frame.checkComponents_within frame.CheckFolder_within
  frame.checkMarker_within frame.recheck_local_within frame.fingerprint_within
  frame.store_get_within within_sys_db frame.reuse_block_within frame.fetch_block_within

lemma apply_blocks_frame:
  assumes "\<And>f b. fetch = Some f \<Longrightarrow> within same_index (f b)"
  shows "within same_index (apply_blocks old out fetch full bs)"
  using assms by (induction bs arbitrary: full) (auto intro!: index_frames)

lemma stores_Apply:
  assumes "\<And>f b. fetch = Some f \<Longrightarrow> within same_index (f b)"
  shows "stores folder e (Apply folder root e fetch)"
proof -
  have staged: "stores folder e (apply_staged root r folder e fetch old tmp out)" for r old tmp out
    unfolding apply_staged_def
    by (intro stores_intros index_frames apply_blocks_frame assms)
  have install: "stores folder e (apply_install root r folder e fetch old)" for r old
    unfolding apply_install_def discard_temp_def by (intro stores_intros index_frames staged)
  have same: "stores folder e (apply_same_content r folder e current)" for r current
    unfolding apply_same_content_def by (intro stores_intros index_frames)
  have files: "stores folder e (apply_file root r folder e fetch info)" for r info
    unfolding apply_file_def
    by (cases info) (simp_all, (intro stores_intros index_frames install same)+)
  have dir: "stores folder e (apply_directory r folder e info)" for r info
    unfolding apply_directory_def by (intro stores_intros index_frames)
  show ?thesis
    unfolding Apply_def by (intro stores_intros index_frames files dir)
qed

section \<open>The bytes that are installed\<close>

text \<open>Every block that is written has the announced size and hash, whatever the schedule.\<close>

lemma reuse_block_Inr:
  assumes "reuse_block old b w = (Inr (Some d), w')"
  shows "piece_ok b d"
proof -
  obtain h current where old: "old = Some (h, current)"
    using assms by (cases old) (auto simp: reuse_block_def)
  obtain reuse where "block_map (EBlocks current) (BHash b) = Some reuse" "BSize reuse = BSize b"
    using assms by (cases "block_map (EBlocks current) (BHash b)") (auto simp: reuse_block_def old split: if_splits)
  then obtain r w1 where rd: "File_ReadAt h (BOffset reuse) (BSize b) w = (r, w1)"
    and "(case r of Inl _ \<Rightarrow> return None
          | Inr buf \<Rightarrow>
              (if hashBytes buf = BHash b then
                 bind (set_stats (\<lambda>s. s\<lparr>BytesReused := BytesReused s + int (length buf)\<rparr>)) (\<lambda>_. return (Some buf))
               else return None)) w1 = (Inr (Some d), w')"
    using assms by (auto simp: reuse_block_def old bind_eq_Inr run_attempt split: prod.splits)
  then have "r = Inr d \<and> hashBytes d = BHash b"
    by (cases r) (auto simp: bind_eq_Inr split: if_splits)
  with File_ReadAt_Inr [of h "BOffset reuse" "BSize b" w d w1] rd show ?thesis
    by (auto simp: piece_ok_def)
qed

lemma fetch_block_Inr: "fetch_block fetch b w = (Inr d, w') \<Longrightarrow> piece_ok b d"
  by (auto simp: fetch_block_def piece_ok_def bind_eq_Inr fail_if_Inr split: option.splits)

lemma apply_blocks_Inr:
  assumes "apply_blocks old out fetch full bs w = (Inr full', w')"
  shows "\<exists>ds. full' = full @ concat ds \<and> list_all2 piece_ok bs ds"
  using assms
proof (induction bs arbitrary: full w)
  case (Cons b bs)
  then obtain d w1 w2 w3 w4 reused where "reuse_block old b w1 = (Inr reused, w2)"
    and "(case reused of Some d \<Rightarrow> return d | None \<Rightarrow> fetch_block fetch b) w2 = (Inr d, w3)"
    and rest: "apply_blocks old out fetch (full @ d) bs w4 = (Inr full', w')"
    unfolding apply_blocks.simps by (elim bind_eq_InrE)
  then have d: "piece_ok b d"
    by (cases reused) (auto dest: reuse_block_Inr fetch_block_Inr)
  from Cons.IH [OF rest] obtain ds where "full' = (full @ d) @ concat ds" "list_all2 piece_ok bs ds"
    by blast
  with d show ?case by (intro exI [of _ "d # ds"]) simp
qed simp

text \<open>With the checksum right as well, the announced entry is exactly the entry of these bytes.\<close>

lemma assembled_entry:
  assumes "ValidateEntry e = Inr ()" "EKind e \<noteq> ''directory''" "list_all2 piece_ok (EBlocks e) ds"
    "hashBytes (concat ds) = EHash e"
  shows "entry_of (EPath e) (EMode e) (concat ds) = e"
proof -
  have v: "EKind e = ''file''" "0 \<le> ESize e" "check_layout (ESize e) 0 (EBlocks e) = Inr ()"
    "int (length (EBlocks e)) = (ESize e - 0 + BlockSize - 1) div BlockSize"
    using assms(1,2) by (auto simp: ValidateEntry_def split: sum.splits if_splits)
  from blocks_from_assembled [OF v(3) assms(3) v(2,4)] v(1) assms(4)
  show ?thesis by (cases e) (simp add: entry_of_def)
qed

section \<open>Writing the temporary file\<close>

text \<open>Paths of the tree \<open>r\<close> through a name the store gives its temporary files.\<close>

definition scratch :: "nat \<Rightarrow> nat \<Rightarrow> string list \<Rightarrow> bool" where
  "scratch r r' q \<longleftrightarrow> r' = r \<and> list_ex (\<lambda>p. has_prefix p tempPrefix) q"

text \<open>The tree and the bytes are the same; modes may have changed.\<close>

definition same_bytes :: "fsys \<Rightarrow> fsys \<Rightarrow> bool" where
  "same_bytes s s' \<longleftrightarrow> trees s' = trees s \<and> mounts s' = mounts s \<and> next_inode s' = next_inode s
     \<and> (\<forall>i. idata (inodes s' i) = idata (inodes s i))"

lemma preorder_same_bytes [simp]: "preorder_rel same_bytes"
  unfolding preorder_rel_def same_bytes_def by (auto intro: reflpI transpI)

interpretation bytes: reading "fs_rel same_bytes"
  by (rule reading_fs_rel) simp

text \<open>The fetcher changes neither files nor the index itself, whatever others do meanwhile.\<close>

definition fetch_steady :: "FetchBlock option \<Rightarrow> bool" where
  "fetch_steady fetch \<longleftrightarrow> (\<forall>f b. fetch = Some f \<longrightarrow>
     (\<forall>K. preorder_rel K \<longrightarrow> within (fs_rel K) (f b)) \<and> within same_index (f b))"

text \<open>The temporary file \<open>tmp\<close> is a new inode \<open>i\<close> that holds \<open>full\<close>; every other file is as in \<open>s0\<close>.\<close>

definition staged :: "fsys \<Rightarrow> nat \<Rightarrow> string list \<Rightarrow> nat \<Rightarrow> bytes \<Rightarrow> fsys \<Rightarrow> bool" where
  "staged s0 r tmp i full s \<longleftrightarrow>
     fs_wf s0 \<and> same_except (scratch r) s0 s \<and> next_inode s0 \<le> i \<and> i < next_inode s
     \<and> lookup_node (trees s r) tmp = Inr (File i) \<and> idata (inodes s i) = full"

lemma staged_same_bytes: "staged s0 r tmp i full s \<Longrightarrow> same_bytes s s' \<Longrightarrow> staged s0 r tmp i full s'"
  by (simp add: staged_def same_bytes_def same_except_def fs_wf_def)

lemma fsh_same_bytes:
  "within (fs_rel same_bytes) m \<Longrightarrow> fsh (staged s0 r tmp i full) m (\<lambda>_. staged s0 r tmp i full) (staged s0 r tmp i full)"
  by (erule fsh_keep) (auto intro: staged_same_bytes)

lemma overwrite_end: "overwrite (length xs) ys xs = xs @ ys"
  by (simp add: overwrite_def)

lemma fsh_write:
  "fsh (staged s0 r tmp i full) (File_Write (HFile i) (length full) d)
     (\<lambda>_. staged s0 r tmp i (full @ d)) (staged s0 r tmp i full)"
proof (rule fsh_sys)
  fix s assume s: "staged s0 r tmp i full s"
  then have "idata (inodes s i) = full" by (simp add: staged_def)
  with s show "case fs_write (HFile i) (length full) d s of
      (Inl e, s') \<Rightarrow> staged s0 r tmp i full s' | (Inr x, s') \<Rightarrow> staged s0 r tmp i (full @ d) s'"
    by (auto simp: fs_write_def staged_def set_inode_def same_except_def fs_wf_def overwrite_end)
qed

lemma fsh_if: "(b \<Longrightarrow> fsh P m Q E) \<Longrightarrow> (\<not> b \<Longrightarrow> fsh P n Q E) \<Longrightarrow> fsh P (if b then m else n) Q E"
  by simp

definition some_staged :: "fsys \<Rightarrow> nat \<Rightarrow> string list \<Rightarrow> nat \<Rightarrow> fsys \<Rightarrow> bool" where
  "some_staged s0 r tmp i s \<longleftrightarrow> (\<exists>full. staged s0 r tmp i full s)"

lemma fetch_block_bytes:
  assumes "fetch_steady fetch"
  shows "within (fs_rel same_bytes) (fetch_block fetch b)"
  using assms by (auto simp: fetch_steady_def intro: bytes.fetch_block_within)

lemma fsh_reused:
  "within (fs_rel same_bytes) m \<Longrightarrow> fsh (some_staged s0 r tmp i) m (\<lambda>_. some_staged s0 r tmp i) (some_staged s0 r tmp i)"
  by (erule fsh_keep) (auto simp: some_staged_def intro: staged_same_bytes)

lemma fsh_blocks:
  assumes "fetch_steady fetch"
  shows "fsh (staged s0 r tmp i full) (apply_blocks old (HFile i) fetch full bs)
     (staged s0 r tmp i) (some_staged s0 r tmp i)"
proof (induction bs arbitrary: full)
  case Nil
  show ?case unfolding apply_blocks.simps by (rule fsh_return)
next
  case (Cons b bs)
  have some: "fsh (staged s0 r tmp i full) m (\<lambda>_. staged s0 r tmp i full) (some_staged s0 r tmp i)"
    if "within (fs_rel same_bytes) m" for m :: "(world, 'a) io"
    by (rule fsh_conseq [OF fsh_same_bytes [OF that]]) (auto simp: some_staged_def)
  have fetched: "within (fs_rel same_bytes) (case reused of Some d \<Rightarrow> return d | None \<Rightarrow> fetch_block fetch b)"
    for reused by (intro bytes.reads fetch_block_bytes assms)
  have step: "fsh (staged s0 r tmp i full) (bind (File_Write (HFile i) (length full) d)
      (\<lambda>_. apply_blocks old (HFile i) fetch (full @ d) bs)) (staged s0 r tmp i) (some_staged s0 r tmp i)" for d
    by (rule fsh_bind [OF _ Cons], rule fsh_conseq [OF fsh_write]) (auto simp: some_staged_def)
  show ?case
    unfolding apply_blocks.simps
    by (rule fsh_bind [OF some [OF within_ctx_Err]] fsh_bind [OF some [OF bytes.reuse_block_within]]
        fsh_bind [OF some [OF fetched]] step preorder_fs_rel preorder_same_bytes)+
qed

section \<open>Names of temporary files\<close>

lemma slash_not_in_hex: "slash \<notin> set (hex_encode bs)"
proof
  assume "slash \<in> set (hex_encode bs)"
  then have "List.member hex_digits slash" using hex_encode_digits is_hex_digit_def by blast
  then show False by (simp add: hex_digits_def)
qed

lemma temp_part: "slash \<notin> set (tempPrefix @ hex_encode bs)"
  using slash_not_in_hex by (simp add: tempPrefix_def)

lemma components_temp_name:
  assumes "validPath name = Inr ()"
  shows "components (temp_name name nonce) = butlast (components name) @ [tempPrefix @ hex_encode nonce]"
proof -
  define ps where "ps = split_on slash name"
  define t where "t = tempPrefix @ hex_encode nonce"
  have t: "slash \<notin> set t" "t \<noteq> ''.''" using temp_part by (auto simp: t_def tempPrefix_def)
  have parts: "slash \<notin> set p" "p \<noteq> []" "p \<noteq> ''.''" if "p \<in> set ps" for p
    using validPath_parts [OF assms, of p] that by (auto simp: ps_def)
  have "temp_name name nonce = join_with slash (butlast ps @ [t])"
  proof (cases "length ps \<le> 1")
    case True
    then have "butlast ps = []" by (cases ps) auto
    with True show ?thesis by (simp add: temp_name_def path_Dir_def path_Join_def t_def ps_def)
  next
    case False
    then have ne: "butlast ps \<noteq> []" by (cases ps) auto
    have "join_with slash (butlast ps) \<noteq> ''.''"
    proof
      assume dot: "join_with slash (butlast ps) = ''.''"
      have "split_on slash (join_with slash (butlast ps)) = butlast ps"
        using ne parts by (intro split_join) (auto dest: in_set_butlastD)
      then have "butlast ps = [''.'']" by (simp add: dot)
      then have "''.'' \<in> set ps" using in_set_butlastD [of "''.''" ps] by simp
      with parts(3) show False by blast
    qed
    with False ne show ?thesis
      by (simp add: temp_name_def path_Dir_def path_Join_def Let_def join_with_append
          flip: t_def ps_def)
  qed
  moreover have "split_on slash (join_with slash (butlast ps @ [t])) = butlast ps @ [t]"
    using t parts by (intro split_join) (auto dest: in_set_butlastD)
  moreover have "join_with slash (butlast ps @ [t]) \<noteq> ''.''"
  proof
    assume "join_with slash (butlast ps @ [t]) = ''.''"
    with calculation(2) have "butlast ps @ [t] = [''.'']" by simp
    with t show False by simp
  qed
  ultimately show ?thesis
    using assms by (simp add: components_def components_valid t_def ps_def)
qed

lemma scratch_valid: "validPath name = Inr () \<Longrightarrow> \<not> scratch r r' (components name)"
  by (auto simp: scratch_def list_ex_iff components_valid dest: validPath_parts(6))

lemma scratch_below:
  assumes "at_or_below r (components (temp_name name nonce)) r' q" "validPath name = Inr ()"
  shows "scratch r r' q"
proof -
  obtain z where "r' = r" "q = components (temp_name name nonce) @ z"
    using assms(1) path_split by (auto simp: at_or_below_def)
  then show ?thesis
    by (simp add: components_temp_name [OF assms(2)] scratch_def)
qed

section \<open>Outcomes of an installation\<close>

definition scratch_or :: "nat \<Rightarrow> string list \<Rightarrow> nat \<Rightarrow> string list \<Rightarrow> bool" where
  "scratch_or r dst r' q \<longleftrightarrow> scratch r r' q \<or> (r' = r \<and> q = dst)"

text \<open>The destination shows bytes that are all of \<open>e\<close>, with its mode.\<close>

definition installed :: "nat \<Rightarrow> Entry \<Rightarrow> fsys \<Rightarrow> bool" where
  "installed r e s \<longleftrightarrow> (\<exists>i. file_ino (trees s r) (components (EPath e)) = Some i
     \<and> imode (inodes s i) = EMode e \<and> entry_of (EPath e) (EMode e) (idata (inodes s i)) = e)"

definition placed :: "fsys \<Rightarrow> nat \<Rightarrow> Entry \<Rightarrow> fsys \<Rightarrow> bool" where
  "placed s0 r e s \<longleftrightarrow> fs_wf s0 \<and> same_except (scratch_or r (components (EPath e))) s0 s \<and> installed r e s"

definition untouched :: "fsys \<Rightarrow> nat \<Rightarrow> fsys \<Rightarrow> bool" where
  "untouched s0 r s \<longleftrightarrow> fs_wf s0 \<and> same_except (scratch r) s0 s"

lemma fsh_result:
  assumes "fsh P m Q E" "\<And>w x w'. m w = (Inr x, w') \<Longrightarrow> R x"
  shows "fsh P m (\<lambda>x s. Q x s \<and> R x) E"
  using assms unfolding fsh_def wp_def by (fastforce split: prod.split sum.split)

lemma fsh_fail_if: "(\<And>s. P s \<Longrightarrow> E s) \<Longrightarrow> fsh P (fail_if b err) (\<lambda>_ s. P s \<and> \<not> b) E"
  by (simp add: fsh_def wp_simps)

lemma fsh_unchanged:
  "within (fs_rel (\<lambda>s s'. s' = s)) m \<Longrightarrow> (\<And>s. P s \<Longrightarrow> E s) \<Longrightarrow> fsh P m (\<lambda>_. P) E"
  by (rule fsh_conseq [OF fsh_keep [of "\<lambda>s s'. s' = s" m P]]) auto

lemma fsh_deferring:
  assumes "fsh P m Q E" "within (fs_rel K) c" "preorder_rel K"
    and "\<And>x s s'. Q x s \<Longrightarrow> K s s' \<Longrightarrow> Q' x s'" "\<And>s s'. E s \<Longrightarrow> K s s' \<Longrightarrow> E' s'"
  shows "fsh P (deferring c m) Q' E'"
  unfolding fsh_def
proof (intro allI impI)
  fix w assume w: "calm w \<and> P (wfs w)"
  obtain r w1 where m: "m w = (r, w1)" by fastforce
  obtain r2 w2 where c: "c w1 = (r2, w2)" by fastforce
  have w1: "calm w1 \<and> (case r of Inl e \<Rightarrow> E (wfs w1) | Inr x \<Rightarrow> Q x (wfs w1))"
    using fsh_Inr [OF assms(1), of w] fsh_Inl [OF assms(1), of w] w m by (cases r) auto
  then have "K (wfs w1) (wfs w2)" "calm w2"
    using fs_rel_calm [OF assms(2,3) _ c] by auto
  with w1 assms(4,5) show "wp (deferring c m) (\<lambda>x w'. calm w' \<and> Q' x (wfs w')) (\<lambda>e w'. calm w' \<and> E' (wfs w')) w"
    by (cases r) (auto simp: wp_def deferring_def m c)
qed

section \<open>The last steps\<close>

definition staged_mode :: "fsys \<Rightarrow> nat \<Rightarrow> string list \<Rightarrow> Entry \<Rightarrow> fsys \<Rightarrow> bool" where
  "staged_mode s0 r tmp e s \<longleftrightarrow> (\<exists>i full. staged s0 r tmp i full s \<and> imode (inodes s i) = EMode e
     \<and> entry_of (EPath e) (EMode e) full = e)"

definition staged_or_placed :: "fsys \<Rightarrow> nat \<Rightarrow> string list \<Rightarrow> Entry \<Rightarrow> fsys \<Rightarrow> bool" where
  "staged_or_placed s0 r tmp e s \<longleftrightarrow> (\<exists>i. some_staged s0 r tmp i s) \<or> placed s0 r e s"

lemma fsh_chmod:
  "fsh (staged s0 r tmp i full) (File_Chmod (HFile i) m)
     (\<lambda>_ s. staged s0 r tmp i full s \<and> imode (inodes s i) = m) (staged s0 r tmp i full)"
  by (rule fsh_sys) (auto simp: fs_chmod_def staged_def set_inode_def same_except_def fs_wf_def)

lemma fsh_rename:
  fixes nonce :: bytes
  assumes "validPath (EPath e) = Inr ()"
  defines "tmp \<equiv> components (temp_name (EPath e) nonce)"
  shows "fsh (staged_mode s0 r tmp e) (Root_Rename r tmp (components (EPath e)))
    (\<lambda>_. placed s0 r e) (staged_or_placed s0 r tmp e)"
proof (rule fsh_sys)
  fix s assume "staged_mode s0 r tmp e s"
  then obtain i full where st: "staged s0 r tmp i full s" and mode: "imode (inodes s i) = EMode e"
    and e: "entry_of (EPath e) (EMode e) full = e"
    by (auto simp: staged_mode_def)
  let ?dst = "components (EPath e)"
  have "scratch r r tmp"
    using assms(1) by (simp add: tmp_def components_temp_name scratch_def)
  then have ne: "tmp \<noteq> []" "?dst \<noteq> []" "tmp \<noteq> ?dst"
    using components_nonempty [OF assms(1)] scratch_valid [OF assms(1), of r r]
    by (auto simp: scratch_def)
  obtain res s' where rn: "fs_rename r tmp ?dst s = (res, s')" by fastforce
  have i: "lookup_node (trees s r) tmp = Inr (File i)" using st by (simp add: staged_def)
  note rf = rename_file [OF rn i ne(3,1,2)]
  have X: "same_except (scratch_or r ?dst) s s'"
    by (rule same_except_mono [OF rf(1)]) (use scratch_below assms(1) in \<open>auto simp: scratch_or_def tmp_def\<close>)
  have X0: "same_except (scratch_or r ?dst) s0 s"
    using st by (auto simp: staged_def scratch_or_def intro: same_except_mono)
  show "case fs_rename r tmp ?dst s of (Inl er, s') \<Rightarrow> staged_or_placed s0 r tmp e s' | (Inr x, s') \<Rightarrow> placed s0 r e s'"
  proof (cases res)
    case (Inl er)
    with rf(3) st rn show ?thesis by (auto simp: staged_or_placed_def some_staged_def)
  next
    case (Inr u)
    have "file_ino (trees s' r) ?dst = Some i" "inodes s' = inodes s"
      using rf(2,4) Inr by auto
    with st mode e have "installed r e s'"
      by (simp add: installed_def staged_def)
    with same_except_trans [OF X0 X] st Inr rn show ?thesis
      by (simp add: placed_def staged_def)
  qed
qed (auto simp: staged_mode_def staged_or_placed_def some_staged_def)

lemma fsh_staged:
  fixes nonce :: bytes
  assumes "ValidateEntry e = Inr ()" "EKind e \<noteq> ''directory''" "fetch_steady fetch"
  defines "tmp \<equiv> temp_name (EPath e) nonce"
  shows "fsh (staged s0 r (components tmp) i []) (apply_staged root r folder e fetch old tmp (HFile i))
    (\<lambda>_. placed s0 r e) (staged_or_placed s0 r (components tmp) e)"
proof -
  have valid: "validPath (EPath e) = Inr ()"
    using assms(1) by (auto simp: ValidateEntry_def split: sum.splits)
  let ?t = "components tmp"
  let ?E = "staged_or_placed s0 r ?t e"
  have E: "staged s0 r ?t j full s \<Longrightarrow> ?E s" for j full s
    by (auto simp: staged_or_placed_def some_staged_def)
  have keepm: "fsh (staged_mode s0 r ?t e) m (\<lambda>_. staged_mode s0 r ?t e) ?E"
    if "within (fs_rel (\<lambda>s s'. s' = s)) m" for m :: "(world, 'b) io"
    by (rule fsh_unchanged [OF that]) (auto simp: staged_mode_def intro: E)
  have keepp: "fsh (placed s0 r e) m (\<lambda>_. placed s0 r e) ?E"
    if "within (fs_rel (\<lambda>s s'. s' = s)) m" for m :: "(world, 'b) io"
    by (rule fsh_unchanged [OF that]) (auto simp: staged_or_placed_def)
  have blocks: "fsh (staged s0 r ?t i []) (apply_blocks old (HFile i) fetch [] (EBlocks e))
      (\<lambda>full s. staged s0 r ?t i full s \<and> (\<exists>ds. full = concat ds \<and> list_all2 piece_ok (EBlocks e) ds)) ?E"
    by (rule fsh_result, rule fsh_conseq [OF fsh_blocks [OF assms(3)]])
       (use apply_blocks_Inr in \<open>fastforce simp: staged_or_placed_def\<close>)+
  have sum: "fsh (\<lambda>s. staged s0 r ?t i full s \<and> (\<exists>ds. full = concat ds \<and> list_all2 piece_ok (EBlocks e) ds))
      (fail_if (hashBytes full \<noteq> EHash e) (Errorf ''file checksum mismatch'' []))
      (\<lambda>_ s. staged s0 r ?t i full s \<and> entry_of (EPath e) (EMode e) full = e) ?E" for full
    using assembled_entry [OF assms(1,2)]
    by (intro fsh_conseq [OF fsh_fail_if [of "\<lambda>s. staged s0 r ?t i full s \<and> (\<exists>ds. full = concat ds \<and> list_all2 piece_ok (EBlocks e) ds)" "?E"]])
       (auto intro: E)
  have mode: "fsh (\<lambda>s. staged s0 r ?t i full s \<and> entry_of (EPath e) (EMode e) full = e)
      (File_Chmod (HFile i) (EMode e)) (\<lambda>_. staged_mode s0 r ?t e) ?E" for full
  proof (cases "entry_of (EPath e) (EMode e) full = e")
    case True
    then show ?thesis
      by (intro fsh_conseq [OF fsh_chmod]) (auto simp: staged_mode_def intro: E)
  next
    case False
    then show ?thesis by (simp add: fsh_def)
  qed
  note reads = unchanged.sync unchanged.CheckFolder_within unchanged.checkMarker_within
    unchanged.checkComponents_within unchanged.recheck_local_within within_ctx_Err [OF unchanged.pre]
  have put: "within (fs_rel (\<lambda>s s'. s' = s)) (store_put folder e)"
    unfolding store_put_def by (intro within_exec_fs) simp
  have "fsh (placed s0 r e) (set_stats g) (\<lambda>_. placed s0 r e) ?E" for g
    by (rule keepp [OF unchanged.counted])
  then show ?thesis
    unfolding apply_staged_def
    by (intro fsh_bind [OF blocks] fsh_bind [OF sum] fsh_bind [OF mode] fsh_bind [OF keepm] reads
        fsh_bind [OF fsh_rename [OF valid, of s0 r nonce, folded tmp_def]]
        fsh_bind [OF keepp [OF unchanged.syncDir_within]] fsh_bind [OF keepp [OF put]])
qed

section \<open>One installation\<close>

definition unlinked :: "nat \<Rightarrow> string list \<Rightarrow> fsys \<Rightarrow> fsys \<Rightarrow> bool" where
  "unlinked r p s s' \<longleftrightarrow> same_except (at_or_below r p) s s' \<and> inodes s' = inodes s
     \<and> (\<forall>r' q. \<not> at_or_below r p r' q \<longrightarrow> file_ino (trees s' r') q = file_ino (trees s r') q)"

lemma preorder_unlinked [simp]: "preorder_rel (unlinked r p)"
  unfolding preorder_rel_def unlinked_def
  by (auto intro!: reflpI transpI intro: same_except_trans)

interpretation unlinking: reading "fs_rel (unlinked r p)" for r p
  by (rule reading_fs_rel) simp

lemma discard_temp_within: "within (fs_rel (unlinked r (components tmp))) (discard_temp r tmp out)"
proof -
  have "unlinked r p s (snd (fs_remove r p s))" for p s
    using remove_same [of r p s] file_ino_update_other [of p _ "trees s r" None]
    by (auto simp: unlinked_def fs_remove_def set_tree_def at_or_below_def split: sum.split node.split list.split)
  then show ?thesis
    unfolding discard_temp_def by (intro unlinking.reads within_sys_fs preorder_unlinked)
qed

lemma unlinked_content: "unlinked r p s s' \<Longrightarrow> \<not> at_or_below r p r' q \<Longrightarrow> content s' r' q = content s r' q"
  by (simp add: unlinked_def content_def)

lemma untouched_trans: "untouched s0 r s \<Longrightarrow> same_except (scratch r) s s' \<Longrightarrow> untouched s0 r s'"
  by (auto simp: untouched_def intro: same_except_trans)

lemma same_except_wf: "same_except X s s' \<Longrightarrow> fs_wf s \<Longrightarrow> fs_wf s'"
  by (simp add: same_except_def)

lemma placed_unlinked:
  assumes "placed s0 r e s" "unlinked r (components (temp_name (EPath e) nonce)) s s'"
    and valid: "validPath (EPath e) = Inr ()"
  shows "placed s0 r e s'"
proof -
  let ?dst = "components (EPath e)" and ?tmp = "components (temp_name (EPath e) nonce)"
  have wf: "fs_wf s" "fs_wf s0" using assms(1) by (auto simp: placed_def intro: same_except_wf)
  have no: "\<not> at_or_below r ?tmp r ?dst" using scratch_valid scratch_below valid by blast
  have u: "same_except (at_or_below r ?tmp) s s'" "inodes s' = inodes s"
    using assms(2) by (auto simp: unlinked_def)
  from u(1) have X: "same_except (scratch_or r ?dst) s s'"
    by (rule same_except_mono) (use scratch_below valid in \<open>auto simp: scratch_or_def\<close>)
  have "file_ino (trees s' r) ?dst = file_ino (trees s r) ?dst"
    using u(1) wf(1) no by (simp add: same_except_def)
  then have "installed r e s'"
    using assms(1) u(2) by (simp add: placed_def installed_def)
  with assms(1) X wf show ?thesis by (auto simp: placed_def intro: same_except_trans)
qed

lemma staged_unlinked:
  assumes "some_staged s0 r tmp' i s" "unlinked r (components (temp_name (EPath e) nonce)) s s'"
    and "validPath (EPath e) = Inr ()"
  shows "untouched s0 r s'"
proof -
  have "same_except (at_or_below r (components (temp_name (EPath e) nonce))) s s'"
    using assms(2) by (simp add: unlinked_def)
  then have "same_except (scratch r) s s'"
    by (rule same_except_mono) (use scratch_below assms(3) in blast)
  with assms(1) show ?thesis
    by (auto simp: some_staged_def staged_def untouched_def intro: same_except_trans)
qed

lemma fsh_create:
  assumes "validPath (EPath e) = Inr ()"
  shows "fsh (untouched s0 r) (Root_CreateExcl r (components (temp_name (EPath e) nonce)) m)
    (\<lambda>h s. \<exists>i. h = HFile i \<and> staged s0 r (components (temp_name (EPath e) nonce)) i [] s) (untouched s0 r)"
proof (rule fsh_sys)
  let ?t = "components (temp_name (EPath e) nonce)"
  have below: "same_except (at_or_below r ?t) s s' \<Longrightarrow> same_except (scratch r) s s'" for s s'
    by (erule same_except_mono) (use scratch_below assms in blast)
  fix s assume s: "untouched s0 r s"
  obtain res s' where cr: "fs_create_excl r ?t m s = (res, s')" by fastforce
  show "case fs_create_excl r ?t m s of (Inl er, s') \<Rightarrow> untouched s0 r s'
    | (Inr h, s') \<Rightarrow> \<exists>i. h = HFile i \<and> staged s0 r ?t i [] s'"
  proof (cases res)
    case (Inl er)
    with create_excl_same [of r ?t s m] cr s show ?thesis
      by (auto intro: untouched_trans below)
  next
    case (Inr h)
    note cf = create_excl_Inr [OF cr [unfolded Inr]]
    have "same_except (scratch r) s0 s'"
      using s below [OF cf(5)] by (auto simp: untouched_def intro: same_except_trans)
    moreover have "next_inode s0 \<le> next_inode s" using s by (simp add: untouched_def same_except_def)
    ultimately show ?thesis using cf s cr Inr by (simp add: staged_def untouched_def)
  qed
qed

lemma fsh_install:
  assumes "ValidateEntry e = Inr ()" "EKind e \<noteq> ''directory''" "fetch_steady fetch"
  shows "fsh (untouched s0 r) (apply_install root r folder e fetch old) (\<lambda>_. placed s0 r e)
    (\<lambda>s. untouched s0 r s \<or> placed s0 r e s)"
proof -
  let ?E = "\<lambda>s. untouched s0 r s \<or> placed s0 r e s"
  have valid: "validPath (EPath e) = Inr ()"
    using assms(1) by (auto simp: ValidateEntry_def split: sum.splits)
  have parents: "fsh (untouched s0 r) (ensureParents r (EPath e)) (\<lambda>_. untouched s0 r) ?E"
    by (rule fsh_conseq [OF fsh_keep [OF same.ensureParents_within [of "scratch r"], of "untouched s0 r"]])
       (auto intro: untouched_trans)
  have random: "fsh (untouched s0 r) rand_Read (\<lambda>_. untouched s0 r) ?E"
    by (rule fsh_unchanged [OF unchanged.random]) simp
  have create: "fsh (untouched s0 r) (Root_CreateExcl r (components (temp_name (EPath e) nonce)) 384)
     (\<lambda>h s. \<exists>i. h = HFile i \<and> staged s0 r (components (temp_name (EPath e) nonce)) i [] s) ?E" for nonce
    by (rule fsh_conseq [OF fsh_create [OF valid]]) auto
  have body: "fsh (\<lambda>s. \<exists>i. h = HFile i \<and> staged s0 r (components (temp_name (EPath e) nonce)) i [] s)
     (deferring (discard_temp r (temp_name (EPath e) nonce) h)
       (apply_staged root r folder e fetch old (temp_name (EPath e) nonce) h)) (\<lambda>_. placed s0 r e) ?E"
    for h nonce
  proof (cases h)
    case (HFile i)
    have "fsh (staged s0 r (components (temp_name (EPath e) nonce)) i [])
      (deferring (discard_temp r (temp_name (EPath e) nonce) h)
        (apply_staged root r folder e fetch old (temp_name (EPath e) nonce) h)) (\<lambda>_. placed s0 r e) ?E"
      unfolding HFile
      by (rule fsh_deferring [OF fsh_staged [OF assms] discard_temp_within preorder_unlinked])
         (auto simp: staged_or_placed_def intro: placed_unlinked [OF _ _ valid] staged_unlinked [OF _ _ valid])
    then show ?thesis by (simp add: HFile)
  qed (simp_all add: fsh_def)
  show ?thesis
    unfolding apply_install_def
    by (intro fsh_bind [OF parents] fsh_bind [OF random] fsh_bind [OF create] body)
qed

section \<open>Everything before the temporary file\<close>

text \<open>What the index said about the path, and what the path showed: only a file the index describes,
  or a path of which neither knows, may be written.\<close>

definition approved :: "string \<Rightarrow> nat \<Rightarrow> Entry \<Rightarrow> database \<Rightarrow> fsys \<Rightarrow> bool" where
  "approved folder r e d s \<longleftrightarrow>
     (case lookup_node (trees s r) (components (EPath e)) of
        Inl err \<Rightarrow> select_manifest d folder (EPath e) = None
      | Inr (File i) \<Rightarrow>
          (case select_manifest d folder (EPath e) of
             None \<Rightarrow> False
           | Some raw \<Rightarrow> (case json_Unmarshal raw of
               None \<Rightarrow> False
             | Some ix \<Rightarrow> EKind ix = ''file'' \<and> EHash ix = hashBytes (idata (inodes s i))))
      | Inr _ \<Rightarrow> False)"

definition outcome :: "string \<Rightarrow> nat \<Rightarrow> Entry \<Rightarrow> database \<Rightarrow> fsys \<Rightarrow> world \<Rightarrow> bool" where
  "outcome folder r e d s w' \<longleftrightarrow> calm w' \<and>
     (untouched s r (wfs w') \<or> placed s r e (wfs w') \<and> approved folder r e d s)"

lemma check_not_indexed_Inr:
  assumes "check_not_indexed folder name w = (Inr u, w')" "at_state s d w"
  shows "select_manifest d folder name = None"
proof -
  obtain r w1 where get: "store_get folder name w = (r, w1)" by fastforce
  with assms(1) obtain err where "r = Inl err" "errors_Is err NoRows"
    by (cases r) (auto simp: check_not_indexed_def run_bind run_attempt split: if_splits)
  with get store_get_NoRows assms(2) show ?thesis by (auto simp: at_state_def)
qed

lemma wp_fsh: "fsh P m Q E \<Longrightarrow> calm w \<Longrightarrow> P (wfs w) \<Longrightarrow>
    wp m (\<lambda>x w'. calm w' \<and> Q x (wfs w')) (\<lambda>e w'. calm w' \<and> E (wfs w')) w"
  by (simp add: fsh_def)

lemma outcome_refl: "at_state s d w \<Longrightarrow> fs_wf s \<Longrightarrow> outcome folder r e d s w"
  by (simp add: outcome_def at_state_def untouched_def)

lemma wp_install:
  assumes "ValidateEntry e = Inr ()" "EKind e \<noteq> ''directory''" "fetch_steady fetch"
    "at_state s d w" "fs_wf s" "approved folder r e d s"
  shows "wp (apply_install root r folder e fetch old)
    (\<lambda>_ w'. outcome folder r e d s w' \<and> installed r e (wfs w')) (\<lambda>_. outcome folder r e d s) w"
  by (rule wp_conseq [OF wp_fsh [OF fsh_install [OF assms(1,2,3)], of w s]])
     (use assms in \<open>auto simp: outcome_def at_state_def untouched_def placed_def\<close>)

text \<open>Two layouts of the same blocks have the same size.\<close>

lemma check_layout_size:
  assumes "check_layout esize off bs = Inr ()" "off \<le> esize"
    "int (length bs) = (esize - off + BlockSize - 1) div BlockSize"
  shows "(\<Sum>b\<leftarrow>bs. BSize b) = esize - off"
  using assms
proof (induction bs arbitrary: off)
  case Nil
  have "esize - off + BlockSize - 1 < BlockSize"
    using Nil.prems(2,3) zdiv_eq_0_iff [of "esize - off + BlockSize - 1" BlockSize]
    by (auto simp: BlockSize_def)
  with Nil show ?case by simp
next
  case (Cons b bs)
  define k where "k = min BlockSize (esize - off)"
  have b: "BSize b = k" and rest: "check_layout esize (off + k) bs = Inr ()"
    using Cons.prems(1) by (auto simp: k_def Let_def split: if_splits)
  have "off < esize"
  proof (rule ccontr)
    assume "\<not> off < esize"
    then have "(esize - off + BlockSize - 1) div BlockSize = 0"
      using Cons.prems(2) by (simp add: div_pos_pos_trivial)
    with Cons.prems(3) show False by simp
  qed
  then have k: "0 < k" "k \<le> BlockSize" "off + k \<le> esize" "k = BlockSize \<or> esize - (off + k) = 0"
    by (auto simp: k_def min_def)
  have "int (length bs) = (esize - (off + k) + BlockSize - 1) div BlockSize"
    using Cons.prems(3) ceil_div_step [of BlockSize k "esize - (off + k)"] k by simp
  with Cons.IH [OF rest k(3)] b show ?case by simp
qed

lemma same_content_entry:
  assumes "ValidateEntry e = Inr ()" "EKind e \<noteq> ''directory''"
    "EHash (entry_of name m c) = EHash e" "EBlocks (entry_of name m c) = EBlocks e"
  shows "entry_of (EPath e) (EMode e) c = e"
proof -
  have v: "EKind e = ''file''" "0 \<le> ESize e" "check_layout (ESize e) 0 (EBlocks e) = Inr ()"
    "int (length (EBlocks e)) = (ESize e - 0 + BlockSize - 1) div BlockSize"
    using assms(1,2) by (auto simp: ValidateEntry_def split: sum.splits if_splits)
  have "int (length c) - 0 = ESize e - 0"
    using check_layout_size [OF v(3,2,4)] check_layout_size [of "int (length c)" 0 "blocks_from 0 c"]
      check_layout_blocks_from [of 0 c] length_blocks_from [of 0 c] assms(4)
    by (simp add: entry_of_def)
  with v(1) assms(3,4) show ?thesis by (cases e) (simp add: entry_of_def)
qed

lemma put_fs: "preorder_rel K \<Longrightarrow> within (fs_rel K) (store_put folder e)"
  unfolding store_put_def by (intro within_exec_fs)

lemma fs_open_Inr:
  assumes "fs_open r p s = (Inr h, s')"
  shows "s' = s \<and> (\<forall>i. file_ino (trees s r) p = Some i \<longrightarrow> h = HFile i)"
  using assms by (auto simp: fs_open_def file_ino_def split: sum.splits node.splits)

lemma untouched_outcome:
  assumes "at_state s d w" "fs_wf s" "within (fs_rel (same_except (scratch r))) m"
    and "\<And>x w'. m w = (Inr x, w') \<Longrightarrow> calm w' \<Longrightarrow> untouched s r (wfs w') \<Longrightarrow> P x w'"
  shows "wp m (\<lambda>x w'. outcome folder r e d s w' \<and> P x w') (\<lambda>_. outcome folder r e d s) w"
proof -
  obtain res w' where m: "m w = (res, w')" by fastforce
  have "calm w" "wfs w = s" using assms(1) by (auto simp: at_state_def)
  with fs_rel_calm [OF assms(3) preorder_same_except _ m] assms(2)
  have "calm w'" "untouched s r (wfs w')" by (auto simp: untouched_def)
  with m assms(4) show ?thesis by (cases res) (auto simp: wp_def outcome_def)
qed

lemma wp_same_content:
  assumes "ValidateEntry e = Inr ()" "EKind e \<noteq> ''directory''" "at_state s d w" "fs_wf s"
    and c: "content s r (components (EPath e)) = Some c"
    and current: "current = entry_of (EPath e) m c" "EHash current = EHash e"
  shows "wp (apply_same_content r folder e current)
    (\<lambda>_ w'. outcome folder r e d s w' \<and> installed r e (wfs w')) (\<lambda>_. outcome folder r e d s) w"
proof (rule untouched_outcome [OF assms(3,4)])
  show "within (fs_rel (same_except (scratch r))) (apply_same_content r folder e current)"
    unfolding apply_same_content_def by (intro same.reads same.chmod put_fs preorder_same_except)
next
  fix x w'
  assume run: "apply_same_content r folder e current w = (Inr x, w')" and wf': "untouched s r (wfs w')"
  obtain i where i: "file_ino (trees s r) (components (EPath e)) = Some i" "idata (inodes s i) = c"
    using c by (auto simp: content_def)
  from run obtain u0 wa h w1 err w2 cerr w3 u4 w4 u5 w5 u6 w6 where
    bl: "fail_if (EBlocks current \<noteq> EBlocks e) (Errorf ''blocks do not match file checksum'' []) w = (Inr u0, wa)" and
    op: "Root_Open r (components (EPath e)) wa = (Inr h, w1)" and
    ch: "attempt (File_Chmod h (EMode e)) w1 = (Inr err, w2)" and
    cl: "attempt (File_Close h) w2 = (Inr cerr, w3)" and
    er: "lift_sum err w3 = (Inr u4, w4)" "lift_sum cerr w4 = (Inr u5, w5)" and
    st: "set_stats (\<lambda>s. s\<lparr>BytesReused := ESize e\<rparr>) w5 = (Inr u6, w6)" and
    put: "store_put folder e w6 = (Inr x, w')"
    unfolding apply_same_content_def by (elim bind_eq_InrE)
  have wa: "calm wa" "wfs wa = s" and bl: "EBlocks current = EBlocks e"
    using assms(3) bl by (auto simp: at_state_def fail_if_Inr)
  note w1 = sys_calm [OF wa(1) op]
  have h: "h = HFile i" using w1 wa(2) i fs_open_Inr by metis
  have "File_Chmod h (EMode e) w1 = (Inr u4, w2)"
    using ch er(1) by (simp add: attempt_Inr lift_sum_Inr)
  note w2 = sys_calm [OF conjunct1 [OF w1] this]
  have w5: "w5 = w3" using er by (simp add: lift_sum_Inr)
  have "calm w3 \<and> wfs w3 = wfs w2"
    using fs_rel_calm [OF within_attempt [OF unchanged.sync] _ _ cl] w2 by simp
  then have "calm w6 \<and> wfs w6 = wfs w2" using st w5 by (auto simp: set_stats_def)
  then have "wfs w' = wfs w2"
    using fs_rel_calm [OF put_fs _ _ put, of "\<lambda>s s'. s' = s"] by simp
  moreover have "wfs w2 = snd (fs_chmod h (EMode e) s)"
    using w2 w1 fs_open_Inr wa(2) by (metis snd_conv)
  moreover have "entry_of (EPath e) (EMode e) c = e"
    using same_content_entry [OF assms(1,2)] current bl by simp
  ultimately show "installed r e (wfs w')"
    using i h by (simp add: installed_def fs_chmod_def set_inode_def)
qed


section \<open>Apply\<close>

abbreviation file_post :: "string \<Rightarrow> nat \<Rightarrow> Entry \<Rightarrow> database \<Rightarrow> fsys \<Rightarrow> 'a \<Rightarrow> world \<Rightarrow> bool" where
  "file_post folder r e d s \<equiv> \<lambda>_ w'. outcome folder r e d s w' \<and> installed r e (wfs w')"

lemma content_lookup: "content s r p = Some c \<Longrightarrow> \<exists>i. lookup_node (trees s r) p = Inr (File i) \<and> idata (inodes s i) = c"
  by (auto simp: content_def file_ino_def split: sum.splits node.splits)

lemma wp_file_existing:
  assumes e: "ValidateEntry e = Inr ()" "EKind e \<noteq> ''directory''" and fetch: "fetch_steady fetch"
    and w: "at_state s d w" and wf: "fs_wf s"
  shows "wp (apply_file root r folder e fetch (Some i)) (file_post folder r e d s) (\<lambda>_. outcome folder r e d s) w"
proof -
  note E = outcome_refl [OF _ wf]
  have other: "wp (bind (attempt (store_get folder (EPath e))) (\<lambda>indexed.
            bind (fail_if (case indexed of
                             Inl err \<Rightarrow> errors_Is err NoRows
                           | Inr ix \<Rightarrow> EKind ix \<noteq> ''file'' \<or> EHash ix \<noteq> EHash current)
                    (LocalChange (EPath e))) (\<lambda>_.
            bind (lift_sum indexed) (\<lambda>_.
            bind (Root_Open r (components (EPath e))) (\<lambda>old.
            apply_install root r folder e fetch (Some (old, current)))))))
       (file_post folder r e d s) (\<lambda>_. outcome folder r e d s) w2"
    if w2: "at_state s d w2" and c: "content s r (components (EPath e)) = Some c"
      "EHash current = hashBytes c" for w2 c current
  proof (rule wp_bind_steady [OF steady_attempt [OF steady.store_get_within] w2 E])
    fix indexed w3
    assume get: "attempt (store_get folder (EPath e)) w2 = (Inr indexed, w3)" and w3: "at_state s d w3"
    show "wp (bind (fail_if (case indexed of
                             Inl err \<Rightarrow> errors_Is err NoRows
                           | Inr ix \<Rightarrow> EKind ix \<noteq> ''file'' \<or> EHash ix \<noteq> EHash current)
                    (LocalChange (EPath e))) (\<lambda>_.
            bind (lift_sum indexed) (\<lambda>_.
            bind (Root_Open r (components (EPath e))) (\<lambda>old.
            apply_install root r folder e fetch (Some (old, current))))))
       (file_post folder r e d s) (\<lambda>_. outcome folder r e d s) w3"
    proof (cases indexed)
      case (Inl err)
      then show ?thesis using w3 by (simp add: wp_simps E)
    next
      case (Inr ix)
      obtain raw where ix: "select_manifest d folder (EPath e) = Some raw" "json_Unmarshal raw = Some ix"
        using get store_get_Inr [of folder "EPath e" w2 ix w3] w2 Inr
        by (auto simp: attempt_Inr at_state_def)
      have "approved folder r e d s" if "EKind ix = ''file''" "EHash ix = EHash current"
        using ix that c content_lookup [OF c(1)] by (auto simp: approved_def)
      then show ?thesis
        unfolding Inr wp_simps sum.case
        using w3 E by (auto intro!: wp_steady [OF steady.open_at w3] wp_install [OF e fetch _ wf])
    qed
  qed
  show ?thesis
    unfolding apply_file_def option.case
  proof (rule wp_bind_steady [OF steady_fail_if w], erule E, rule wp_bind_steady [OF steady.fingerprint_within],
      assumption, erule E)
    fix w1 current w2
    assume fp: "fingerprint r (EPath e) w1 = (Inr current, w2)" and w1: "at_state s d w1" and w2: "at_state s d w2"
    have calm: "calm w1" "wfs w1 = s" using w1 by (auto simp: at_state_def)
    from fingerprint_calm [OF fp calm(1)] calm(2) obtain i where
      "file_ino (trees s r) (components (EPath e)) = Some i"
      "current = entry_of (EPath e) (imode (inodes s i) AND 511) (idata (inodes s i))" by metis
    then obtain c m where
      c: "content s r (components (EPath e)) = Some c" "current = entry_of (EPath e) (m AND 511) c"
      by (auto simp: content_def)
    then have h: "EHash current = hashBytes c" by (simp add: entry_of_def)
    show "wp (if EHash current = EHash e then apply_same_content r folder e current
          else bind (attempt (store_get folder (EPath e))) (\<lambda>indexed.
            bind (fail_if (case indexed of
                             Inl err \<Rightarrow> errors_Is err NoRows
                           | Inr ix \<Rightarrow> EKind ix \<noteq> ''file'' \<or> EHash ix \<noteq> EHash current)
                    (LocalChange (EPath e))) (\<lambda>_.
            bind (lift_sum indexed) (\<lambda>_.
            bind (Root_Open r (components (EPath e))) (\<lambda>old.
            apply_install root r folder e fetch (Some (old, current)))))))
        (file_post folder r e d s) (\<lambda>_. outcome folder r e d s) w2"
      using other [OF w2 c(1) h] wp_same_content [OF e w2 wf c] by (cases "EHash current = EHash e") simp_all
  qed
qed

lemma wp_file_missing:
  assumes e: "ValidateEntry e = Inr ()" "EKind e \<noteq> ''directory''" and fetch: "fetch_steady fetch"
    and w: "at_state s d w" and wf: "fs_wf s" and none: "lookup_node (trees s r) (components (EPath e)) = Inl err"
  shows "wp (apply_file root r folder e fetch None) (file_post folder r e d s) (\<lambda>_. outcome folder r e d s) w"
  unfolding apply_file_def option.case
proof (rule wp_bind_steady [OF steady.check_not_indexed_within w outcome_refl [OF _ wf]])
  fix u w1
  assume chk: "check_not_indexed folder (EPath e) w = (Inr u, w1)" and w1: "at_state s d w1"
  have "approved folder r e d s"
    using check_not_indexed_Inr [OF chk w] none by (simp add: approved_def)
  with w1 show "wp (apply_install root r folder e fetch None) (file_post folder r e d s) (\<lambda>_. outcome folder r e d s) w1"
    by (intro wp_install [OF e fetch _ wf])
qed


text \<open>Directories: no file is touched, and the directory is there.\<close>

lemma mkdir_all_existing:
  "is_dir_at (trees s r) (pre @ p) \<Longrightarrow> fs_mkdir_all r pre p m s = (Inr (), s)"
proof (induction p arbitrary: pre)
  case (Cons a p)
  have "is_dir_at (trees s r) (pre @ [a])"
  proof (cases p)
    case Nil
    with Cons.prems show ?thesis by simp
  next
    case (Cons b q)
    with \<open>is_dir_at (trees s r) (pre @ a # p)\<close> show ?thesis
      using lookup_node_parent_dir [of "trees s r" "pre @ [a]" b q]
      by (auto simp: is_dir_at_def split: sum.splits)
  qed
  then obtain m' es where "lookup_node (trees s r) (pre @ [a]) = Inr (Dir m' es)"
    by (auto simp: is_dir_at_def split: sum.splits node.splits)
  with Cons.IH [of "pre @ [a]"] Cons.prems show ?case by simp
qed simp

lemma wp_directory:
  assumes w: "at_state s d w" and wf: "fs_wf s"
  shows "wp (apply_directory r folder e info)
     (\<lambda>_. outcome folder r e d s) (\<lambda>_. outcome folder r e d s) w"
  by (rule wp_conseq [OF untouched_outcome [OF w wf, where P = "\<lambda>_ _. True"]])
     (auto simp: apply_directory_def intro!: same.reads same.check_not_indexed_within
       same.ensureParents_within same.mkdir same.syncDir_within put_fs)

text \<open>All of \<open>Apply\<close> on a folder whose root is the tree \<open>r\<close>.\<close>

definition apply_post :: "string \<Rightarrow> nat \<Rightarrow> Entry \<Rightarrow> database \<Rightarrow> fsys \<Rightarrow> world \<Rightarrow> bool" where
  "apply_post folder r e d s w' \<longleftrightarrow> outcome folder r e d s w' \<and>
     (EKind e \<noteq> ''directory'' \<longrightarrow> installed r e (wfs w'))"

lemma Apply_wp:
  assumes fetch: "fetch_steady fetch" and w: "at_state s d w" and wf: "fs_wf s" and root: "mounts s root = Some r"
  shows "wp (Apply folder root e fetch) (\<lambda>_. apply_post folder r e d s) (\<lambda>_. outcome folder r e d s) w"
  unfolding Apply_def
proof (rule wp_bind_steady [OF steady.counted w], goal_cases)
  case 1
  then show ?case by (rule outcome_refl [OF _ wf])
next
  case (2 u w1)
  note E = outcome_refl [OF _ wf]
  show ?case
  proof (rule wp_bind_steady [OF steady_lift_sum 2(2) E], assumption,
      rule wp_bind_steady [OF within_ctx_Err [OF steady.pre] _ E], assumption, assumption,
      rule wp_bind_steady [OF steady.checkCapacity_within _ E], assumption, assumption,
      rule wp_bind_steady [OF steady.openFolder_within _ E], assumption, assumption)
    fix u1 w2 r' w5 w6
    assume "lift_sum (ValidateEntry e) w1 = (Inr u1, w2)"
      and op: "openFolder root folder w5 = (Inr r', w6)" and w5: "at_state s d w5" and w6: "at_state s d w6"
    then have v: "ValidateEntry e = Inr ()" by (simp add: lift_sum_Inr)
    have r': "r' = r" using openFolder_Inr [OF op w5] root by simp
    show "wp (bind (checkComponents r' (EPath e) True) (\<lambda>_.
       bind (attempt (Root_Lstat r' (components (EPath e)))) (\<lambda>stat.
       bind (case stat of
               Inl err \<Rightarrow> (if \<not> errors_Is err NotExist then throw err else return None)
             | Inr info \<Rightarrow> return (Some info)) (\<lambda>info.
       if EKind e = ''directory'' then apply_directory r' folder e info
       else apply_file root r' folder e fetch info))))
       (\<lambda>_. apply_post folder r e d s) (\<lambda>_. outcome folder r e d s) w6"
    proof (rule wp_bind_steady [OF steady.checkComponents_within w6], erule E,
        rule wp_bind_steady [OF steady_attempt [OF steady.lstat]], assumption, erule E)
      fix stat w7 w8
      assume ls: "attempt (Root_Lstat r' (components (EPath e))) w7 = (Inr stat, w8)"
        and w7: "at_state s d w7" and w8: "at_state s d w8"
      have dir: "wp (apply_directory r folder e info) (\<lambda>_. apply_post folder r e d s) (\<lambda>_. outcome folder r e d s) w8"
        if "EKind e = ''directory''" for info
        using that by (intro wp_conseq [OF wp_directory [OF w8 wf]]) (auto simp: apply_post_def)
      have existing: "wp (apply_file root r folder e fetch (Some i)) (\<lambda>_. apply_post folder r e d s) (\<lambda>_. outcome folder r e d s) w8"
        if "EKind e \<noteq> ''directory''" for i
        by (intro wp_conseq [OF wp_file_existing [OF v that fetch w8 wf]]) (auto simp: apply_post_def)
      have missing: "wp (apply_file root r folder e fetch None) (\<lambda>_. apply_post folder r e d s) (\<lambda>_. outcome folder r e d s) w8"
        if "EKind e \<noteq> ''directory''" "lookup_node (trees s r) (components (EPath e)) = Inl er" for er
        by (intro wp_conseq [OF wp_file_missing [OF v that(1) fetch w8 wf that(2)]]) (auto simp: apply_post_def)
      show "wp (bind (case stat of
               Inl err \<Rightarrow> (if \<not> errors_Is err NotExist then throw err else return None)
             | Inr info \<Rightarrow> return (Some info)) (\<lambda>info.
          if EKind e = ''directory'' then apply_directory r' folder e info
          else apply_file root r' folder e fetch info))
        (\<lambda>_. apply_post folder r e d s) (\<lambda>_. outcome folder r e d s) w8"
      proof (cases stat)
        case (Inr i)
        then show ?thesis using dir existing by (simp add: wp_simps r')
      next
        case (Inl err)
        show ?thesis
        proof (cases "errors_Is err NotExist")
          case False
          then show ?thesis using Inl E w8 by (simp add: wp_simps)
        next
          case True
          obtain er where "lookup_node (trees s r) (components (EPath e)) = Inl er"
            using lstat_missing [of r _ w7 err w8 s d] ls Inl True w7 by (auto simp: attempt_Inr r')
          with True Inl show ?thesis using dir missing by (simp add: wp_simps r')
        qed
      qed
    qed
  qed
qed

section \<open>The index stays good\<close>

lemma Apply_index_ok:
  assumes run: "Apply f root e fetch w = (res, w')" and ok: "index_ok (wdb w)"
    and fetch: "\<And>g b. fetch = Some g \<Longrightarrow> within same_index (g b)"
  shows "index_ok (wdb w')"
proof (cases res)
  case (Inl err)
  have "stores f e (Apply f root e fetch)" by (rule stores_Apply) (rule fetch)
  from commits_Inl [OF this] run ok Inl show ?thesis by metis
next
  case (Inr u)
  then have "valid_entry e"
    using run unfolding Apply_def by (auto elim!: bind_eq_InrE simp: lift_sum_Inr valid_entry_def)
  moreover have "stores f e (Apply f root e fetch)" by (rule stores_Apply) (rule fetch)
  then have "upsert_row f (EPath e) (json_Marshal e) (wdb w) = Inr (wdb w')"
    using commits_Inr run Inr by metis
  ultimately show ?thesis using upsert_row_ok ok by blast
qed

end
