(* ===== verification/Peer.thy ===== *)
theory Peer
  imports Conversation Install
begin

text \<open>
  What \<^verbatim>\<open>internal/transport/transport.go\<close> does with a peer that sends anything: errors of the backend
  stay in this process, blocks are verified before they are used, a failed session is not used
  again, both loops end, and no frame makes this side allocate more than its limit.
\<close>

section \<open>What leaves the machine when the backend fails\<close>

text \<open>Two computations that differ at most in the error they end with.\<close>

definition same_but_errors :: "('s, 'a) io \<Rightarrow> ('s, 'a) io \<Rightarrow> bool" where
  "same_but_errors m n \<longleftrightarrow> (\<forall>w. snd (m w) = snd (n w) \<and> (\<forall>x. fst (m w) = Inr x \<longleftrightarrow> fst (n w) = Inr x))"

lemma same_but_errors_attempt:
  assumes "same_but_errors m n" "\<And>e e'. f (Inl e) = f (Inl e')"
  shows "bind (attempt m) f = bind (attempt n) f"
proof
  fix w
  obtain r w1 where m: "m w = (r, w1)" by fastforce
  obtain r' w2 where n: "n w = (r', w2)" by fastforce
  from assms(1) [unfolded same_but_errors_def, rule_format, of w] m n
  have w: "w2 = w1" and x: "\<And>x. r = Inr x \<longleftrightarrow> r' = Inr x" by simp_all
  have "f r = f r'"
  proof (cases r)
    case (Inl e)
    with x obtain e' where "r' = Inl e'" by (cases r') auto
    with Inl assms(2) [of e e'] show ?thesis by simp
  next
    case (Inr y)
    with x have "r' = Inr y" by blast
    with Inr show ?thesis by simp
  qed
  with m n w show "bind (attempt m) f w = bind (attempt n) f w" by (simp add: run_bind run_attempt)
qed

definition backends_alike :: "Backend \<Rightarrow> Backend \<Rightarrow> bool" where
  "backends_alike b b' \<longleftrightarrow>
     (\<forall>p f. same_but_errors (backend_List b p f) (backend_List b' p f)) \<and>
     (\<forall>p f n h k. same_but_errors (backend_ReadBlock b p f n h k) (backend_ReadBlock b' p f n h k))"

lemma handleRequest_alike:
  assumes "backends_alike b b'"
  shows "handleRequest b peer request = handleRequest b' peer request"
proof -
  have l: "handle_list b peer request = handle_list b' peer request"
    unfolding handle_list_def
    by (rule same_but_errors_attempt) (use assms in \<open>simp_all add: backends_alike_def sendError_def\<close>)
  have "bind (attempt (backend_ReadBlock b peer (MFolder request) (MPath request) (MHash request) k)) f
      = bind (attempt (backend_ReadBlock b' peer (MFolder request) (MPath request) (MHash request) k)) f"
    if "\<And>e e'. f (Inl e) = f (Inl e')" for k and f :: "error + bytes \<Rightarrow> (world, unit) io"
    by (rule same_but_errors_attempt) (use assms that in \<open>simp_all add: backends_alike_def\<close>)
  then have "handle_block b peer request = handle_block b' peer request"
    unfolding handle_block_def by (simp add: sendError_def split: option.split)
  with l show ?thesis unfolding handleRequest_def by simp
qed

lemma serve_requests_alike:
  assumes "backends_alike b b'"
  shows "serve_requests n b peer = serve_requests n b' peer"
  by (induction n) (simp_all add: handleRequest_alike [OF assms])

text \<open>C22. The text of a backend error never reaches a peer: connections of two backends that differ
  only in the errors they return run the same, byte for byte.\<close>

theorem backend_errors_hidden:
  assumes "backends_alike b b'"
  shows "serveConn cfg b = serveConn cfg b'"
  unfolding serveConn_def by (simp add: serve_requests_alike [OF assms] cong: list.case_cong)

definition denying :: "error \<Rightarrow> Backend" where
  "denying err = \<lparr>backend_List = (\<lambda>_ _. throw err), backend_ReadBlock = (\<lambda>_ _ _ _ _. throw err)\<rparr>"

definition demo_cfg :: tls_Config where
  "demo_cfg = \<lparr>MinVersion = 772, OwnCertificate = \<lparr>Raw = ''c'', PublicKeyAlgorithm = Ed25519, NotBefore = 0,
     NotAfter = 10, KeyUsage = 1, SelfSigned = True\<rparr>, ClientAuth = RequireAnyClientCert, InsecureSkipVerify = True,
     VerifyConnection = Some (\<lambda>t chain. Inr ()), TrustedChain = (\<lambda>_. False)\<rparr>"

theorem backend_errors_hidden_witness:
  "serveConn demo_cfg (denying NotExist) = serveConn demo_cfg (denying (IOError ''/secret/path''))"
  by (rule backend_errors_hidden) (simp add: backends_alike_def same_but_errors_def denying_def)

section \<open>What the client takes from a peer\<close>

lemma client_operation_Inr:
  assumes "client_operation fn w = (Inr x, w')"
  obtains w1 where "fn w1 = (Inr x, w')" "\<not> ctx_done w'"
proof -
  obtain d w1 where d: "Conn_SetDeadline w = (d, w1)" by fastforce
  obtain r w2 where r: "fn w1 = (r, w2)" by fastforce
  have "fn w1 = (Inr x, w') \<and> \<not> ctx_done w'"
    using assms d r
    by (auto simp: client_operation_def run_bind run_attempt ctx_Err_def set_wire_def split: sum.splits if_splits)
  with that show thesis by blast
qed

lemma client_ReadBlock_checked:
  assumes "client_ReadBlock folder name h b w = (Inr data, w')"
  shows "int (length data) = BSize b \<and> hashBytes data = BHash b \<and> 0 < BSize b \<and> BSize b \<le> BlockSize"
proof -
  from assms have b: "0 < BSize b" "BSize b \<le> BlockSize"
    by (auto simp: client_ReadBlock_def run_bind run_fail_if split: if_splits)
  from assms b obtain fn where "client_operation fn w = (Inr data, w')" and
    fn: "\<And>w1 w2. fn w1 = (Inr data, w2) \<Longrightarrow> int (length data) = BSize b \<and> hashBytes data = BHash b"
  proof -
    show ?thesis
      by (rule that, use assms b in \<open>simp add: client_ReadBlock_def run_bind run_fail_if split: if_splits\<close>)
         (auto elim!: bind_eq_InrE simp: fail_if_Inr)
  qed
  then show ?thesis using b by (metis client_operation_Inr)
qed

lemma client_operation_within:
  assumes "preorder_rel R" "within R fn" "\<And>f :: wire \<Rightarrow> (error + unit) \<times> wire. within R (net f)" "\<And>f. within R (set_wire f)"
  shows "within R (client_operation fn)"
  unfolding client_operation_def by (intro within_intros assms)

lemma writeFrame_within:
  assumes "preorder_rel R" "\<And>p. within R (Writer_Write p)"
  shows "within R (writeFrame d limit)"
  unfolding writeFrame_def by (intro within_intros assms)

lemma readFrame_within:
  assumes "preorder_rel R" "\<And>f :: wire \<Rightarrow> (error + bytes) \<times> wire. within R (net f)"
  shows "within R (readFrame limit)"
  unfolding readFrame_def by (intro within_intros assms)

lemma client_ReadBlock_within:
  assumes "preorder_rel R" "\<And>p. within R (Writer_Write p)" "within R Writer_Flush"
    "\<And>f :: wire \<Rightarrow> (error + bytes) \<times> wire. within R (net f)"
    "\<And>f :: wire \<Rightarrow> (error + unit) \<times> wire. within R (net f)" "\<And>f. within R (set_wire f)"
  shows "within R (client_ReadBlock folder name h b)"
  unfolding client_ReadBlock_def wire_send_def wire_write_def wire_read_def
  by (intro within_intros client_operation_within writeFrame_within readFrame_within assms)

text \<open>The block fetcher of a replica: it touches neither the file system nor the index.\<close>

lemma client_fetch_steady: "fetch_steady (Some (client_ReadBlock folder name h))"
  unfolding fetch_steady_def
  by (auto intro!: client_ReadBlock_within within_net_fs within_wire_fs within_write_fs within_flush_fs
      within_net_db within_wire_db within_write_db within_flush_db)

section \<open>A failed session is not used again\<close>

lemma client_operation_Inl:
  assumes "client_operation fn w = (Inl err, w')"
  shows "shut (conn w') \<or> w' = w"
proof -
  obtain d w1 where d: "Conn_SetDeadline w = (d, w1)" by fastforce
  obtain r w2 where r: "fn w1 = (r, w2)" by fastforce
  show ?thesis
    using assms d r
    by (auto simp: client_operation_def run_bind run_attempt ctx_Err_def set_wire_def split: sum.splits if_splits)
qed

lemma net_shut:
  assumes "shut (conn w)" "net f w = (r, w')"
  shows "conn w' = conn w \<and> (\<exists>err. r = Inl err)"
  using assms by (auto simp: net_def split: prod.splits option.splits)

lemma client_operation_shut:
  assumes "shut (conn w)"
  shows "\<exists>err w'. client_operation fn w = (Inl err, w') \<and> conn w' = conn w"
proof -
  obtain d w1 where d: "Conn_SetDeadline w = (d, w1)" by fastforce
  from net_shut [OF assms d] obtain err where "d = Inl err" "conn w1 = conn w" by blast
  moreover from this assms have "(conn w1)\<lparr>shut := True\<rparr> = conn w1" by simp
  ultimately show ?thesis
    using d by (auto simp: client_operation_def run_bind run_attempt ctx_Err_def set_wire_def)
qed

text \<open>The two operations of a client, as requests.\<close>

datatype client_request = ListRequest string | BlockRequest string string string Block

fun client_run :: "client_request \<Rightarrow> (world, Entry list + bytes) io" where
  "client_run (ListRequest folder) = bind (client_List folder) (\<lambda>es. return (Inl es))"
| "client_run (BlockRequest folder name h b) = bind (client_ReadBlock folder name h b) (\<lambda>d. return (Inr d))"

text \<open>C18. After a client operation that failed once it had used the connection, every later operation
  on that client fails and neither sends nor receives a byte.\<close>

theorem failed_session_unused:
  assumes "client_run r w = (Inl err, w')" "conn w' \<noteq> conn w" "conn w2 = conn w'"
  shows "\<exists>err' w3. client_run r' w2 = (Inl err', w3) \<and> conn w3 = conn w2"
proof -
  have "shut (conn w')"
  proof (cases r)
    case (ListRequest folder)
    obtain res w1 where l: "client_List folder w = (res, w1)" by fastforce
    with ListRequest assms(1) have "res = Inl err" "w1 = w'" by (auto simp: run_bind split: sum.splits)
    with l client_operation_Inl assms(2) show ?thesis unfolding client_List_def by metis
  next
    case (BlockRequest folder name h b)
    obtain res w1 where l: "client_ReadBlock folder name h b w = (res, w1)" by fastforce
    with BlockRequest assms(1) have res: "res = Inl err" "w1 = w'" by (auto simp: run_bind split: sum.splits)
    show ?thesis
    proof (cases "BSize b \<le> 0 \<or> BSize b > BlockSize \<or> BOffset b < 0")
      case True
      with l res assms(2) show ?thesis by (simp add: client_ReadBlock_def run_bind run_fail_if)
    next
      case False
      with l have "\<exists>fn :: (world, bytes) io. client_operation fn w = (res, w1)"
        by (simp add: client_ReadBlock_def run_bind run_fail_if) blast
      with res client_operation_Inl assms(2) show ?thesis by metis
    qed
  qed
  with assms(3) have s: "shut (conn w2)" by simp
  show ?thesis
  proof (cases r')
    case (ListRequest folder)
    from client_operation_shut [OF s] obtain e w3 where
      "client_List folder w2 = (Inl e, w3)" "conn w3 = conn w2" unfolding client_List_def by blast
    with ListRequest show ?thesis by (simp add: run_bind)
  next
    case (BlockRequest folder name h b)
    have "\<exists>e w3. client_ReadBlock folder name h b w2 = (Inl e, w3) \<and> conn w3 = conn w2"
    proof (cases "BSize b \<le> 0 \<or> BSize b > BlockSize \<or> BOffset b < 0")
      case True
      then show ?thesis by (simp add: client_ReadBlock_def run_bind run_fail_if)
    next
      case False
      then show ?thesis using client_operation_shut [OF s] by (simp add: client_ReadBlock_def run_bind run_fail_if)
    qed
    with BlockRequest show ?thesis by (auto simp: run_bind)
  qed
qed

definition demo_failing :: world where
  "demo_failing = demo_world\<lparr>pending := [Event (\<lambda>s. s) False (Some ''i/o timeout'')]\<rparr>"

lemma demo_fails: "client_run (ListRequest ''f'') demo_failing =
    (Inl (IOError ''i/o timeout''), demo_world\<lparr>conn := (conn demo_world)\<lparr>shut := True\<rparr>\<rparr>)"
  by (simp add: client_List_def client_operation_def run_bind run_attempt net_def tick_def demo_failing_def
      demo_world_def ctx_Err_def set_wire_def)

theorem failed_session_unused_witness:
  "\<exists>err' w3. client_run (BlockRequest ''f'' ''a'' ''h'' demo_block) (demo_world\<lparr>conn := (conn demo_world)\<lparr>shut := True\<rparr>\<rparr>) = (Inl err', w3)
     \<and> conn w3 = (conn demo_world)\<lparr>shut := True\<rparr>"
  using failed_session_unused [OF demo_fails, of "demo_world\<lparr>conn := (conn demo_world)\<lparr>shut := True\<rparr>\<rparr>"
      "BlockRequest ''f'' ''a'' ''h'' demo_block"]
  by (simp add: demo_failing_def) (simp add: demo_world_def)

section \<open>Both loops end\<close>

definition never :: "error \<Rightarrow> ('s, 'a) io \<Rightarrow> bool" where
  "never e m \<longleftrightarrow> (\<forall>w. fst (m w) \<noteq> Inl e)"

named_theorems never_intros \<open>computations that do not end in a given error\<close>

lemma never_return [never_intros]: "never e (return x)"
  by (simp add: never_def)

lemma never_throw [never_intros]: "e' \<noteq> e \<Longrightarrow> never e (throw e')"
  by (simp add: never_def)

lemma never_bind [never_intros]: "never e m \<Longrightarrow> (\<And>x. never e (f x)) \<Longrightarrow> never e (bind m f)"
  unfolding never_def bind_def by (auto split: prod.splits sum.splits) (metis fst_conv)

lemma never_fail_if [never_intros]: "e' \<noteq> e \<Longrightarrow> never e (fail_if b e')"
  by (simp add: never_def run_fail_if)

lemma never_attempt [never_intros]: "never e (attempt m)"
  by (simp add: never_def run_attempt split: prod.split)

lemma never_if [never_intros]: "(b \<Longrightarrow> never e m) \<Longrightarrow> (\<not> b \<Longrightarrow> never e n) \<Longrightarrow> never e (if b then m else n)"
  by simp

lemma never_option [never_intros]:
  "(r = None \<Longrightarrow> never e m) \<Longrightarrow> (\<And>x. r = Some x \<Longrightarrow> never e (f x)) \<Longrightarrow>
     never e (case r of None \<Rightarrow> m | Some x \<Rightarrow> f x)"
  by (cases r) simp_all

lemma never_sum [never_intros]:
  "(\<And>x. r = Inl x \<Longrightarrow> never e (g x)) \<Longrightarrow> (\<And>x. r = Inr x \<Longrightarrow> never e (f x)) \<Longrightarrow>
     never e (case r of Inl x \<Rightarrow> g x | Inr x \<Rightarrow> f x)"
  by (cases r) simp_all

lemma never_prod [never_intros]: "(\<And>x y. r = (x, y) \<Longrightarrow> never e (f x y)) \<Longrightarrow> never e (case r of (x, y) \<Rightarrow> f x y)"
  by (cases r) simp

definition out_of_fuel :: error where
  "out_of_fuel = Errorf ''out of fuel'' []"

lemma never_net [never_intros]: "(\<And>c. fst (f c) \<noteq> Inl out_of_fuel) \<Longrightarrow> never out_of_fuel (net f)"
  unfolding never_def
proof
  assume f: "\<And>c. fst (f c) \<noteq> Inl out_of_fuel"
  fix w
  obtain e w1 where t: "tick w = (e, w1)" by fastforce
  obtain r c where r: "f (conn w1) = (r, c)" by fastforce
  from t tick_error [of w _ w1] f [of "conn w1"] r show "fst (net f w) \<noteq> Inl out_of_fuel"
    by (auto simp: net_def closed_error_def out_of_fuel_def split: option.split)
qed

lemma never_ctx [never_intros]: "never out_of_fuel ctx_Err"
  by (simp add: never_def ctx_Err_def out_of_fuel_def)

lemma never_wire [never_intros]: "never e (set_wire f)"
  by (simp add: never_def set_wire_def)

lemma never_get [never_intros]: "never e get_state"
  by (simp add: never_def)

lemma never_do_if [never_intros]: "never e m \<Longrightarrow> never e (do_if b m)"
  by (simp add: never_def run_do_if)

lemma never_time [never_intros]: "never e time_Now"
  by (simp add: never_def time_Now_def)

lemma never_writes [never_intros]: "never out_of_fuel (Writer_Write p)" "never out_of_fuel Writer_Flush"
  unfolding Writer_Write_def Writer_Flush_def put_or_send_def Let_def by (intro never_intros; simp)+

lemma never_readFrame [never_intros]: "never out_of_fuel (readFrame limit)"
  unfolding readFrame_def by (intro never_intros) (auto simp: wire_take_def out_of_fuel_def)

lemma never_writeFrame [never_intros]: "never out_of_fuel (writeFrame d limit)"
  unfolding writeFrame_def by (intro never_intros) (simp add: out_of_fuel_def)

lemma never_wire_read [never_intros]: "never out_of_fuel wire_read"
  unfolding wire_read_def by (intro never_intros) (simp add: out_of_fuel_def)

lemma never_wire_write [never_intros]: "never out_of_fuel (wire_write m)" "never out_of_fuel (wire_send m)"
  unfolding wire_send_def wire_write_def by (intro never_intros)+

lemma never_send_entries [never_intros]: "never out_of_fuel (send_entries es spent)"
proof (induction es arbitrary: spent)
  case (Cons e es)
  then show ?case unfolding send_entries.simps by (intro never_intros) (simp add: out_of_fuel_def)
qed (simp add: never_def)

lemma never_handleRequest [never_intros]: "never out_of_fuel (handleRequest b peer request)"
  unfolding handleRequest_def handle_list_def handle_block_def sendError_def
  by (intro never_intros) (simp_all add: out_of_fuel_def)

text \<open>The input only gets shorter, and a frame that is read takes at least its header.\<close>

definition shrinks :: "world \<Rightarrow> world \<Rightarrow> bool" where
  "shrinks w w' \<longleftrightarrow> length (rx (conn w')) \<le> length (rx (conn w))"

lemma preorder_shrinks [simp, intro]: "preorder_rel shrinks"
  by (auto simp: preorder_rel_def reflp_def transp_def shrinks_def)

lemma within_net_shrinks: "(\<And>c. length (rx (snd (f c))) \<le> length (rx c)) \<Longrightarrow> within shrinks (net f)"
proof -
  assume f: "\<And>c. length (rx (snd (f c))) \<le> length (rx c)"
  have "shrinks w (snd (net f w))" for w
  proof -
    obtain e w1 where t: "tick w = (e, w1)" by fastforce
    show ?thesis using t f [of "conn w1"] by (auto simp: net_def shrinks_def split: option.split prod.split)
  qed
  then show ?thesis by (simp add: within_def)
qed

lemma within_wire_shrinks: "(\<And>c. length (rx (f c)) \<le> length (rx c)) \<Longrightarrow> within shrinks (set_wire f)"
  by (simp add: within_def set_wire_def shrinks_def)

lemma within_ctx_shrinks: "within shrinks ctx_Err"
  by (simp add: within_def ctx_Err_def shrinks_def)

lemma within_writes_shrinks: "within shrinks (Writer_Write p)" "within shrinks Writer_Flush"
  unfolding Writer_Write_def Writer_Flush_def put_or_send_def
  by (intro within_intros within_net_shrinks within_wire_shrinks preorder_shrinks; simp)+

lemma within_reads_shrinks: "within shrinks (readFrame limit)"
  unfolding readFrame_def by (intro within_intros within_net_shrinks preorder_shrinks) (auto simp: wire_take_def)

lemma within_wire_read_shrinks: "within shrinks wire_read"
  unfolding wire_read_def by (intro within_intros within_reads_shrinks preorder_shrinks)

lemma within_wire_write_shrinks: "within shrinks (wire_write m)" "within shrinks (wire_send m)"
  unfolding wire_send_def wire_write_def writeFrame_def
  by (intro within_intros within_writes_shrinks preorder_shrinks)+

lemma within_send_entries_shrinks: "within shrinks (send_entries es spent)"
  by (induction es arbitrary: spent)
     (auto intro!: within_intros within_wire_write_shrinks within_ctx_shrinks preorder_shrinks)

definition backend_local :: "Backend \<Rightarrow> bool" where
  "backend_local b \<longleftrightarrow>
     (\<forall>p f. within (\<lambda>w w'. conn w' = conn w) (backend_List b p f)) \<and>
     (\<forall>p f n h k. within (\<lambda>w w'. conn w' = conn w) (backend_ReadBlock b p f n h k))"

lemma within_handleRequest_shrinks:
  assumes "backend_local b"
  shows "within shrinks (handleRequest b peer request)"
proof -
  have l: "within shrinks (backend_List b p f)" and r: "within shrinks (backend_ReadBlock b p f n h k)" for p f n h k
    using assms by (auto simp: backend_local_def shrinks_def intro: within_mono [where R = "\<lambda>w w'. conn w' = conn w"])
  show ?thesis
    unfolding handleRequest_def handle_list_def handle_block_def sendError_def writeFrame_def
    by (intro within_intros l r within_wire_write_shrinks within_send_entries_shrinks within_writes_shrinks
        preorder_shrinks)
qed

lemma wp_never:
  assumes "never e m" "within R m" "\<And>x w'. R w w' \<Longrightarrow> Q x w'"
  shows "wp m Q (\<lambda>e' _. e' \<noteq> e) w"
proof -
  obtain r w' where r: "m w = (r, w')" by fastforce
  with assms(1) [unfolded never_def, rule_format, of w] assms(3) withinD [OF assms(2) r]
  show ?thesis by (cases r) (auto simp: wp_def)
qed

lemma wp_readFrame:
  assumes "\<And>d w'. length (rx (conn w')) < length (rx (conn w)) \<Longrightarrow> Q d w'"
  shows "wp (readFrame limit) Q (\<lambda>e' _. e' \<noteq> out_of_fuel) w"
proof -
  have head: "wp (io_ReadFull 4) (\<lambda>_ w1. length (rx (conn w1)) < length (rx (conn w))) (\<lambda>e' _. e' \<noteq> out_of_fuel) w"
  proof -
    have "never out_of_fuel (io_ReadFull 4)" by (intro never_intros) (auto simp: wire_take_def out_of_fuel_def)
    then have "fst (io_ReadFull 4 w) \<noteq> Inl out_of_fuel" by (simp add: never_def)
    then show ?thesis
      by (auto simp: wp_def net_def wire_take_def split: prod.splits option.splits if_splits sum.splits)
  qed
  let ?tail = "\<lambda>h. bind (fail_if (word_of_bytes h = 0 \<or> uint (word_of_bytes h) > limit mod 2 ^ 64)
          (Errorf ''invalid frame size %d'' [show_nat (unat (word_of_bytes h))])) (\<lambda>_. io_ReadFull (unat (word_of_bytes h)))"
  have tail: "wp (?tail h) Q (\<lambda>e' _. e' \<noteq> out_of_fuel) w1" if "length (rx (conn w1)) < length (rx (conn w))" for h w1
  proof (rule wp_never)
    show "never out_of_fuel (?tail h)" by (intro never_intros) (auto simp: wire_take_def out_of_fuel_def)
    show "within shrinks (?tail h)"
      by (intro within_intros within_net_shrinks preorder_shrinks) (auto simp: wire_take_def)
  next
    fix x w' assume "shrinks w1 w'"
    with that assms show "Q x w'" by (simp add: shrinks_def)
  qed
  show ?thesis
    unfolding readFrame_def wp_bind by (rule wp_conseq [OF head]) (use tail in \<open>simp_all add: wp_bind\<close>)
qed

lemma wp_wire_read:
  assumes "\<And>m n w'. length (rx (conn w')) < length (rx (conn w)) \<Longrightarrow> Q (m, n) w'"
  shows "wp wire_read Q (\<lambda>e' _. e' \<noteq> out_of_fuel) w"
  unfolding wire_read_def wp_bind
  by (rule wp_readFrame) (use assms in \<open>auto simp: wp_simps out_of_fuel_def split: option.split\<close>)

lemma wp_deadline:
  assumes "\<And>w'. length (rx (conn w')) \<le> length (rx (conn w)) \<Longrightarrow> Q () w'"
  shows "wp Conn_SetDeadline Q (\<lambda>e' _. e' \<noteq> out_of_fuel) w"
proof (rule wp_never [where R = shrinks])
  show "never out_of_fuel Conn_SetDeadline" by (rule never_net) simp
  show "within shrinks Conn_SetDeadline" by (rule within_net_shrinks) simp
qed (use assms in \<open>simp add: shrinks_def\<close>)

lemma serve_requests_fuel:
  assumes "backend_local b"
  shows "length (rx (conn w)) < n \<Longrightarrow> wp (serve_requests n b peer) (\<lambda>_ _. True) (\<lambda>e' _. e' \<noteq> out_of_fuel) w"
proof (induction n arbitrary: w)
  case (Suc n)
  have "wp (handleRequest b peer request) (\<lambda>_. wp (serve_requests n b peer) (\<lambda>_ _. True) (\<lambda>e' _. e' \<noteq> out_of_fuel))
      (\<lambda>e' _. e' \<noteq> out_of_fuel) w1" if "length (rx (conn w1)) < n" for request w1
    by (rule wp_never [OF never_handleRequest within_handleRequest_shrinks [OF assms]])
       (use that Suc.IH in \<open>auto simp: shrinks_def\<close>)
  with Suc.prems show ?case
    unfolding serve_requests.simps wp_bind
    by (intro wp_deadline wp_wire_read, unfold prod.case wp_bind, intro wp_deadline) simp
qed simp

lemma list_loop_fuel:
  "length (rx (conn w)) < k \<Longrightarrow> wp (list_loop k acc spent) (\<lambda>_ _. True) (\<lambda>e' _. e' \<noteq> out_of_fuel) w"
proof (induction k arbitrary: w acc spent)
  case (Suc k)
  then show ?case
    unfolding list_loop.simps wp_bind
    by (intro wp_wire_read) (auto simp: wp_simps out_of_fuel_def split: option.split)
qed simp

text \<open>C19. The request loop of a connection and the listing loop of a client end on every input: as many
  rounds as bytes arrive, and one, are enough, as long as the backend leaves the connection alone.\<close>

theorem connection_loops_end:
  assumes "backend_local b" "length (rx (conn w)) < n"
  shows "fst (serve_requests n b peer w) \<noteq> Inl out_of_fuel \<and> fst (list_loop n acc spent w) \<noteq> Inl out_of_fuel"
  using serve_requests_fuel [OF assms, of peer] list_loop_fuel [OF assms(2), of acc spent]
  by (auto simp: wp_def split: prod.splits sum.splits)

theorem connection_loops_end_witness:
  "fst (serve_requests 1 demo_backend ''p'' demo_world) \<noteq> Inl out_of_fuel \<and> fst (list_loop 1 [] 0 demo_world) \<noteq> Inl out_of_fuel"
  by (rule connection_loops_end) (simp_all add: backend_local_def within_def demo_backend_def, simp add: demo_world_def)

section \<open>Bounds on what a peer can make this side allocate\<close>

lemma wire_take_length: "io_ReadFull n w = (Inr d, w') \<Longrightarrow> length d = n"
  by (auto simp: net_def wire_take_def split: prod.splits option.splits if_splits)

lemma readFrame_Inr:
  assumes "readFrame limit w = (Inr d, w')" "0 \<le> limit" "limit < 2 ^ 64"
  shows "0 < length d \<and> int (length d) \<le> limit"
proof -
  obtain h w1 w2 where g: "fail_if (word_of_bytes h = 0 \<or> uint (word_of_bytes h) > limit mod 2 ^ 64)
      (Errorf ''invalid frame size %d'' [show_nat (unat (word_of_bytes h))]) w1 = (Inr (), w2)"
    and d: "io_ReadFull (unat (word_of_bytes h)) w2 = (Inr d, w')"
    using assms(1) unfolding readFrame_def by (auto elim!: bind_eq_InrE)
  have "word_of_bytes h \<noteq> 0" "uint (word_of_bytes h) \<le> limit mod 2 ^ 64"
    using g by (auto simp: fail_if_Inr)
  moreover have "length d = unat (word_of_bytes h)" using wire_take_length [OF d] .
  ultimately show ?thesis using assms(2,3) by (simp add: unat_gt_0)
qed

lemma list_loop_Inr:
  "list_loop k acc spent w = (Inr es, w') \<Longrightarrow> int (length acc) \<le> maxEntries \<Longrightarrow> int (length es) \<le> maxEntries"
proof (induction k arbitrary: acc spent w)
  case (Suc k)
  then show ?case
    unfolding list_loop.simps
    by (auto elim!: bind_eq_InrE simp: fail_if_Inr split: if_splits option.splits)
qed simp

lemma client_List_bounded:
  assumes "client_List folder w = (Inr es, w')"
  shows "int (length es) \<le> maxEntries"
proof -
  obtain w1 where "bind (wire_send (list_message folder)) (\<lambda>_. bind get_state (\<lambda>w.
       list_loop (Suc (length (rx (conn w)))) [] 0)) w1 = (Inr es, w')"
    using assms unfolding client_List_def by (elim client_operation_Inr)
  then obtain w2 k where "list_loop k [] 0 w2 = (Inr es, w')"
    by (auto elim!: bind_eq_InrE simp del: list_loop.simps)
  from list_loop_Inr [OF this] show ?thesis by (simp add: maxEntries_def)
qed

section \<open>How much of what a peer sends is read\<close>

text \<open>
  \<open>eats a b m\<close>: a run of \<open>m\<close> takes at most \<open>a\<close> bytes off the connection when it ends with an error, and
  at most \<open>b x\<close> when it returns \<open>x\<close>.
\<close>

definition taken :: "world \<Rightarrow> world \<Rightarrow> int" where
  "taken w w' = int (length (rx (conn w))) - int (length (rx (conn w')))"

definition eats :: "int \<Rightarrow> ('a \<Rightarrow> int) \<Rightarrow> (world, 'a) io \<Rightarrow> bool" where
  "eats a b m \<longleftrightarrow> (\<forall>w. case m w of (Inl err, w') \<Rightarrow> taken w w' \<le> a | (Inr x, w') \<Rightarrow> taken w w' \<le> b x)"

lemma eats_run: "eats a b m \<Longrightarrow> m w = (r, w') \<Longrightarrow> taken w w' \<le> (case r of Inl err \<Rightarrow> a | Inr x \<Rightarrow> b x)"
  unfolding eats_def by (drule spec [of _ w]) (simp split: sum.splits)

lemma eatsI: "(\<And>w r w'. m w = (r, w') \<Longrightarrow> taken w w' \<le> (case r of Inl err \<Rightarrow> a | Inr x \<Rightarrow> b x)) \<Longrightarrow> eats a b m"
  unfolding eats_def by (fastforce split: prod.split sum.split)

lemma eats_conseq: "eats a b m \<Longrightarrow> a \<le> a' \<Longrightarrow> (\<And>x. b x \<le> b' x) \<Longrightarrow> eats a' b' m"
  by (rule eatsI, drule (1) eats_run) (auto split: sum.splits intro: order_trans)

lemma eats_bind:
  assumes "eats a b m" "\<And>x w w'. m w = (Inr x, w') \<Longrightarrow> eats (a - b x) (\<lambda>y. c y - b x) (f x)"
  shows "eats a c (bind m f)"
proof (rule eatsI)
  fix w r w' assume run: "bind m f w = (r, w')"
  obtain s w1 where m: "m w = (s, w1)" by fastforce
  note t = eats_run [OF assms(1) m]
  show "taken w w' \<le> (case r of Inl err \<Rightarrow> a | Inr x \<Rightarrow> c x)"
  proof (cases s)
    case (Inl err)
    with run m t show ?thesis by (auto simp: run_bind)
  next
    case (Inr x)
    with run m have "f x w1 = (r, w')" by (simp add: run_bind)
    from eats_run [OF assms(2) [OF m [unfolded Inr]] this] t Inr show ?thesis
      by (cases r) (simp_all add: taken_def)
  qed
qed

lemma eats_return: "0 \<le> a \<Longrightarrow> (\<And>x. 0 \<le> b x) \<Longrightarrow> eats a b (return x)"
  and eats_throw: "0 \<le> a \<Longrightarrow> eats a b (throw err)"
  by (simp_all add: eats_def taken_def)

lemma eats_fail_if: "0 \<le> a \<Longrightarrow> (\<And>x. 0 \<le> b x) \<Longrightarrow> eats a b (fail_if c err)"
  by (simp add: eats_def taken_def run_fail_if)

lemma eats_get_state: "0 \<le> a \<Longrightarrow> (\<And>x. 0 \<le> b x) \<Longrightarrow> eats a b get_state"
  by (simp add: eats_def taken_def)

lemmas eats_plain = eats_return eats_throw eats_fail_if

lemma eats_net:
  assumes "\<And>c. rx (snd (f c)) = rx c" "0 \<le> a" "\<And>x. 0 \<le> b x"
  shows "eats a b (net f)"
proof (rule eatsI)
  fix w r w' assume run: "net f w = (r, w')"
  obtain e w1 where t: "tick w = (e, w1)" by fastforce
  have "rx (conn w') = rx (conn w)"
    using run t assms(1) [of "conn w1"] tick_fields(4) [OF t] by (auto simp: net_def split: option.splits if_splits prod.splits)
  then show "taken w w' \<le> (case r of Inl err \<Rightarrow> a | Inr x \<Rightarrow> b x)"
    using assms(2,3) by (cases r) (simp_all add: taken_def)
qed

lemma eats_wire: "(\<And>c. rx (f c) = rx c) \<Longrightarrow> 0 \<le> a \<Longrightarrow> (\<And>x. 0 \<le> b x) \<Longrightarrow> eats a b (set_wire f)"
  by (auto simp: eats_def taken_def set_wire_def)

lemma eats_ReadFull: "eats (int n) (\<lambda>d. int (length d)) (io_ReadFull n)"
proof (rule eatsI)
  fix w r w' assume run: "io_ReadFull n w = (r, w')"
  obtain e w1 where t: "tick w = (e, w1)" by fastforce
  show "taken w w' \<le> (case r of Inl err \<Rightarrow> int n | Inr x \<Rightarrow> int (length x))"
    using run t tick_fields(4) [OF t]
    by (auto simp: net_def wire_take_def taken_def split: option.splits if_splits)
qed

lemma eats_readFrame:
  assumes "0 \<le> limit" "limit < 2 ^ 64"
  shows "eats (4 + limit) (\<lambda>d. 4 + int (length d)) (readFrame limit)"
  unfolding readFrame_def
proof (rule eats_bind [OF eats_conseq [OF eats_ReadFull]])
  fix header :: bytes and w w' assume "io_ReadFull 4 w = (Inr header, w')"
  then have four: "length header = 4" by (rule wire_take_length)
  let ?n = "unat (word_of_bytes header)"
  show "eats (4 + limit - int (length header)) (\<lambda>d. 4 + int (length d) - int (length header))
     (bind (fail_if (word_of_bytes header = 0 \<or> uint (word_of_bytes header) > limit mod 2 ^ 64)
             (Errorf ''invalid frame size %d'' [show_nat ?n])) (\<lambda>_. io_ReadFull ?n))"
  proof (rule eats_bind [where b = "\<lambda>_. 0"])
    fix u w1 w2 assume "fail_if (word_of_bytes header = 0 \<or> uint (word_of_bytes header) > limit mod 2 ^ 64)
             (Errorf ''invalid frame size %d'' [show_nat ?n]) w1 = (Inr u, w2)"
    then have "int ?n \<le> limit" using assms by (simp add: fail_if_Inr)
    then show "eats (4 + limit - int (length header) - 0) (\<lambda>d. 4 + int (length d) - int (length header) - 0) (io_ReadFull ?n)"
      by (intro eats_conseq [OF eats_ReadFull]) (simp_all add: four)
  qed (use four assms in \<open>simp add: eats_plain\<close>)
qed (use assms in simp_all)

lemma eats_wire_read: "eats (4 + maxControl) (\<lambda>(msg, n). 4 + n) wire_read"
  unfolding wire_read_def
proof (rule eats_bind [OF eats_readFrame])
  fix b w w' assume "readFrame maxControl w = (Inr b, w')"
  then have "int (length b) \<le> maxControl" using readFrame_Inr [of maxControl w b w'] by (simp add: maxControl_def)
  then show "eats (4 + maxControl - (4 + int (length b))) (\<lambda>y. (case y of (msg, n) \<Rightarrow> 4 + n) - (4 + int (length b)))
     (case unmarshal_message b of None \<Rightarrow> throw (Errorf ''invalid control frame'' []) | Some msg \<Rightarrow> return (msg, int (length b)))"
    by (auto simp: eats_def taken_def split: option.split)
qed (simp_all add: maxControl_def)

lemma wire_read_size: "wire_read w = (Inr (msg, n), w') \<Longrightarrow> 0 \<le> n \<and> n \<le> maxControl"
  unfolding wire_read_def
  by (auto elim!: bind_eq_InrE split: option.splits dest!: readFrame_Inr simp: maxControl_def)

text \<open>The bound of the loop: what is left of the budgets, and one frame that exceeds them.\<close>

definition loop_bound :: "int \<Rightarrow> int \<Rightarrow> int" where
  "loop_bound spent n = maxIndexBytes - spent + maxControl + 4 * (maxEntries - n + 1)"

lemma eats_list_loop:
  "spent \<le> maxIndexBytes \<Longrightarrow> int (length entries) \<le> maxEntries \<Longrightarrow>
     eats (loop_bound spent (int (length entries))) (\<lambda>_. loop_bound spent (int (length entries))) (list_loop k entries spent)"
proof (induction k arbitrary: entries spent)
  case 0
  then show ?case unfolding list_loop.simps by (intro eats_throw) (simp add: loop_bound_def maxControl_def)
next
  case (Suc k)
  let ?B = "loop_bound spent (int (length entries))"
  show ?case
    unfolding list_loop.simps
  proof (rule eats_bind [OF eats_conseq [OF eats_wire_read]], use Suc.prems in \<open>simp add: loop_bound_def\<close>, rule order_refl)
    fix x w w' assume rd: "wire_read w = (Inr x, w')"
    obtain msg n where x: "x = (msg, n)" by fastforce
    have n: "0 \<le> n" "n \<le> maxControl" using wire_read_size rd x by blast+
    have pos: "0 \<le> ?B - (4 + n)" if "spent + n \<le> maxIndexBytes"
      using that Suc.prems by (simp add: loop_bound_def maxControl_def)
    have pos': "0 \<le> ?B - (4 + n)" using n Suc.prems by (simp add: loop_bound_def)
    show "eats (?B - (case x of (msg, n) \<Rightarrow> 4 + n)) (\<lambda>_. ?B - (case x of (msg, n) \<Rightarrow> 4 + n))
       (case x of (msg, n) \<Rightarrow>
         bind (fail_if (spent + n > maxIndexBytes) (Errorf ''peer index metadata limit exceeded'' [])) (\<lambda>_.
         if MType msg = ''entry'' then
           (case MEntry msg of
              None \<Rightarrow> throw (Errorf ''invalid peer index'' [])
            | Some e \<Rightarrow>
                (if int (length entries) \<ge> maxEntries then throw (Errorf ''invalid peer index'' [])
                 else list_loop k (entries @ [e]) (spent + n)))
         else if MType msg = ''end'' then return entries
         else if MType msg = ''error'' then throw (Errorf ''peer rejected list request'' [])
         else throw (Errorf ''unexpected index response'' [])))"
      unfolding x prod.case
    proof (rule eats_bind [where b = "\<lambda>_. 0"])
      show "eats (?B - (4 + n)) (\<lambda>_. 0) (fail_if (spent + n > maxIndexBytes) (Errorf ''peer index metadata limit exceeded'' []))"
        using pos' by (simp add: eats_plain)
      fix u w1 w2 assume "fail_if (spent + n > maxIndexBytes) (Errorf ''peer index metadata limit exceeded'' []) w1 = (Inr u, w2)"
      then have sp: "spent + n \<le> maxIndexBytes" by (simp add: fail_if_Inr)
      have more: "eats (?B - (4 + n)) (\<lambda>_. ?B - (4 + n)) (list_loop k (entries @ [e]) (spent + n))"
        if "\<not> maxEntries \<le> int (length entries)" for e
        using Suc.IH [OF sp, of "entries @ [e]"] that by (simp add: loop_bound_def algebra_simps)
      show "eats (?B - (4 + n) - 0) (\<lambda>_. ?B - (4 + n) - 0)
        (if MType msg = ''entry'' then
           (case MEntry msg of
              None \<Rightarrow> throw (Errorf ''invalid peer index'' [])
            | Some e \<Rightarrow>
                (if int (length entries) \<ge> maxEntries then throw (Errorf ''invalid peer index'' [])
                 else list_loop k (entries @ [e]) (spent + n)))
         else if MType msg = ''end'' then return entries
         else if MType msg = ''error'' then throw (Errorf ''peer rejected list request'' [])
         else throw (Errorf ''unexpected index response'' []))"
        using pos [OF sp] more by (auto simp: eats_plain split: option.split)
    qed
  qed
qed

lemma eats_wire_send: "0 \<le> a \<Longrightarrow> (\<And>x. 0 \<le> b x) \<Longrightarrow> eats a b (wire_send m)"
proof -
  have k: "within (\<lambda>w w'. rx (conn w') = rx (conn w)) (wire_send m)"
  proof -
    have n: "within (\<lambda>w w'. rx (conn w') = rx (conn w)) (net f)" if "\<And>c. rx (snd (f c)) = rx c" for f :: "wire \<Rightarrow> (error + unit) \<times> wire"
      unfolding within_def
    proof
      fix w :: world
      obtain e w1 where t: "tick w = (e, w1)" by fastforce
      show "rx (conn (snd (net f w))) = rx (conn w)"
        using t that [of "conn w1"] tick_fields(4) [OF t] by (auto simp: net_def split: option.split prod.split)
    qed
    have s: "within (\<lambda>w w'. rx (conn w') = rx (conn w)) (set_wire f)" if "\<And>c. rx (f c) = rx c" for f
      using that by (simp add: within_def set_wire_def)
    have p: "preorder_rel (\<lambda>w w'. rx (conn w') = rx (conn w))"
      by (rule preorder_rel_frame [where f = "\<lambda>w. rx (conn w)"])
    show ?thesis
      unfolding wire_send_def wire_write_def writeFrame_def Writer_Write_def Writer_Flush_def put_or_send_def
      by (intro within_intros n s p) auto
  qed
  show "0 \<le> a \<Longrightarrow> (\<And>x. 0 \<le> b x) \<Longrightarrow> eats a b (wire_send m)"
    by (rule eatsI) (use withinD [OF k] in \<open>auto simp: taken_def split: sum.split\<close>)
qed

lemma eats_operation:
  assumes "eats a (\<lambda>_. a) fn" "0 \<le> a"
  shows "eats a (\<lambda>_. a) (client_operation fn)"
proof (rule eatsI)
  fix w r w' assume run: "client_operation fn w = (r, w')"
  obtain d w1 where d: "Conn_SetDeadline w = (d, w1)" by fastforce
  obtain x w2 where x: "fn w1 = (x, w2)" by fastforce
  have "taken w w1 \<le> 0" using eats_run [OF eats_net [where a = 0 and b = "\<lambda>_. 0"] d] by (auto split: sum.splits)
  moreover have "taken w1 w2 \<le> a" using eats_run [OF assms(1) x] by (auto split: sum.splits)
  moreover have "rx (conn w') \<in> {rx (conn w), rx (conn w1), rx (conn w2)}"
    using run d x
    by (auto simp: client_operation_def run_bind run_attempt ctx_Err_def set_wire_def split: sum.splits if_splits)
  ultimately show "taken w w' \<le> (case r of Inl err \<Rightarrow> a | Inr x \<Rightarrow> a)"
    using assms(2) by (auto simp: taken_def split: sum.split)
qed

lemma eats_client_List:
  "eats (loop_bound 0 0) (\<lambda>_. loop_bound 0 0) (client_List folder)"
  unfolding client_List_def
proof (rule eats_operation)
  show pos: "0 \<le> loop_bound 0 0" by (simp add: loop_bound_def maxIndexBytes_def maxControl_def maxEntries_def)
  have loop: "eats (loop_bound 0 0) (\<lambda>_. loop_bound 0 0) (list_loop k [] 0)" for k
    using eats_list_loop [of 0 "[]" k] by (simp add: maxIndexBytes_def maxEntries_def)
  show "eats (loop_bound 0 0) (\<lambda>_. loop_bound 0 0)
     (bind (wire_send (list_message folder)) (\<lambda>_. bind get_state (\<lambda>w. list_loop (Suc (length (rx (conn w)))) [] 0)))"
    by (rule eats_bind [where b = "\<lambda>_. 0", OF eats_wire_send], simp_all add: pos del: list_loop.simps,
        rule eats_bind [where b = "\<lambda>_. 0", OF eats_get_state], simp_all add: pos loop del: list_loop.simps)
qed

lemma eats_client_ReadBlock:
  "eats (8 + maxControl + BlockSize) (\<lambda>_. 8 + maxControl + BlockSize) (client_ReadBlock folder name h b)"
  unfolding client_ReadBlock_def
proof (rule eats_bind [where b = "\<lambda>_. 0", OF eats_fail_if])
  let ?N = "8 + maxControl + BlockSize"
  show "0 \<le> ?N" by (simp add: maxControl_def BlockSize_def)
  fix u w w' assume "fail_if (BSize b \<le> 0 \<or> BSize b > BlockSize \<or> BOffset b < 0) (Errorf ''invalid block'' []) w = (Inr u, w')"
  then have b: "0 \<le> BSize b" "BSize b \<le> BlockSize" by (auto simp: fail_if_Inr)
  have rest: "eats (4 + BSize b) (\<lambda>_. 4 + BSize b) (bind (readFrame (BSize b)) (\<lambda>data.
       bind (fail_if (int (length data) \<noteq> BSize b) (Errorf ''incorrect block length'' [])) (\<lambda>_.
       bind (fail_if (hashBytes data \<noteq> BHash b) (Errorf ''block hash mismatch'' [])) (\<lambda>_. return data))))"
  proof (rule eats_bind [OF eats_readFrame])
    fix data w1 w2 assume "readFrame (BSize b) w1 = (Inr data, w2)"
    then have "int (length data) \<le> BSize b" using readFrame_Inr [of "BSize b" w1 data w2] b by (simp add: BlockSize_def)
    then show "eats (4 + BSize b - (4 + int (length data))) (\<lambda>_. 4 + BSize b - (4 + int (length data)))
      (bind (fail_if (int (length data) \<noteq> BSize b) (Errorf ''incorrect block length'' [])) (\<lambda>_.
       bind (fail_if (hashBytes data \<noteq> BHash b) (Errorf ''block hash mismatch'' [])) (\<lambda>_. return data)))"
      by (auto simp: eats_def taken_def run_simps)
  qed (use b in \<open>simp_all add: BlockSize_def\<close>)
  have read: "eats (?N) (\<lambda>_. ?N) (bind wire_read (\<lambda>(msg, _).
       bind (fail_if (MType msg = ''error'') (Errorf ''peer rejected block request'' [])) (\<lambda>_.
       bind (fail_if (MType msg \<noteq> ''block'') (Errorf ''unexpected block response'' [])) (\<lambda>_.
       bind (readFrame (BSize b)) (\<lambda>data.
       bind (fail_if (int (length data) \<noteq> BSize b) (Errorf ''incorrect block length'' [])) (\<lambda>_.
       bind (fail_if (hashBytes data \<noteq> BHash b) (Errorf ''block hash mismatch'' [])) (\<lambda>_.
       return data)))))))"
  proof (rule eats_bind [OF eats_conseq [OF eats_wire_read]], simp add: BlockSize_def, rule order_refl)
    fix x w1 w2 assume rd: "wire_read w1 = (Inr x, w2)"
    obtain msg n where x: "x = (msg, n)" by fastforce
    have n: "0 \<le> n" "n \<le> maxControl" using wire_read_size rd x by blast+
    show "eats (?N - (case x of (msg, n) \<Rightarrow> 4 + n)) (\<lambda>_. ?N - (case x of (msg, n) \<Rightarrow> 4 + n)) (case x of (msg, _) \<Rightarrow>
       bind (fail_if (MType msg = ''error'') (Errorf ''peer rejected block request'' [])) (\<lambda>_.
       bind (fail_if (MType msg \<noteq> ''block'') (Errorf ''unexpected block response'' [])) (\<lambda>_.
       bind (readFrame (BSize b)) (\<lambda>data.
       bind (fail_if (int (length data) \<noteq> BSize b) (Errorf ''incorrect block length'' [])) (\<lambda>_.
       bind (fail_if (hashBytes data \<noteq> BHash b) (Errorf ''block hash mismatch'' [])) (\<lambda>_.
       return data))))))"
      unfolding x prod.case
      by (rule eats_bind [where b = "\<lambda>_. 0", OF eats_fail_if], use n in \<open>simp add: BlockSize_def\<close>, simp,
          rule eats_bind [where b = "\<lambda>_. 0", OF eats_fail_if], use n in \<open>simp add: BlockSize_def\<close>, simp,
          rule eats_conseq [OF rest]) (use n b in simp_all)
  qed
  show "eats (?N - 0) (\<lambda>_. ?N - 0) (client_operation (
       bind (wire_send (block_message folder name h b)) (\<lambda>_.
       bind wire_read (\<lambda>(msg, _).
       bind (fail_if (MType msg = ''error'') (Errorf ''peer rejected block request'' [])) (\<lambda>_.
       bind (fail_if (MType msg \<noteq> ''block'') (Errorf ''unexpected block response'' [])) (\<lambda>_.
       bind (readFrame (BSize b)) (\<lambda>data.
       bind (fail_if (int (length data) \<noteq> BSize b) (Errorf ''incorrect block length'' [])) (\<lambda>_.
       bind (fail_if (hashBytes data \<noteq> BHash b) (Errorf ''block hash mismatch'' [])) (\<lambda>_.
       return data)))))))))"
    unfolding diff_0_right
    by (rule eats_operation, rule eats_bind [where b = "\<lambda>_. 0", OF eats_wire_send])
       (use read in \<open>simp_all add: maxControl_def BlockSize_def\<close>)
qed simp

text \<open>C20. However a call ends, what it takes from the connection is bounded: reading a control frame
  takes at most its header and 4 MiB, also when the peer announces more, and never returns an empty
  frame; a listing takes at most 64 MiB, one more frame and the headers of 100001 frames and has at
  most 100000 entries; a block takes at most two headers, a control frame and one block.\<close>

theorem peer_input_bounded:
  "(case readFrame maxControl w of
      (Inl err, w') \<Rightarrow> taken w w' \<le> 4 + maxControl
    | (Inr d, w') \<Rightarrow> taken w w' \<le> 4 + maxControl \<and> 0 < length d \<and> int (length d) \<le> maxControl)
   \<and> (case client_List folder w of
      (Inl err, w') \<Rightarrow> taken w w' \<le> maxIndexBytes + maxControl + 4 * (maxEntries + 1)
    | (Inr es, w') \<Rightarrow> taken w w' \<le> maxIndexBytes + maxControl + 4 * (maxEntries + 1) \<and> int (length es) \<le> maxEntries)
   \<and> (case client_ReadBlock folder name h b w of
      (r, w') \<Rightarrow> taken w w' \<le> 8 + maxControl + BlockSize)"
proof (intro conjI)
  show "case readFrame maxControl w of
      (Inl err, w') \<Rightarrow> taken w w' \<le> 4 + maxControl
    | (Inr d, w') \<Rightarrow> taken w w' \<le> 4 + maxControl \<and> 0 < length d \<and> int (length d) \<le> maxControl"
    using eats_run [OF eats_readFrame [of maxControl], of w] readFrame_Inr [of maxControl w]
    by (fastforce simp: maxControl_def split: prod.split sum.split)
  show "case client_List folder w of
      (Inl err, w') \<Rightarrow> taken w w' \<le> maxIndexBytes + maxControl + 4 * (maxEntries + 1)
    | (Inr es, w') \<Rightarrow> taken w w' \<le> maxIndexBytes + maxControl + 4 * (maxEntries + 1) \<and> int (length es) \<le> maxEntries"
    using eats_run [OF eats_client_List, of folder w] client_List_bounded [of folder w]
    by (auto simp: loop_bound_def split: prod.split sum.split)
  show "case client_ReadBlock folder name h b w of (r, w') \<Rightarrow> taken w w' \<le> 8 + maxControl + BlockSize"
    using eats_run [OF eats_client_ReadBlock, of folder name h b w] by (auto split: prod.split sum.splits)
qed

text \<open>C17. Whatever a peer sends, the client returns a block only if it has exactly the size and the
  SHA-256 that were asked for, and never touches the index.\<close>

theorem client_ReadBlock_verified:
  "case client_ReadBlock folder name h b w of
     (Inl err, w') \<Rightarrow> wdb w' = wdb w
   | (Inr data, w') \<Rightarrow> wdb w' = wdb w \<and> int (length data) = BSize b \<and> hashBytes data = BHash b
       \<and> 0 < BSize b \<and> BSize b \<le> BlockSize"
proof -
  have fr: "within same_index (client_ReadBlock folder name h b)"
    using client_fetch_steady [of folder name h] by (simp add: fetch_steady_def)
  obtain res w' where run: "client_ReadBlock folder name h b w = (res, w')" by fastforce
  show ?thesis
  proof (cases res)
    case (Inl err)
    with run withinD [OF fr run] show ?thesis by simp
  next
    case (Inr data)
    with run withinD [OF fr run] client_ReadBlock_checked [OF run [unfolded Inr]] show ?thesis by simp
  qed
qed

end
