(* ===== verification/Identity.thy ===== *)
theory Identity
  imports Peer
begin

text \<open>
  \<^verbatim>\<open>internal/identity/identity.go\<close>: the device key and certificate in the state directory, and the TLS
  configurations that pin peers by the fingerprint of their certificate. The cryptography is an
  argument of the functions that use it.
\<close>

section \<open>What the package calls\<close>

datatype private_key = Ed25519Key bytes | OtherKey bytes

record cert_template =
  SerialNumber :: bytes
  CommonName :: string
  TNotBefore :: int
  TNotAfter :: int
  TKeyUsage :: int
  ExtKeyUsage :: "string list"

text \<open>\<open>crypto/ed25519\<close>, \<open>crypto/x509\<close>, \<open>encoding/pem\<close>, \<open>tls.X509KeyPair\<close> and the calendar of \<open>time\<close>.\<close>

record crypto =
  GenerateKey :: "bytes \<Rightarrow> private_key"
  CreateCertificate :: "cert_template \<Rightarrow> private_key \<Rightarrow> error + bytes"
  MarshalPKCS8PrivateKey :: "private_key \<Rightarrow> error + bytes"
  PemEncode :: "string \<Rightarrow> bytes \<Rightarrow> bytes"
  X509KeyPair :: "bytes \<Rightarrow> bytes \<Rightarrow> error + (bytes list \<times> private_key)"
  ParseCertificate :: "bytes \<Rightarrow> error + certificate"
  AddYears :: "int \<Rightarrow> int \<Rightarrow> int"

text \<open>Calls on a name in a configured directory.\<close>

definition in_dir :: "string \<Rightarrow> (nat \<Rightarrow> fsys \<Rightarrow> (error + 'a) \<times> fsys) \<Rightarrow> fsys \<Rightarrow> (error + 'a) \<times> fsys" where
  "in_dir dir f s = (case mounts s dir of None \<Rightarrow> (Inl NotExist, s) | Some r \<Rightarrow> f r s)"

definition fs_read_file :: "string \<Rightarrow> nat \<Rightarrow> fsys \<Rightarrow> (error + bytes) \<times> fsys" where
  "fs_read_file name r s = (case lookup_node (trees s r) [name] of
       Inl e \<Rightarrow> (Inl e, s)
     | Inr (File i) \<Rightarrow> (Inr (idata (inodes s i)), s)
     | Inr _ \<Rightarrow> (Inl (IOError ''not a regular file''), s))"

text \<open>\<open>os.CreateTemp(dir, prefix + "*")\<close>: the first free name of a sequence of 10000.\<close>

definition temp_candidate :: "nat \<Rightarrow> string" where
  "temp_candidate k = ''.identity-'' @ show_nat k"

fun fs_create_temp :: "nat list \<Rightarrow> nat \<Rightarrow> fsys \<Rightarrow> (error + (string \<times> handle)) \<times> fsys" where
  "fs_create_temp [] r s = (Inl AlreadyExists, s)"
| "fs_create_temp (k # ks) r s =
     (case fs_create_excl r [temp_candidate k] 384 s of
        (Inr h, s') \<Rightarrow> (Inr (temp_candidate k, h), s')
      | (Inl err, s') \<Rightarrow> (if err = AlreadyExists then fs_create_temp ks r s' else (Inl err, s')))"

definition fs_link :: "string \<Rightarrow> string \<Rightarrow> nat \<Rightarrow> fsys \<Rightarrow> (error + unit) \<times> fsys" where
  "fs_link old new r s = (case lookup_node (trees s r) [old] of
       Inl e \<Rightarrow> (Inl e, s)
     | Inr n \<Rightarrow> fs_link_new r [new] n s)"

abbreviation "os_Lstat dir name \<equiv> sys (in_dir dir (\<lambda>r. fs_lstat r [name]))"
abbreviation "os_ReadFile dir name \<equiv> sys (in_dir dir (fs_read_file name))"
abbreviation "os_CreateTemp dir \<equiv> sys (in_dir dir (fs_create_temp [0..<10000]))"
abbreviation "os_Link dir old new \<equiv> sys (in_dir dir (fs_link old new))"
abbreviation "os_Remove dir name \<equiv> sys (in_dir dir (\<lambda>r. fs_remove r [name]))"
abbreviation "os_OpenDir dir \<equiv> sys (in_dir dir (\<lambda>r. fs_open r []))"

section \<open>Certificates\<close>

record Identity =
  Leaf :: certificate
  PrivateKey :: private_key
  ID :: string

definition fingerprint_id :: "bytes \<Rightarrow> string" where
  "fingerprint_id der = hex_encode (sha256 der)"

definition validateCertificate :: "int \<Rightarrow> certificate \<Rightarrow> error + unit" where
  "validateCertificate now cert =
     (if PublicKeyAlgorithm cert \<noteq> Ed25519
      then Inl (Errorf ''device certificate must use Ed25519'' [])
      else if now < NotBefore cert \<or> now > NotAfter cert
      then Inl (Errorf ''device certificate is outside its validity period'' [])
      else if KeyUsage cert AND KeyUsageDigitalSignature = 0
      then Inl (Errorf ''device certificate must allow digital signatures'' [])
      else if \<not> SelfSigned cert
      then Inl (Errorf ''device certificate is not self-signed'' [])
      else Inr ())"

definition verifyPeer :: "(string \<Rightarrow> bool) \<Rightarrow> int \<Rightarrow> certificate list \<Rightarrow> error + unit" where
  "verifyPeer allowed now chain =
     (case chain of
        [cert] \<Rightarrow>
          (case validateCertificate now cert of
             Inl err \<Rightarrow> Inl err
           | Inr _ \<Rightarrow>
               (if \<not> allowed (fingerprint_id (Raw cert))
                then Inl (Errorf ''untrusted device certificate fingerprint'' []) else Inr ()))
      | _ \<Rightarrow> Inl (Errorf ''peer must supply exactly one device certificate'' []))"

definition ServerTLS :: "Identity \<Rightarrow> string list \<Rightarrow> tls_Config" where
  "ServerTLS i allowedIDs =
     \<lparr>MinVersion = VersionTLS13, OwnCertificate = Leaf i, ClientAuth = RequireAnyClientCert,
      InsecureSkipVerify = False, VerifyConnection = Some (verifyPeer (\<lambda>id. id \<in> set allowedIDs)),
      TrustedChain = (\<lambda>_. False)\<rparr>"

definition ClientTLS :: "Identity \<Rightarrow> string \<Rightarrow> tls_Config" where
  "ClientTLS i expectedID =
     \<lparr>MinVersion = VersionTLS13, OwnCertificate = Leaf i, ClientAuth = NoClientCert,
      InsecureSkipVerify = True, VerifyConnection = Some (verifyPeer (\<lambda>id. id = expectedID)),
      TrustedChain = (\<lambda>_. False)\<rparr>"

section \<open>The state directory\<close>

text \<open>The body of the loop of \<open>Load\<close>; 63 is octal 077.\<close>

definition check_identity_file :: "string \<Rightarrow> string \<Rightarrow> (world, unit) io" where
  "check_identity_file dir name =
     bind (attempt (os_Lstat dir name)) (\<lambda>res.
     case res of
       Inl err \<Rightarrow> throw (Wrap ''identity is missing or incomplete'' err)
     | Inr info \<Rightarrow>
         bind (fail_if (fi_type info \<noteq> Regular) (Errorf ''identity file %s must be a regular file'' [name])) (\<lambda>_.
         fail_if (name = ''key.pem'' \<and> fi_perm info AND 63 \<noteq> 0)
           (Errorf ''private key permissions must be 0600 or stricter'' [])))"

definition LoadX509KeyPair :: "crypto \<Rightarrow> string \<Rightarrow> (world, bytes list \<times> private_key) io" where
  "LoadX509KeyPair K dir =
     bind (os_ReadFile dir ''cert.pem'') (\<lambda>cert.
     bind (os_ReadFile dir ''key.pem'') (\<lambda>key.
     lift_sum (X509KeyPair K cert key)))"

definition identity_Load :: "crypto \<Rightarrow> string \<Rightarrow> (world, Identity) io" where
  "identity_Load K dir =
     bind (check_identity_file dir ''cert.pem'') (\<lambda>_.
     bind (check_identity_file dir ''key.pem'') (\<lambda>_.
     bind (attempt (LoadX509KeyPair K dir)) (\<lambda>res.
     case res of
       Inl err \<Rightarrow> throw (Wrap ''load device identity'' err)
     | Inr (chain, key) \<Rightarrow>
         bind (fail_if (length chain \<noteq> 1) (Errorf ''identity must contain one self-signed certificate'' [])) (\<lambda>_.
         bind (lift_sum (ParseCertificate K (hd chain))) (\<lambda>leaf.
         bind time_Now (\<lambda>now.
         bind (lift_sum (validateCertificate now leaf)) (\<lambda>_.
         case key of
           Ed25519Key k \<Rightarrow> return \<lparr>Leaf = leaf, PrivateKey = key, ID = fingerprint_id (Raw leaf)\<rparr>
         | OtherKey k \<Rightarrow> throw (Errorf ''identity private key must be Ed25519'' []))))))))"

text \<open>Write a temporary file and link it under its final name, which must be free; the temporary name
  is removed on every path.\<close>

definition write_temp :: "handle \<Rightarrow> bytes \<Rightarrow> (world, unit) io" where
  "write_temp f data =
     bind (attempt (bind (File_Write f 0 data) (\<lambda>_. File_Sync f))) (\<lambda>res.
     case res of
       Inl err \<Rightarrow> bind (attempt (File_Close f)) (\<lambda>_. throw err)
     | Inr _ \<Rightarrow> File_Close f)"

definition writeExclusive :: "string \<Rightarrow> string \<Rightarrow> bytes \<Rightarrow> (world, unit) io" where
  "writeExclusive dir name data =
     bind (os_CreateTemp dir) (\<lambda>(tmp, f).
     deferring (attempt (os_Remove dir tmp))
       (bind (write_temp f data) (\<lambda>_.
        bind (attempt (os_Link dir tmp name)) (\<lambda>res.
        case res of
          Inl err \<Rightarrow> throw (Wrap ''publish identity'' err)
        | Inr _ \<Rightarrow> bind (os_OpenDir dir) (\<lambda>d. File_Sync d)))))"

text \<open>\<open>time.Hour\<close> counts nanoseconds; the validity starts a day ago and ends in ten years.\<close>

definition identity_template :: "crypto \<Rightarrow> bytes \<Rightarrow> int \<Rightarrow> cert_template" where
  "identity_template K serial now =
     \<lparr>SerialNumber = serial, CommonName = ''Backuply device'',
      TNotBefore = now - 24 * 3600 * 10 ^ 9, TNotAfter = AddYears K now 10,
      TKeyUsage = KeyUsageDigitalSignature, ExtKeyUsage = [''ServerAuth'', ''ClientAuth'']\<rparr>"

definition LoadOrCreate :: "crypto \<Rightarrow> string \<Rightarrow> (world, Identity) io" where
  "LoadOrCreate K dir =
     bind (attempt (os_Lstat dir ''cert.pem'')) (\<lambda>certErr.
     bind (attempt (os_Lstat dir ''key.pem'')) (\<lambda>keyErr.
     if certErr \<noteq> Inl NotExist \<or> keyErr \<noteq> Inl NotExist then identity_Load K dir
     else
       bind (os_MkdirAll dir 448) (\<lambda>_.
       bind rand_Read (\<lambda>seed.
       bind rand_Read (\<lambda>serial.
       bind time_Now (\<lambda>now.
       bind (lift_sum (CreateCertificate K (identity_template K serial now) (GenerateKey K seed))) (\<lambda>der.
       bind (lift_sum (MarshalPKCS8PrivateKey K (GenerateKey K seed))) (\<lambda>keyDER.
       bind (writeExclusive dir ''key.pem'' (PemEncode K ''PRIVATE KEY'' keyDER)) (\<lambda>_.
       bind (writeExclusive dir ''cert.pem'' (PemEncode K ''CERTIFICATE'' der)) (\<lambda>_.
       identity_Load K dir))))))))))"

section \<open>Which peers get in\<close>

text \<open>What a device certificate has to be.\<close>

definition device_certificate :: "int \<Rightarrow> certificate \<Rightarrow> bool" where
  "device_certificate now cert \<longleftrightarrow> PublicKeyAlgorithm cert = Ed25519 \<and> NotBefore cert \<le> now \<and> now \<le> NotAfter cert
     \<and> KeyUsage cert AND KeyUsageDigitalSignature \<noteq> 0 \<and> SelfSigned cert"

lemma validateCertificate_Inr: "validateCertificate now cert = Inr () \<longleftrightarrow> device_certificate now cert"
  by (auto simp: validateCertificate_def device_certificate_def)

definition pinned :: "(string \<Rightarrow> bool) \<Rightarrow> int \<Rightarrow> certificate list \<Rightarrow> bool" where
  "pinned allowed now chain \<longleftrightarrow>
     (\<exists>cert. chain = [cert] \<and> allowed (hashBytes (Raw cert)) \<and> device_certificate now cert)"

lemma verifyPeer_Inr: "verifyPeer allowed now chain = Inr () \<longleftrightarrow> pinned allowed now chain"
  by (auto simp: validateCertificate_Inr [symmetric] verifyPeer_def pinned_def fingerprint_id_def hashBytes_def split: list.splits sum.splits if_splits)

lemma server_handshake_pinned:
  "tls_server_verify (ServerTLS i ids) now chain = Inr certs \<longleftrightarrow> certs = chain \<and> pinned (\<lambda>id. id \<in> set ids) now chain"
  by (auto simp: tls_server_verify_def tls_callback_Inr ServerTLS_def verifyPeer_Inr) (auto simp: pinned_def)

lemma client_handshake_pinned:
  "tls_client_verify (ClientTLS i dev) now chain = Inr certs \<longleftrightarrow> certs = chain \<and> pinned (\<lambda>x. x = dev) now chain"
  by (auto simp: tls_client_verify_def tls_callback_Inr ClientTLS_def verifyPeer_Inr) (auto simp: pinned_def)

theorem configurations_accepted:
  "validateTLS (Some (ServerTLS i ids)) True = Inr () \<and> validateTLS (Some (ClientTLS i dev)) False = Inr ()
   \<and> (tls_server_verify (ServerTLS i ids) now chain = Inr chain \<longleftrightarrow>
        (\<exists>cert. chain = [cert] \<and> hashBytes (Raw cert) \<in> set ids \<and> device_certificate now cert))
   \<and> (tls_client_verify (ClientTLS i dev) now chain = Inr chain \<longleftrightarrow>
        (\<exists>cert. chain = [cert] \<and> hashBytes (Raw cert) = dev \<and> device_certificate now cert))"
  unfolding server_handshake_pinned client_handshake_pinned
  by (simp add: validateTLS_def ServerTLS_def ClientTLS_def pinned_def)

text \<open>The certificates are checked at the time of the call.\<close>

lemma tls_Handshake_time:
  assumes "tls_Handshake verify w = (Inr certs, w')"
  shows "verify (int (clock (wfs w))) (peer_chain (conn w')) = Inr certs \<and> conn w' = conn w"
  using assms
  by (auto simp: tls_Handshake_def run_bind net_def time_Now_def ctx_Err_def split: prod.splits sum.splits option.splits if_splits)

lemma tls_Handshake_Inr:
  "tls_Handshake verify w = (Inr certs, w') \<Longrightarrow> \<exists>t. verify t (peer_chain (conn w')) = Inr certs \<and> conn w' = conn w"
  using tls_Handshake_time by blast

lemma bind_cong_run:
  assumes "\<And>w x w'. m w = (Inr x, w') \<Longrightarrow> f x = g x"
  shows "bind m f = bind m g"
proof
  fix w
  obtain r w' where m: "m w = (r, w')" by fastforce
  show "bind m f w = bind m g w"
  proof (cases r)
    case (Inr x)
    with assms [of w x w'] m show ?thesis by (simp add: run_bind)
  qed (simp add: m run_bind)
qed

lemma handleRequest_own_peer:
  assumes "\<And>f. backend_List b peer f = backend_List b' peer f"
    "\<And>f n h k. backend_ReadBlock b peer f n h k = backend_ReadBlock b' peer f n h k"
  shows "serve_requests n b peer = serve_requests n b' peer"
proof -
  have "handleRequest b peer = handleRequest b' peer"
    by (simp add: fun_eq_iff handleRequest_def handle_list_def handle_block_def assms cong: option.case_cong)
  then show ?thesis by (induction n) simp_all
qed

text \<open>C23. A connection never depends on what the backend answers to a device that is not in the list of
  trusted fingerprints: two backends that agree on the trusted devices are served the same on every
  input.\<close>

theorem strangers_not_served:
  assumes "\<And>p f. p \<in> set ids \<Longrightarrow> backend_List b p f = backend_List b' p f"
    "\<And>p f n h k. p \<in> set ids \<Longrightarrow> backend_ReadBlock b p f n h k = backend_ReadBlock b' p f n h k"
  shows "serveConn (ServerTLS i ids) b = serveConn (ServerTLS i ids) b'"
  unfolding serveConn_def
proof (rule arg_cong [where f = "bind Conn_SetDeadline"], rule ext, rule bind_cong_run)
  fix w certs w'
  assume "tls_Handshake (tls_server_verify (ServerTLS i ids)) w = (Inr certs, w')"
  then obtain cert where c: "certs = [cert]" "hashBytes (Raw cert) \<in> set ids"
    using tls_Handshake_Inr server_handshake_pinned unfolding pinned_def by metis
  have "serve_requests n b (peer_fingerprint cert) = serve_requests n b' (peer_fingerprint cert)" for n
    by (rule handleRequest_own_peer) (use assms c in \<open>simp_all add: peer_fingerprint_def\<close>)
  then show "(case certs of [] \<Rightarrow> throw (Errorf ''no peer certificate'' [])
     | cert # _ \<Rightarrow> bind wire_read (\<lambda>(hello, _).
         bind (fail_if (MType hello \<noteq> ''hello'' \<or> MVersion hello \<noteq> Version) (Errorf ''unsupported hello'' [])) (\<lambda>_.
         bind (wire_send hello_message) (\<lambda>_.
         bind get_state (\<lambda>w. serve_requests (Suc (length (rx (conn w)))) b (peer_fingerprint cert)))))) =
     (case certs of [] \<Rightarrow> throw (Errorf ''no peer certificate'' [])
     | cert # _ \<Rightarrow> bind wire_read (\<lambda>(hello, _).
         bind (fail_if (MType hello \<noteq> ''hello'' \<or> MVersion hello \<noteq> Version) (Errorf ''unsupported hello'' [])) (\<lambda>_.
         bind (wire_send hello_message) (\<lambda>_.
         bind get_state (\<lambda>w. serve_requests (Suc (length (rx (conn w)))) b' (peer_fingerprint cert))))))"
    by (simp add: c(1) del: serve_requests.simps)
qed

text \<open>Two backends that answer the trusted device alike and differ on every other peer.\<close>

definition refusing :: "Backend \<Rightarrow> Backend" where
  "refusing b = \<lparr>backend_List = (\<lambda>p f. if p = ''good'' then backend_List b p f else throw Canceled),
     backend_ReadBlock = (\<lambda>p f n h k. if p = ''good'' then backend_ReadBlock b p f n h k else throw Canceled)\<rparr>"

definition demo_identity :: Identity where
  "demo_identity = \<lparr>Leaf = OwnCertificate demo_cfg, PrivateKey = Ed25519Key ''k'', ID = hashBytes ''c''\<rparr>"

theorem strangers_not_served_witness:
  "serveConn (ServerTLS demo_identity [''good'']) demo_backend = serveConn (ServerTLS demo_identity [''good'']) (refusing demo_backend)"
  by (rule strangers_not_served) (simp_all add: refusing_def)

section \<open>Whom a client talks to\<close>

definition same_chain :: "world \<Rightarrow> world \<Rightarrow> bool" where
  "same_chain w w' \<longleftrightarrow> peer_chain (conn w') = peer_chain (conn w)"

lemma preorder_same_chain [simp, intro]: "preorder_rel same_chain"
  unfolding same_chain_def by (rule preorder_rel_frame)

lemma within_net_chain: "(\<And>c. peer_chain (snd (f c)) = peer_chain c) \<Longrightarrow> within same_chain (net f)"
proof -
  assume f: "\<And>c. peer_chain (snd (f c)) = peer_chain c"
  have "same_chain w (snd (net f w))" for w
  proof -
    obtain e w1 where t: "tick w = (e, w1)" by fastforce
    show ?thesis using t f [of "conn w1"] by (auto simp: net_def same_chain_def split: option.split prod.split)
  qed
  then show ?thesis by (simp add: within_def)
qed

lemma within_wire_chain: "(\<And>c. peer_chain (f c) = peer_chain c) \<Longrightarrow> within same_chain (set_wire f)"
  by (simp add: within_def set_wire_def same_chain_def)

lemma within_client_hello: "within same_chain (client_operation client_hello)"
  unfolding client_operation_def client_hello_def wire_send_def wire_write_def wire_read_def readFrame_def writeFrame_def
    Writer_Write_def Writer_Flush_def put_or_send_def
  by (intro within_intros within_net_chain within_wire_chain preorder_same_chain) (auto simp: wire_take_def)

lemma within_handshake_passes: "within passes (tls_Handshake verify)"
  unfolding tls_Handshake_def by (intro within_intros within_net_passes preorder_passes)

lemma within_client_hello_passes: "within passes (client_operation client_hello)"
  unfolding client_operation_def client_hello_def wire_send_def wire_write_def wire_read_def readFrame_def writeFrame_def
    Writer_Write_def Writer_Flush_def put_or_send_def
  by (intro within_intros within_net_passes within_wire_passes preorder_passes)

text \<open>C24. A client that connects with ClientTLS has, when Dial succeeds, a peer with exactly one
  certificate, whose SHA-256 is the configured device id, with an Ed25519 key, usable for digital
  signatures, self-signed, and valid at the time the clock of this machine showed at a moment during
  the call.\<close>

theorem client_Dial_pins:
  "case client_Dial (Some (ClientTLS i dev)) w of
     (Inl err, w') \<Rightarrow> True
   | (Inr _, w') \<Rightarrow> \<exists>cert now k. peer_chain (conn w') = [cert] \<and> hashBytes (Raw cert) = dev
       \<and> PublicKeyAlgorithm cert = Ed25519 \<and> NotBefore cert \<le> now \<and> now \<le> NotAfter cert
       \<and> KeyUsage cert AND KeyUsageDigitalSignature \<noteq> 0 \<and> SelfSigned cert
       \<and> k \<le> elapsed w w' \<and> now = int (clock (moment w k))"
proof -
  obtain res w' where run: "client_Dial (Some (ClientTLS i dev)) w = (res, w')" by fastforce
  show ?thesis
  proof (cases res)
    case (Inr u)
    have "validateTLS (Some (ClientTLS i dev)) False = Inr ()" by (simp add: validateTLS_def ClientTLS_def)
    with run Inr obtain u1 w1 certs w2 where d: "net_Dial w = (Inr u1, w1)"
      and h: "tls_Handshake (tls_client_verify (ClientTLS i dev)) w1 = (Inr certs, w2)"
      and o: "client_operation client_hello w2 = (Inr (), w')"
      by (auto simp: client_Dial_def run_bind run_lift_sum run_attempt split: prod.splits sum.splits)
    from tls_Handshake_time [OF h] have p: "pinned (\<lambda>x. x = dev) (int (clock (wfs w1))) (peer_chain (conn w2))"
      unfolding client_handshake_pinned by blast
    have c: "peer_chain (conn w') = peer_chain (conn w2)"
      using withinD [OF within_client_hello o] by (simp add: same_chain_def)
    note before = withinD [OF net_Dial_passes d]
      and after = passes_trans [OF withinD [OF within_handshake_passes h] withinD [OF within_client_hello_passes o]]
    show ?thesis
      using p passes_moment [OF before] elapsed_mono [OF before after]
      by (auto simp: run Inr c pinned_def device_certificate_def)
  qed (simp add: run)
qed

end
