(* ===== verification/Enrolment.thy ===== *)
theory Enrolment
  imports Identity
begin

text \<open>
  The identity in the state directory: one that is there is only read, a new one is written under
  names that were free and is the one the next start loads.
\<close>

section \<open>The identity on disk\<close>

lemma in_dir_keeps: "(\<And>r. snd (f r s) = s) \<Longrightarrow> snd (in_dir dir f s) = s"
  by (simp add: in_dir_def split: option.split)

lemma fs_lstat_keeps: "snd (fs_lstat r p s) = s"
  by (simp add: fs_lstat_def split: sum.split)

lemma fs_read_file_keeps: "snd (fs_read_file name r s) = s"
  by (simp add: fs_read_file_def split: sum.split node.split)

lemma os_reads_unchanged:
  "within (fs_rel (\<lambda>s s'. s' = s)) (os_Lstat dir name)"
  "within (fs_rel (\<lambda>s s'. s' = s)) (os_ReadFile dir name)"
  by (rule within_sys_fs [OF preorder_rel_frame [where f = "\<lambda>s. s"]], rule in_dir_keeps,
      simp add: fs_lstat_keeps fs_read_file_keeps)+

lemma within_private_key [within_intros]:
  "\<lbrakk> \<And>k. key = Ed25519Key k \<Longrightarrow> within R (f k); \<And>k. key = OtherKey k \<Longrightarrow> within R (g k) \<rbrakk> \<Longrightarrow>
     within R (case key of Ed25519Key k \<Rightarrow> f k | OtherKey k \<Rightarrow> g k)"
  by (simp split: private_key.split)

lemma identity_Load_unchanged: "within (fs_rel (\<lambda>s s'. s' = s)) (identity_Load K dir)"
  unfolding identity_Load_def check_identity_file_def LoadX509KeyPair_def
  by (intro within_intros os_reads_unchanged unchanged.pre)

lemma os_Lstat_calm:
  assumes "calm w" "mounts (wfs w) dir = Some r" "os_Lstat dir name w = (res, w')"
  shows "calm w' \<and> wfs w' = wfs w \<and>
    ((\<exists>t. res = Inl (IOError t)) \<or> res = fst (fs_lstat r [name] (wfs w)))"
proof -
  obtain e w1 where t: "tick w = (e, w1)" by fastforce
  from tick_calm [OF t assms(1)] have "calm w1" "wfs w1 = wfs w" by simp_all
  with t assms(2,3) tick_error [of w _ w1] fs_lstat_keeps [of r "[name]" "wfs w"] show ?thesis
    by (cases e; cases "fs_lstat r [name] (wfs w)") (auto simp: sys_def in_dir_def)
qed

lemma check_identity_file_Inr:
  assumes "calm w" "mounts (wfs w) dir = Some r" "check_identity_file dir name w = (Inr u, w')"
  shows "\<exists>i. lookup_node (trees (wfs w) r) [name] = Inr (File i)
    \<and> (name = ''key.pem'' \<longrightarrow> imode (inodes (wfs w) i) AND 63 = 0)"
proof -
  obtain res w1 where l: "os_Lstat dir name w = (res, w1)" by fastforce
  from os_Lstat_calm [OF assms(1,2) l] assms(3) l obtain info where
    "res = Inr info" "fst (fs_lstat r [name] (wfs w)) = Inr info" "fi_type info = Regular"
    "name = ''key.pem'' \<longrightarrow> fi_perm info AND 63 = 0"
    by (auto simp: check_identity_file_def run_bind run_attempt run_fail_if split: sum.splits if_splits)
  then show ?thesis
    by (auto simp: fs_lstat_def node_info_def ino_info_def plain_info_def split: sum.splits node.splits)
qed

text \<open>Both files are regular and readable by their owner only.\<close>

definition private_files :: "nat \<Rightarrow> fsys \<Rightarrow> bool" where
  "private_files r s \<longleftrightarrow>
     (\<exists>i j. lookup_node (trees s r) [''cert.pem''] = Inr (File i) \<and> lookup_node (trees s r) [''key.pem''] = Inr (File j)
        \<and> imode (inodes s i) AND 63 = 0 \<and> imode (inodes s j) AND 63 = 0)"

text \<open>The identity that the two files of a directory hold: the key file is private, the files pair, the
  only certificate of the one is parsed to the leaf, a device certificate at the time \<open>now\<close>, the key is
  the key of the other, and the id is the hash of the leaf.\<close>

definition stored_identity :: "crypto \<Rightarrow> int \<Rightarrow> nat \<Rightarrow> fsys \<Rightarrow> Identity \<Rightarrow> bool" where
  "stored_identity K now r s ident \<longleftrightarrow>
     (\<exists>i j der k. lookup_node (trees s r) [''cert.pem''] = Inr (File i) \<and> lookup_node (trees s r) [''key.pem''] = Inr (File j)
        \<and> imode (inodes s j) AND 63 = 0
        \<and> X509KeyPair K (idata (inodes s i)) (idata (inodes s j)) = Inr ([der], Ed25519Key k)
        \<and> PrivateKey ident = Ed25519Key k \<and> ParseCertificate K der = Inr (Leaf ident)
        \<and> device_certificate now (Leaf ident) \<and> ID ident = hashBytes (Raw (Leaf ident)))"

lemma check_identity_file_unchanged: "within (fs_rel (\<lambda>s s'. s' = s)) (check_identity_file dir name)"
  unfolding check_identity_file_def by (intro within_intros os_reads_unchanged unchanged.pre)

lemma os_ReadFile_Inr:
  assumes "calm w" "mounts (wfs w) dir = Some r" "os_ReadFile dir name w = (Inr d, w')"
    "lookup_node (trees (wfs w) r) [name] = Inr (File i)"
  shows "calm w' \<and> wfs w' = wfs w \<and> d = idata (inodes (wfs w) i)"
  using sys_calm [OF assms(1,3)] assms(2,4) by (auto simp: in_dir_def fs_read_file_def)

lemma identity_Load_Inr:
  assumes "calm w" "mounts (wfs w) dir = Some r" "identity_Load K dir w = (Inr i, w')"
  shows "stored_identity K (int (clock (wfs w))) r (wfs w) i"
proof -
  obtain w1 w2 chain key w3 leaf where c: "check_identity_file dir ''cert.pem'' w = (Inr (), w1)"
    and k: "check_identity_file dir ''key.pem'' w1 = (Inr (), w2)"
    and l: "LoadX509KeyPair K dir w2 = (Inr (chain, key), w3)" and one: "length chain = 1"
    and p: "ParseCertificate K (hd chain) = Inr leaf"
    and v: "validateCertificate (int (clock (wfs w3))) leaf = Inr ()"
    and rest: "(case key of
           Ed25519Key k \<Rightarrow> return \<lparr>Leaf = leaf, PrivateKey = key, ID = fingerprint_id (Raw leaf)\<rparr>
         | OtherKey k \<Rightarrow> throw (Errorf ''identity private key must be Ed25519'' [])) w3 = (Inr i, w')"
    using assms(3) unfolding identity_Load_def
    by (auto elim!: bind_eq_InrE simp: attempt_Inr lift_sum_Inr fail_if_Inr time_Now_def split: sum.splits prod.splits)
  have w1: "calm w1" "wfs w1 = wfs w"
    using fs_rel_calm [OF check_identity_file_unchanged preorder_rel_frame [where f = "\<lambda>s. s"] assms(1) c] by auto
  have w2: "calm w2" "wfs w2 = wfs w1"
    using fs_rel_calm [OF check_identity_file_unchanged preorder_rel_frame [where f = "\<lambda>s. s"] w1(1) k] by auto
  obtain ic where ic: "lookup_node (trees (wfs w) r) [''cert.pem''] = Inr (File ic)"
    using check_identity_file_Inr [OF assms(1,2) c] by blast
  obtain ik where ik: "lookup_node (trees (wfs w) r) [''key.pem''] = Inr (File ik)" "imode (inodes (wfs w) ik) AND 63 = 0"
    using check_identity_file_Inr [OF w1(1) _ k, of r] assms(2) w1(2) by auto
  obtain cp v1 kp v2 where cp: "os_ReadFile dir ''cert.pem'' w2 = (Inr cp, v1)" and kp: "os_ReadFile dir ''key.pem'' v1 = (Inr kp, v2)"
    and pair: "X509KeyPair K cp kp = Inr (chain, key)" "w3 = v2"
    using l unfolding LoadX509KeyPair_def by (auto elim!: bind_eq_InrE simp: lift_sum_Inr)
  have v1: "calm v1" "wfs v1 = wfs w" "cp = idata (inodes (wfs w) ic)"
    using os_ReadFile_Inr [OF w2(1) _ cp, of r ic] assms(2) ic w1 w2 by auto
  have v2: "wfs v2 = wfs w" "kp = idata (inodes (wfs w) ik)"
    using os_ReadFile_Inr [OF v1(1) _ kp, of r ik] assms(2) ik v1(2) by auto
  have "chain = [hd chain]" using one by (cases chain) auto
  with rest v pair p v1 v2 ic ik show ?thesis
    unfolding stored_identity_def
    by (cases key) (auto simp: fingerprint_id_def hashBytes_def validateCertificate_Inr)
qed

text \<open>C26. As soon as the certificate or the key of a device exists in an otherwise idle state
  directory, LoadOrCreate writes nothing: it returns an error or the identity on the disk, that is,
  the certificate and private key that cert.pem and key.pem of this directory hold together, a valid
  device certificate now, its id the SHA-256 of it, with a key file only its owner can read.\<close>

theorem identity_never_replaced:
  assumes "calm w" "mounts (wfs w) dir = Some r" "name \<in> {''cert.pem'', ''key.pem''}"
    "lookup_node (trees (wfs w) r) [name] \<noteq> Inl NotExist"
  shows "case LoadOrCreate K dir w of
      (Inl err, w') \<Rightarrow> wfs w' = wfs w
    | (Inr i, w') \<Rightarrow> wfs w' = wfs w \<and> stored_identity K (int (clock (wfs w))) r (wfs w) i"
proof -
  obtain rc w1 where c: "os_Lstat dir ''cert.pem'' w = (rc, w1)" by fastforce
  obtain rk w2 where k: "os_Lstat dir ''key.pem'' w1 = (rk, w2)" by fastforce
  note cc = os_Lstat_calm [OF assms(1,2) c]
  have kk: "calm w2 \<and> wfs w2 = wfs w1 \<and> ((\<exists>t. rk = Inl (IOError t)) \<or> rk = fst (fs_lstat r [''key.pem''] (wfs w1)))"
    by (rule os_Lstat_calm [OF _ _ k]) (use cc assms(2) in simp_all)
  have "fst (fs_lstat r [name] (wfs w)) \<noteq> Inl NotExist" using assms(4) by (auto simp: fs_lstat_def split: sum.split)
  with cc kk assms(3) have "rc \<noteq> Inl NotExist \<or> rk \<noteq> Inl NotExist" by auto
  then have load: "LoadOrCreate K dir w = identity_Load K dir w2"
    by (simp add: LoadOrCreate_def run_bind run_attempt c k)
  obtain res w' where l: "identity_Load K dir w2 = (res, w')" by fastforce
  have fs: "wfs w2 = wfs w" "calm w2" using cc kk by simp_all
  from fs_rel_calm [OF identity_Load_unchanged _ fs(2) l] have "wfs w' = wfs w"
    using preorder_rel_frame [where f = "\<lambda>s. s"] fs(1) by auto
  moreover have "stored_identity K (int (clock (wfs w))) r (wfs w) i" if "res = Inr i" for i
    using identity_Load_Inr [OF fs(2) _ l [unfolded that], of r] fs(1) assms(2) by simp
  ultimately show ?thesis by (simp add: load l split: sum.split)
qed

section \<open>A new identity\<close>

text \<open>A directory with a free temporary name and a free name takes a new file.\<close>

definition holds_new :: "nat \<Rightarrow> string \<Rightarrow> bytes \<Rightarrow> fsys \<Rightarrow> fsys \<Rightarrow> bool" where
  "holds_new r name data s s' \<longleftrightarrow>
     (\<exists>m es es'. trees s r = Dir m es \<and> trees s' r = Dir m es' \<and>
        (\<forall>p. p \<noteq> temp_candidate 0 \<longrightarrow> map_of es' p = (if p = name then Some (File (next_inode s)) else map_of es p))
        \<and> map_of es' (temp_candidate 0) = None)
     \<and> idata (inodes s' (next_inode s)) = data \<and> imode (inodes s' (next_inode s)) = 384 AND NOT (umask s)
     \<and> (\<forall>i. i \<noteq> next_inode s \<longrightarrow> inodes s' i = inodes s i)
     \<and> (\<forall>r'. r' \<noteq> r \<longrightarrow> trees s' r' = trees s r') \<and> next_tree s' = next_tree s
     \<and> next_inode s' = Suc (next_inode s) \<and> mounts s' = mounts s \<and> umask s' = umask s
     \<and> clock s \<le> clock s' \<and> clock s' \<le> clock s + 2"

lemma create_temp_first:
  assumes "trees s r = Dir m es" "map_of es (temp_candidate 0) = None"
  shows "fs_create_temp [0..<10000] r s = (Inr (temp_candidate 0, HFile (next_inode s)),
    s\<lparr>trees := (trees s)(r := Dir m (AList.update (temp_candidate 0) (File (next_inode s)) es)),
      inodes := (inodes s)(next_inode s := \<lparr>idata = [], imode = 384 AND NOT (umask s), imtime = clock s\<rparr>),
      next_inode := Suc (next_inode s), clock := Suc (clock s)\<rparr>)"
proof -
  have up: "[0..<10000] = 0 # [Suc 0..<10000]" by (rule upt_conv_Cons) simp
  show ?thesis
    unfolding up fs_create_temp.simps
    using assms by (simp add: fs_create_excl_def fs_link_new_def parent_of_def set_tree_def set_inode_def Let_def)
qed

lemma link_new_name:
  assumes "trees s r = Dir m es" "map_of es old = Some n" "map_of es new = None"
  shows "fs_link old new r s = (Inr (), s\<lparr>trees := (trees s)(r := Dir m (AList.update new n es))\<rparr>)"
  using assms by (simp add: fs_link_def fs_link_new_def parent_of_def set_tree_def)

lemma remove_name:
  assumes "trees s r = Dir m es" "map_of es old = Some (File i)"
  shows "fs_remove r [old] s = (Inr (), s\<lparr>trees := (trees s)(r := Dir m (AList.delete old es))\<rparr>)"
  using assms by (simp add: fs_remove_def set_tree_def)

lemma writeExclusive_quiet:
  assumes q: "quiet w" and mt: "mounts (wfs w) dir = Some r" and tr: "trees (wfs w) r = Dir m es"
    and free: "map_of es (temp_candidate 0) = None" "map_of es name = None" "name \<noteq> temp_candidate 0"
  shows "\<exists>s'. writeExclusive dir name data w = (Inr (), w\<lparr>wfs := s'\<rparr>) \<and> holds_new r name data (wfs w) s'"
proof -
  define s where "s = wfs w"
  define i where "i = next_inode s"
  define tmp where "tmp = temp_candidate 0"
  define es1 where "es1 = AList.update tmp (File i) es"
  define es2 where "es2 = AList.update name (File i) es1"
  define s1 where "s1 = s\<lparr>trees := (trees s)(r := Dir m es1),
      inodes := (inodes s)(i := \<lparr>idata = [], imode = 384 AND NOT (umask s), imtime = clock s\<rparr>),
      next_inode := Suc i, clock := Suc (clock s)\<rparr>"
  define s2 where "s2 = s1\<lparr>inodes := (inodes s)(i := \<lparr>idata = data, imode = 384 AND NOT (umask s), imtime = Suc (clock s)\<rparr>),
      clock := Suc (Suc (clock s))\<rparr>"
  define s3 where "s3 = s2\<lparr>trees := (trees s)(r := Dir m es2)\<rparr>"
  define s4 where "s4 = s3\<lparr>trees := (trees s)(r := Dir m (AList.delete tmp es2))\<rparr>"
  have qw: "quiet (w\<lparr>wfs := x\<rparr>)" for x using q by simp
  have m: "mounts x dir = Some r" if "x \<in> {s, s1, s2, s3, s4}" for x
    using that mt by (auto simp: s_def s1_def s2_def s3_def s4_def)
  have mo: "map_of es1 tmp = Some (File i)" "map_of es1 name = None" "map_of es2 tmp = Some (File i)"
    using free by (simp_all add: es1_def es2_def tmp_def update_conv')
  have c: "os_CreateTemp dir w = (Inr (tmp, HFile i), w\<lparr>wfs := s1\<rparr>)"
    using create_temp_first [OF tr free(1)] mt q
    by (simp add: sys_quiet in_dir_def s1_def s_def i_def es1_def tmp_def)
  have wr: "write_temp (HFile i) data (w\<lparr>wfs := s1\<rparr>) = (Inr (), w\<lparr>wfs := s2\<rparr>)"
    using q by (simp add: write_temp_def run_bind run_attempt sys_quiet fs_write_def fs_sync_def set_inode_def
        overwrite_def s1_def s2_def)
  have t2: "trees s2 r = Dir m es1" by (simp add: s1_def s2_def)
  have l: "os_Link dir tmp name (w\<lparr>wfs := s2\<rparr>) = (Inr (), w\<lparr>wfs := s3\<rparr>)"
    using link_new_name [OF t2 mo(1,2)] m [of s2] q
    by (simp add: sys_quiet in_dir_def) (simp add: s3_def es2_def s2_def s1_def)
  have t3: "trees s3 r = Dir m es2" by (simp add: s3_def)
  have d: "bind (os_OpenDir dir) (\<lambda>d. File_Sync d) (w\<lparr>wfs := s3\<rparr>) = (Inr (), w\<lparr>wfs := s3\<rparr>)"
    using m [of s3] q t3 by (simp add: run_bind sys_quiet in_dir_def fs_open_def fs_sync_def)
  have r: "os_Remove dir tmp (w\<lparr>wfs := s3\<rparr>) = (Inr (), w\<lparr>wfs := s4\<rparr>)"
    using remove_name [OF t3 mo(3)] m [of s3] q
    by (simp add: sys_quiet in_dir_def) (simp add: s4_def s3_def)
  have run: "writeExclusive dir name data w = (Inr (), w\<lparr>wfs := s4\<rparr>)"
    using c wr l d r by (simp add: writeExclusive_def run_bind run_attempt run_deferring)
  have "holds_new r name data (wfs w) s4"
    unfolding holds_new_def s_def [symmetric]
    using free tr
    by (auto simp: s4_def s3_def s2_def s1_def es2_def es1_def tmp_def i_def s_def update_conv' delete_conv')
  with run show ?thesis by blast
qed

text \<open>
  What the standard library promises of the calls of \<open>LoadOrCreate\<close> on the template it makes, for a
  serial number of at most 16 bytes, which are read as a number and so never negative, and a time
  that fits the 64 bits of Go's nanoseconds, so until the year 2262: the certificate is made and is
  parsed back with the fields of the template, its times rounded to seconds, and pairs with its key;
  ten years are not less than ten times 365 days.
\<close>

definition crypto_sound :: "crypto \<Rightarrow> bool" where
  "crypto_sound K \<longleftrightarrow>
     (\<forall>seed. \<exists>k. GenerateKey K seed = Ed25519Key k) \<and>
     (\<forall>serial now seed. length serial \<le> 16 \<longrightarrow> 0 \<le> now \<longrightarrow> now < 2 ^ 63 \<longrightarrow>
        (\<exists>der kd cert. CreateCertificate K (identity_template K serial now) (GenerateKey K seed) = Inr der
           \<and> MarshalPKCS8PrivateKey K (GenerateKey K seed) = Inr kd
           \<and> X509KeyPair K (PemEncode K ''CERTIFICATE'' der) (PemEncode K ''PRIVATE KEY'' kd) = Inr ([der], GenerateKey K seed)
           \<and> ParseCertificate K der = Inr cert \<and> Raw cert = der \<and> PublicKeyAlgorithm cert = Ed25519
           \<and> NotBefore cert \<le> TNotBefore (identity_template K serial now)
           \<and> TNotAfter (identity_template K serial now) - 10 ^ 9 < NotAfter cert
           \<and> KeyUsage cert = TKeyUsage (identity_template K serial now) \<and> SelfSigned cert)) \<and>
     (\<forall>t. 0 \<le> t \<longrightarrow> t < 2 ^ 63 \<longrightarrow> t + 3650 * 24 * 3600 * 10 ^ 9 \<le> AddYears K t 10)"

lemma check_identity_file_quiet:
  assumes "quiet w" "mounts (wfs w) dir = Some r" "trees (wfs w) r = Dir m es" "map_of es name = Some (File i)"
    "imode (inodes (wfs w) i) AND 63 = 0"
  shows "check_identity_file dir name w = (Inr (), w)"
  using assms by (simp add: check_identity_file_def run_bind run_attempt run_fail_if sys_quiet in_dir_def fs_lstat_def
      node_info_def ino_info_def)

lemma identity_Load_quiet:
  assumes "quiet w" "mounts (wfs w) dir = Some r" "trees (wfs w) r = Dir m es"
    "map_of es ''cert.pem'' = Some (File ic)" "map_of es ''key.pem'' = Some (File ik)"
    "imode (inodes (wfs w) ic) AND 63 = 0" "imode (inodes (wfs w) ik) AND 63 = 0"
    "X509KeyPair K (idata (inodes (wfs w) ic)) (idata (inodes (wfs w) ik)) = Inr ([der], Ed25519Key k)"
    "ParseCertificate K der = Inr cert" "validateCertificate (int (clock (wfs w))) cert = Inr ()"
  shows "identity_Load K dir w = (Inr \<lparr>Leaf = cert, PrivateKey = Ed25519Key k, ID = fingerprint_id (Raw cert)\<rparr>, w)"
proof -
  have p: "LoadX509KeyPair K dir w = (Inr ([der], Ed25519Key k), w)"
    using assms by (simp add: LoadX509KeyPair_def run_bind run_lift_sum sys_quiet in_dir_def fs_read_file_def)
  show ?thesis
    using p assms check_identity_file_quiet [OF assms(1-4,6)] check_identity_file_quiet [OF assms(1-3,5,7)]
    by (simp add: identity_Load_def run_bind run_attempt run_fail_if run_lift_sum time_Now_def)
qed

lemma private_mode: "(384 AND x) AND 63 = (0 :: 32 word)"
proof -
  have "(384 AND x) AND 63 = (384 AND 63) AND x" by (simp only: and.assoc and.commute and.left_commute)
  then show ?thesis by simp
qed

text \<open>\<open>only_in r s s'\<close>: a step that works in the tree \<open>r\<close> leaves the other trees, the files that exist and
  the configured paths alone, and takes at most \<open>n\<close> ticks of the clock.\<close>

definition only_in :: "nat \<Rightarrow> nat \<Rightarrow> fsys \<Rightarrow> fsys \<Rightarrow> bool" where
  "only_in n r s s' \<longleftrightarrow> mounts s' = mounts s \<and> (\<forall>r'. r' \<noteq> r \<longrightarrow> trees s' r' = trees s r') \<and> next_tree s' = next_tree s
     \<and> (\<forall>i < next_inode s. inodes s' i = inodes s i) \<and> next_inode s \<le> next_inode s' \<and> umask s' = umask s
     \<and> clock s \<le> clock s' \<and> clock s' \<le> clock s + n"

lemma only_in_trans: "only_in n r s t \<Longrightarrow> only_in k r t u \<Longrightarrow> only_in (n + k) r s u"
  by (auto simp: only_in_def)

lemma holds_new_only_in: "holds_new r name data s s' \<Longrightarrow> only_in 2 r s s'"
  by (auto simp: holds_new_def only_in_def)

text \<open>The directory holds an identity whose key is private and whose certificate is valid until \<open>T\<close>.\<close>

definition enrolled :: "crypto \<Rightarrow> int \<Rightarrow> nat \<Rightarrow> fsys \<Rightarrow> Identity \<Rightarrow> bool" where
  "enrolled K T r s i \<longleftrightarrow> (\<exists>m es ic ik der k cert. trees s r = Dir m es
     \<and> map_of es ''cert.pem'' = Some (File ic) \<and> map_of es ''key.pem'' = Some (File ik) \<and> ic < next_inode s \<and> ik < next_inode s
     \<and> imode (inodes s ic) AND 63 = 0 \<and> imode (inodes s ik) AND 63 = 0
     \<and> X509KeyPair K (idata (inodes s ic)) (idata (inodes s ik)) = Inr ([der], Ed25519Key k) \<and> ParseCertificate K der = Inr cert
     \<and> i = \<lparr>Leaf = cert, PrivateKey = Ed25519Key k, ID = fingerprint_id (Raw cert)\<rparr>
     \<and> (\<forall>t. int (clock s) \<le> t \<longrightarrow> t \<le> T \<longrightarrow> validateCertificate t cert = Inr ()))"

lemma enrolled_load:
  assumes "quiet w" "mounts (wfs w) dir = Some r" "enrolled K T r (wfs w) i" "int (clock (wfs w)) \<le> T"
  shows "identity_Load K dir w = (Inr i, w)"
proof -
  from assms(3) obtain m es ic ik der k cert where e: "trees (wfs w) r = Dir m es"
    "map_of es ''cert.pem'' = Some (File ic)" "map_of es ''key.pem'' = Some (File ik)"
    "imode (inodes (wfs w) ic) AND 63 = 0" "imode (inodes (wfs w) ik) AND 63 = 0"
    "X509KeyPair K (idata (inodes (wfs w) ic)) (idata (inodes (wfs w) ik)) = Inr ([der], Ed25519Key k)" "ParseCertificate K der = Inr cert"
    "i = \<lparr>Leaf = cert, PrivateKey = Ed25519Key k, ID = fingerprint_id (Raw cert)\<rparr>" "validateCertificate (int (clock (wfs w))) cert = Inr ()"
    using assms(4) unfolding enrolled_def by auto
  show ?thesis unfolding e(8) by (rule identity_Load_quiet [OF assms(1,2) e(1-7,9)])
qed

lemma enrolled_stored:
  "enrolled K T r s i \<Longrightarrow> int (clock s) \<le> t \<Longrightarrow> t \<le> T \<Longrightarrow> stored_identity K t r s i"
  by (auto simp: enrolled_def stored_identity_def fingerprint_id_def hashBytes_def validateCertificate_Inr)

lemma enrolled_exists:
  "enrolled K T r s i \<Longrightarrow> private_files r s \<and> (\<exists>k j. lookup_node (trees s r) [''cert.pem''] = Inr (File k)
    \<and> lookup_node (trees s r) [''key.pem''] = Inr (File j))"
  by (auto simp: enrolled_def private_files_def)

lemma LoadOrCreate_quiet:
  assumes "crypto_sound K" "quiet w" "mounts (wfs w) dir = Some r" "trees (wfs w) r = Dir m es"
    "map_of es ''cert.pem'' = None" "map_of es ''key.pem'' = None" "map_of es (temp_candidate 0) = None"
    "nonces w = seed # serial # ns" "length serial \<le> 16" "int (clock (wfs w)) < 2 ^ 63"
  shows "\<exists>i s es'. LoadOrCreate K dir w = (Inr i, w\<lparr>nonces := ns, wfs := s\<rparr>) \<and> enrolled K (int (clock (wfs w)) + 9 * 365 * 24 * 3600 * 10 ^ 9) r s i \<and> only_in 4 r (wfs w) s
    \<and> PrivateKey i = GenerateKey K seed \<and> trees s r = Dir m es'
    \<and> (\<forall>p. p \<notin> {''cert.pem'', ''key.pem'', temp_candidate 0} \<longrightarrow> map_of es' p = map_of es p)"
proof -
  let ?w = "w\<lparr>nonces := ns\<rparr>"
  define now where "now = int (clock (wfs w))"
  define key where "key = GenerateKey K seed"
  from assms(1) obtain k where k: "key = Ed25519Key k" unfolding crypto_sound_def key_def by blast
  have small: "0 \<le> now" "now < 2 ^ 63" using assms(10) by (simp_all add: now_def)
  obtain der kd cert where
    cr: "CreateCertificate K (identity_template K serial now) key = Inr der" "MarshalPKCS8PrivateKey K key = Inr kd"
      "X509KeyPair K (PemEncode K ''CERTIFICATE'' der) (PemEncode K ''PRIVATE KEY'' kd) = Inr ([der], key)"
      "ParseCertificate K der = Inr cert"
    and ce: "PublicKeyAlgorithm cert = Ed25519" "NotBefore cert \<le> TNotBefore (identity_template K serial now)"
      "TNotAfter (identity_template K serial now) - 10 ^ 9 < NotAfter cert"
      "KeyUsage cert = TKeyUsage (identity_template K serial now)" "SelfSigned cert"
    using assms(1,9) small unfolding crypto_sound_def key_def by blast
  have years: "now + 3650 * 24 * 3600 * 10 ^ 9 \<le> AddYears K now 10"
    using assms(1) small unfolding crypto_sound_def by blast
  have ne: "''cert.pem'' \<noteq> temp_candidate 0" "''key.pem'' \<noteq> temp_candidate 0" by (simp_all add: temp_candidate_def)
  have q: "quiet ?w" using assms(2) by simp
  obtain s1 where s1: "writeExclusive dir ''key.pem'' (PemEncode K ''PRIVATE KEY'' kd) ?w = (Inr (), ?w\<lparr>wfs := s1\<rparr>)"
    "holds_new r ''key.pem'' (PemEncode K ''PRIVATE KEY'' kd) (wfs w) s1"
    using writeExclusive_quiet [OF q _ _ assms(7) assms(6) ne(2)] assms(3,4) by fastforce
  then obtain es1 where t1: "trees s1 r = Dir m es1" "map_of es1 ''key.pem'' = Some (File (next_inode (wfs w)))"
    "map_of es1 ''cert.pem'' = None" "map_of es1 (temp_candidate 0) = None"
    using assms(4,5) ne unfolding holds_new_def by fastforce
  have q1: "quiet (?w\<lparr>wfs := s1\<rparr>)" using q by simp
  have m1: "mounts s1 dir = Some r" using s1(2) assms(3) by (simp add: holds_new_def)
  obtain s2 where s2: "writeExclusive dir ''cert.pem'' (PemEncode K ''CERTIFICATE'' der) (?w\<lparr>wfs := s1\<rparr>) = (Inr (), ?w\<lparr>wfs := s2\<rparr>)"
    "holds_new r ''cert.pem'' (PemEncode K ''CERTIFICATE'' der) s1 s2"
    using writeExclusive_quiet [OF q1 _ _ t1(4) t1(3) ne(1)] m1 t1(1) by fastforce
  then obtain es2 where t2: "trees s2 r = Dir m es2" "map_of es2 ''key.pem'' = Some (File (next_inode (wfs w)))"
    "map_of es2 ''cert.pem'' = Some (File (next_inode s1))"
    using t1 ne unfolding holds_new_def by fastforce
  let ?w2 = "?w\<lparr>wfs := s2\<rparr>"
  have nx: "next_inode s1 = Suc (next_inode (wfs w))" using s1(2) by (simp add: holds_new_def)
  have data: "idata (inodes s2 (next_inode s1)) = PemEncode K ''CERTIFICATE'' der"
    "idata (inodes s2 (next_inode (wfs w))) = PemEncode K ''PRIVATE KEY'' kd"
    "imode (inodes s2 (next_inode s1)) AND 63 = 0" "imode (inodes s2 (next_inode (wfs w))) AND 63 = 0"
    using s1(2) s2(2) nx by (simp_all add: holds_new_def private_mode)
  have clk: "clock (wfs w) \<le> clock s2" "clock s2 \<le> clock (wfs w) + 4" using s1(2) s2(2) by (simp_all add: holds_new_def)
  have valid: "validateCertificate t cert = Inr ()" if "int (clock s2) \<le> t" "t \<le> int (clock (wfs w)) + 9 * 365 * 24 * 3600 * 10 ^ 9" for t
    using ce years clk that
    by (simp add: validateCertificate_Inr device_certificate_def identity_template_def now_def KeyUsageDigitalSignature_def)
  define i where "i = \<lparr>Leaf = cert, PrivateKey = key, ID = fingerprint_id (Raw cert)\<rparr>"
  have m2: "mounts s2 dir = Some r" using s2(2) m1 by (simp add: holds_new_def)
  have nx2: "next_inode s2 = Suc (next_inode s1)" using s2(2) by (simp add: holds_new_def)
  have en: "enrolled K (int (clock (wfs w)) + 9 * 365 * 24 * 3600 * 10 ^ 9) r s2 i"
    unfolding enrolled_def i_def k
    by (rule exI [of _ m], rule exI [of _ es2], rule exI [of _ "next_inode s1"], rule exI [of _ "next_inode (wfs w)"],
        rule exI [of _ der], rule exI [of _ k], rule exI [of _ cert])
       (use t2 data cr valid k nx nx2 in simp_all)
  have load: "identity_Load K dir ?w2 = (Inr i, ?w2)"
    by (rule enrolled_load [where T = "int (clock (wfs w)) + 9 * 365 * 24 * 3600 * 10 ^ 9"]) (use q m2 en in simp_all, use clk in linarith)
  have run: "LoadOrCreate K dir w = (Inr i, ?w2)"
    using assms(2-6,8) s1(1) s2(1) load cr
    by (simp add: LoadOrCreate_def run_bind run_attempt run_lift_sum sys_quiet in_dir_def fs_lstat_def fs_make_root_def
        rand_Read_def time_Now_def now_def key_def)
  have "only_in (2 + 2) r (wfs w) s2" by (rule only_in_trans [OF holds_new_only_in [OF s1(2)] holds_new_only_in [OF s2(2)]])
  moreover have "\<forall>p. p \<notin> {''cert.pem'', ''key.pem'', temp_candidate 0} \<longrightarrow> map_of es2 p = map_of es p"
    using s1(2) s2(2) assms(4) t1(1) t2(1) by (auto simp: holds_new_def)
  ultimately show ?thesis using run en t2(1)
    by (intro exI [of _ i] exI [of _ s2] exI [of _ es2]) (simp add: i_def key_def)
qed

text \<open>C27. In an empty state directory, on a machine where no call fails and whose clock is before the
  year 2262, with a serial number of at most 16 random bytes and a library that signs, encodes and
  decodes such a device certificate as documented, LoadOrCreate makes an identity, stores it in
  cert.pem and key.pem, which both only their owner can access, and running it again returns the
  same identity and changes nothing.\<close>

theorem identity_created:
  assumes "crypto_sound K" "quiet w" "mounts (wfs w) dir = Some r" "trees (wfs w) r = Dir m es"
    "map_of es ''cert.pem'' = None" "map_of es ''key.pem'' = None" "map_of es (temp_candidate 0) = None"
    "nonces w = seed # serial # ns" "length serial \<le> 16" "int (clock (wfs w)) < 2 ^ 63"
  shows "\<exists>i w'. LoadOrCreate K dir w = (Inr i, w') \<and> private_files r (wfs w')
     \<and> stored_identity K (int (clock (wfs w'))) r (wfs w') i \<and> PrivateKey i = GenerateKey K seed
     \<and> LoadOrCreate K dir w' = (Inr i, w')"
proof -
  from LoadOrCreate_quiet [OF assms] obtain i s where
    s: "LoadOrCreate K dir w = (Inr i, w\<lparr>nonces := ns, wfs := s\<rparr>)" "enrolled K (int (clock (wfs w)) + 9 * 365 * 24 * 3600 * 10 ^ 9) r s i" "only_in 4 r (wfs w) s" "PrivateKey i = GenerateKey K seed"
    by blast
  let ?w = "w\<lparr>nonces := ns, wfs := s\<rparr>"
  have m: "mounts s dir = Some r" using s(3) assms(3) by (simp add: only_in_def)
  have "int (clock s) \<le> int (clock (wfs w)) + 9 * 365 * 24 * 3600 * 10 ^ 9"
  proof -
    have "clock s \<le> clock (wfs w) + 4" using s(3) by (simp add: only_in_def)
    then have "int (clock s) \<le> int (clock (wfs w)) + 4" by linarith
    then show ?thesis by simp
  qed
  note late = this
  then have "identity_Load K dir ?w = (Inr i, ?w)"
    using enrolled_load [of ?w dir r K _ i] assms(2) m s(2) by simp
  then have "LoadOrCreate K dir ?w = (Inr i, ?w)"
    using assms(2) m enrolled_exists [OF s(2)] by (auto simp: LoadOrCreate_def run_bind run_attempt sys_quiet in_dir_def fs_lstat_def)
  with s enrolled_exists [OF s(2)] enrolled_stored [OF s(2) _ late] show ?thesis by auto
qed

text \<open>A toy cryptography with these promises, for the witness.\<close>

definition toy_crypto :: crypto where
  "toy_crypto = \<lparr>GenerateKey = Ed25519Key,
     CreateCertificate = (\<lambda>t k. Inr (join_with (CHR '','') [show_int (TNotBefore t), show_int (TNotAfter t), show_int (TKeyUsage t)])),
     MarshalPKCS8PrivateKey = (\<lambda>k. case k of Ed25519Key b \<Rightarrow> Inr b | OtherKey b \<Rightarrow> Inr b),
     PemEncode = (\<lambda>t d. d),
     X509KeyPair = (\<lambda>c k. Inr ([c], Ed25519Key k)),
     ParseCertificate = (\<lambda>d. case split_on (CHR '','') d of
         [a, b, c] \<Rightarrow> (case (read_int a, read_int b, read_int c) of
             (Some x, Some y, Some u) \<Rightarrow> Inr \<lparr>Raw = d, PublicKeyAlgorithm = Ed25519, NotBefore = x, NotAfter = y, KeyUsage = u, SelfSigned = True\<rparr>
           | _ \<Rightarrow> Inl (Errorf ''malformed certificate'' []))
       | _ \<Rightarrow> Inl (Errorf ''malformed certificate'' [])),
     AddYears = (\<lambda>t n. t + n * 366 * 24 * 3600 * 10 ^ 9)\<rparr>"

lemma digits_no_comma: "CHR '','' \<notin> set (show_int i)"
proof -
  have "CHR '','' \<noteq> digit_char d" if "d < 10" for d
  proof
    assume "CHR '','' = digit_char d"
    with of_digit_char [OF that] have "(of_char (CHR '','') :: nat) = 48 + d" by simp
    then show False by simp
  qed
  then have "CHR '','' \<notin> set (show_nat n)" for n
    by (induction n rule: show_nat.induct) (subst show_nat.simps, auto)
  then show ?thesis by (simp add: show_int_def)
qed

lemma toy_sound: "crypto_sound toy_crypto"
proof -
  have "split_on (CHR '','') (join_with (CHR '','') [show_int a, show_int b, show_int c]) = [show_int a, show_int b, show_int c]" for a b c
    by (rule split_join) (simp_all add: digits_no_comma)
  then show ?thesis by (simp add: crypto_sound_def toy_crypto_def del: join_with.simps)
qed

definition demo_state :: "(string \<times> node) list \<Rightarrow> world" where
  "demo_state es = demo_world\<lparr>wfs := demo_fs\<lparr>trees := (\<lambda>_. Dir 448 es)\<rparr>, nonces := [''seed'', ''serial'']\<rparr>"

theorem identity_created_witness:
  "\<exists>i w'. LoadOrCreate toy_crypto ''/r'' (demo_state []) = (Inr i, w') \<and> private_files 0 (wfs w')
     \<and> stored_identity toy_crypto (int (clock (wfs w'))) 0 (wfs w') i
     \<and> PrivateKey i = Ed25519Key ''seed'' \<and> LoadOrCreate toy_crypto ''/r'' w' = (Inr i, w')"
proof -
  have "\<exists>i w'. LoadOrCreate toy_crypto ''/r'' (demo_state []) = (Inr i, w') \<and> private_files 0 (wfs w')
     \<and> stored_identity toy_crypto (int (clock (wfs w'))) 0 (wfs w') i
     \<and> PrivateKey i = GenerateKey toy_crypto ''seed'' \<and> LoadOrCreate toy_crypto ''/r'' w' = (Inr i, w')"
    by (rule identity_created [where m = 448 and es = "[]" and seed = "''seed''" and serial = "''serial''" and ns = "[]"])
       (simp_all add: toy_sound demo_state_def demo_fs_def demo_world_def quiet_def)
  then show ?thesis by (simp add: toy_crypto_def)
qed

theorem identity_never_replaced_witness:
  "case LoadOrCreate toy_crypto ''/r'' (demo_state [(''key.pem'', File 1)]) of
      (Inl err, w') \<Rightarrow> wfs w' = wfs (demo_state [(''key.pem'', File 1)])
    | (Inr i, w') \<Rightarrow> wfs w' = wfs (demo_state [(''key.pem'', File 1)])
        \<and> stored_identity toy_crypto (int (clock (wfs (demo_state [(''key.pem'', File 1)])))) 0 (wfs (demo_state [(''key.pem'', File 1)])) i"
  by (rule identity_never_replaced [where name = "''key.pem''"])
     (simp_all add: demo_state_def demo_fs_def demo_world_def calm_def)

end
