(* ===== verification/Gostrings.thy ===== *)
theory Gostrings
  imports Json
begin

text \<open>
  What the configuration reader uses of Go's \<open>strings\<close>, \<open>bufio\<close>, \<open>strconv\<close>, \<open>net\<close> and \<open>time\<close>.
\<close>

section \<open>White space\<close>

text \<open>The UTF-8 encodings of the runes for which \<open>unicode.IsSpace\<close> holds.\<close>

definition white_space :: "string list" where
  "white_space = [[CHR 0x09], [CHR 0x0A], [CHR 0x0B], [CHR 0x0C], [CHR 0x0D], [CHR 0x20],
     [CHR 0xC2, CHR 0x85], [CHR 0xC2, CHR 0xA0], [CHR 0xE1, CHR 0x9A, CHR 0x80]]
     @ map (\<lambda>n. [CHR 0xE2, CHR 0x80, char_of n]) [128::nat, 129, 130, 131, 132, 133, 134, 135, 136, 137, 138, 168, 169, 175]
     @ [[CHR 0xE2, CHR 0x81, CHR 0x9F], [CHR 0xE3, CHR 0x80, CHR 0x80]]"

text \<open>Drop leading pieces of a list as long as one of them matches.\<close>

definition strip_one :: "string list \<Rightarrow> string \<Rightarrow> string option" where
  "strip_one ws s = map_option (\<lambda>p. drop (length p) s) (find (\<lambda>p. p \<noteq> [] \<and> has_prefix s p) ws)"

lemma strip_one_shorter: "strip_one ws s = Some t \<Longrightarrow> length t < length s"
  by (auto simp: strip_one_def has_prefix_def find_Some_iff)
     (metis diff_less length_greater_0_conv take_eq_Nil)

function strip_all :: "string list \<Rightarrow> string \<Rightarrow> string" where
  "strip_all ws s = (case strip_one ws s of None \<Rightarrow> s | Some t \<Rightarrow> strip_all ws t)"
  by pat_completeness auto
termination
  by (relation "measure (length \<circ> snd)") (auto dest: strip_one_shorter)

declare strip_all.simps [simp del]

definition TrimSpace :: "string \<Rightarrow> string" where
  "TrimSpace s = rev (strip_all (map rev white_space) (rev (strip_all white_space s)))"

section \<open>Splitting\<close>

text \<open>\<open>strings.Cut\<close> at the first occurrence of a byte.\<close>

definition cut :: "char \<Rightarrow> string \<Rightarrow> (string \<times> string) option" where
  "cut c s = (if List.member s c then Some (takeWhile (\<lambda>x. x \<noteq> c) s, tl (dropWhile (\<lambda>x. x \<noteq> c) s)) else None)"

text \<open>
  \<open>bufio.Scanner\<close> with \<open>ScanLines\<close>: the lines without their ends, and the error after which it
  stopped. The buffer grows to \<open>limit\<close> bytes; a line that leaves no room in it ends the scan. The
  reader yields its bytes and then an error, or none at its end.
\<close>

definition drop_CR :: "string \<Rightarrow> string" where
  "drop_CR s = (if s \<noteq> [] \<and> last s = CHR 0x0D then butlast s else s)"

definition raw_lines :: "bytes \<Rightarrow> string list" where
  "raw_lines s = (let ls = split_on (CHR 0x0A) s in if last ls = [] then butlast ls else ls)"

definition scan_lines :: "int \<Rightarrow> bytes \<times> error option \<Rightarrow> string list \<times> error option" where
  "scan_lines limit input =
     (let ls = raw_lines (fst input);
          fitting = takeWhile (\<lambda>l. int (length l) < limit) ls
      in (map drop_CR fitting,
          if length fitting < length ls then Some (Errorf ''bufio.Scanner: token too long'' []) else snd input))"

section \<open>Quoted strings\<close>

text \<open>\<open>n\<close> hexadecimal digits.\<close>

fun read_hex :: "nat \<Rightarrow> nat \<Rightarrow> string \<Rightarrow> (nat \<times> string) option" where
  "read_hex 0 v s = Some (v, s)"
| "read_hex (Suc n) v [] = None"
| "read_hex (Suc n) v (c # cs) = (case hex_value c of None \<Rightarrow> None | Some x \<Rightarrow> read_hex n (16 * v + x) cs)"

definition octal_value :: "char \<Rightarrow> nat option" where
  "octal_value c = (if 48 \<le> (of_char c :: nat) \<and> (of_char c :: nat) \<le> 55 then Some (of_char c - 48) else None)"

definition read_octal :: "char \<Rightarrow> string \<Rightarrow> (nat \<times> string) option" where
  "read_octal c s = (case s of
       d # e # rest \<Rightarrow>
         (case (octal_value c, octal_value d, octal_value e) of
            (Some x, Some y, Some z) \<Rightarrow> Some (64 * x + 8 * y + z, rest)
          | _ \<Rightarrow> None)
     | _ \<Rightarrow> None)"

definition valid_rune :: "nat \<Rightarrow> bool" where
  "valid_rune v \<longleftrightarrow> v < 0xD800 \<or> (0xE000 \<le> v \<and> v \<le> 0x10FFFF)"

definition plain_escape :: "char \<Rightarrow> char option" where
  "plain_escape c = map_of [(CHR ''a'', CHR 0x07), (CHR ''b'', CHR 0x08), (CHR ''f'', CHR 0x0C),
     (CHR ''n'', CHR 0x0A), (CHR ''r'', CHR 0x0D), (CHR ''t'', CHR 0x09), (CHR ''v'', CHR 0x0B),
     (bslash, bslash), (quote_char, quote_char)] c"

text \<open>
  The bytes that an escape sequence stands for, and what follows it; \<open>\x\<close> and octal escapes are
  single bytes.
\<close>

definition unquote_escape :: "char \<Rightarrow> string \<Rightarrow> (string \<times> string) option" where
  "unquote_escape e s =
     (if e = CHR ''x'' then map_option (\<lambda>(v, t). ([char_of v], t)) (read_hex 2 0 s)
      else if e = CHR ''u'' \<or> e = CHR ''U'' then
        (case read_hex (if e = CHR ''u'' then 4 else 8) 0 s of
           None \<Rightarrow> None
         | Some (v, t) \<Rightarrow> if valid_rune v then Some (utf8_encode v, t) else None)
      else if octal_value e \<noteq> None then
        (case read_octal e s of
           None \<Rightarrow> None
         | Some (v, t) \<Rightarrow> if v > 255 then None else Some ([char_of v], t))
      else map_option (\<lambda>x. ([x], s)) (plain_escape e))"

lemma read_hex_length: "read_hex n v s = Some (w, t) \<Longrightarrow> length t \<le> length s"
  by (induction n v s rule: read_hex.induct) (auto split: option.splits)

lemma unquote_escape_length: "unquote_escape e s = Some (x, t) \<Longrightarrow> length t \<le> length s"
  by (auto simp: unquote_escape_def read_octal_def dest: read_hex_length
      split: if_splits option.splits list.splits)

text \<open>The text up to the closing quotation mark, and what follows the mark.\<close>

function unquote_tail :: "string \<Rightarrow> (string \<times> string) option" where
  "unquote_tail [] = None"
| "unquote_tail (c # cs) =
     (if c = quote_char then Some ([], cs)
      else if c = CHR 0x0A then None
      else if c = bslash then
        (case cs of
           [] \<Rightarrow> None
         | e # es \<Rightarrow>
             (case unquote_escape e es of
                None \<Rightarrow> None
              | Some (x, rest) \<Rightarrow> map_option (\<lambda>(y, t). (x @ y, t)) (unquote_tail rest)))
      else if rune_len (c # cs) = 0 then
        map_option (\<lambda>(y, t). ([CHR 0xEF, CHR 0xBF, CHR 0xBD] @ y, t)) (unquote_tail cs)
      else
        map_option (\<lambda>(y, t). (take (rune_len (c # cs)) (c # cs) @ y, t))
          (unquote_tail (drop (rune_len (c # cs) - 1) cs)))"
  by pat_completeness auto
termination
  by (relation "measure length") (auto dest: unquote_escape_length simp: less_Suc_eq_le)

declare unquote_tail.simps(2) [simp del]

text \<open>\<open>strconv.Unquote\<close> of a string that begins with a quotation mark.\<close>

definition Unquote :: "string \<Rightarrow> error + string" where
  "Unquote s = (case unquote_tail (tl s) of
       Some (x, []) \<Rightarrow> Inr x
     | _ \<Rightarrow> Inl (Errorf ''invalid syntax'' []))"

section \<open>Numbers and addresses\<close>

text \<open>\<open>strconv.Atoi\<close>, on a machine with 64-bit integers.\<close>

definition Atoi :: "string \<Rightarrow> error + int" where
  "Atoi s =
     (let digits = (case s of c # cs \<Rightarrow> if c = CHR ''-'' \<or> c = CHR ''+'' then cs else s | [] \<Rightarrow> [])
      in case read_nat digits of
           None \<Rightarrow> Inl (Errorf ''invalid syntax'' [s])
         | Some n \<Rightarrow>
             (let v = (if hd s = CHR ''-'' then - int n else int n)
              in if - 9223372036854775808 \<le> v \<and> v < 9223372036854775808 then Inr v else Inl (Errorf ''value out of range'' [s])))"

definition index_of :: "char \<Rightarrow> string \<Rightarrow> nat option" where
  "index_of c s = (if List.member s c then Some (length (takeWhile (\<lambda>x. x \<noteq> c) s)) else None)"

definition last_index_of :: "char \<Rightarrow> string \<Rightarrow> nat option" where
  "last_index_of c s = map_option (\<lambda>k. length s - Suc k) (index_of c (rev s))"

text \<open>\<open>net.SplitHostPort\<close>.\<close>

definition SplitHostPort :: "string \<Rightarrow> error + (string \<times> string)" where
  "SplitHostPort a =
     (case last_index_of (CHR '':'') a of
        None \<Rightarrow> Inl (Errorf ''missing port in address'' [a])
      | Some i \<Rightarrow>
          (let finish = (\<lambda>host j k.
             if List.member (drop j a) (CHR ''['') then Inl (Errorf ''unexpected '[' in address'' [a])
             else if List.member (drop k a) (CHR '']'') then Inl (Errorf ''unexpected ']' in address'' [a])
             else Inr (host, drop (Suc i) a))
           in if hd a = CHR ''['' then
                (case index_of (CHR '']'') a of
                   None \<Rightarrow> Inl (Errorf ''missing ']' in address'' [a])
                 | Some e \<Rightarrow>
                     (if Suc e = length a then Inl (Errorf ''missing port in address'' [a])
                      else if Suc e = i then finish (take (e - 1) (drop 1 a)) 1 (Suc e)
                      else if a ! Suc e = CHR '':'' then Inl (Errorf ''too many colons in address'' [a])
                      else Inl (Errorf ''missing port in address'' [a])))
              else if List.member (take i a) (CHR '':'') then Inl (Errorf ''too many colons in address'' [a])
              else finish (take i a) 0 0))"

section \<open>Durations\<close>

text \<open>
  A positive \<open>float64\<close> as a fraction of two integers: \<open>fl\<close> rounds a fraction to 53 significant bits,
  ties to even. The exponent is not bounded; the values here are far from both ends, or too small
  to count.
\<close>

function bit_len :: "int \<Rightarrow> int" where
  "bit_len n = (if n \<le> 0 then 0 else 1 + bit_len (n div 2))"
  by pat_completeness auto
termination
  by (relation "measure nat") auto

declare bit_len.simps [simp del]

definition fl_shift :: "int \<Rightarrow> int \<Rightarrow> int" where
  "fl_shift p q =
     (let k = 53 + bit_len q - bit_len p
      in if p * 2 ^ nat k \<ge> 2 ^ 53 * q * 2 ^ nat (- k) then k - 1 else k)"

definition fl :: "int \<times> int \<Rightarrow> int \<times> int" where
  "fl x = (case x of (p, q) \<Rightarrow>
     if p = 0 then (0, 1)
     else
       (let k = fl_shift p q;
            num = p * 2 ^ nat k; den = q * 2 ^ nat (- k);
            m = num div den; r = num mod den;
            m' = (if 2 * r > den \<or> (2 * r = den \<and> odd m) then m + 1 else m)
        in (m' * 2 ^ nat (- k), 2 ^ nat k)))"

definition fl_mult :: "int \<times> int \<Rightarrow> int \<times> int \<Rightarrow> int \<times> int" where
  "fl_mult x y = fl (fst x * fst y, snd x * snd y)"

definition fl_divide :: "int \<times> int \<Rightarrow> int \<times> int \<Rightarrow> int \<times> int" where
  "fl_divide x y = fl (fst x * snd y, snd x * fst y)"

text \<open>The units of \<open>time.ParseDuration\<close> in nanoseconds; the micro sign has two code points.\<close>

definition duration_units :: "(string \<times> int) list" where
  "duration_units = [(''ns'', 1), (''us'', 1000), ([CHR 0xC2, CHR 0xB5, CHR ''s''], 1000),
     ([CHR 0xCE, CHR 0xBC, CHR ''s''], 1000), (''ms'', 10 ^ 6), (''s'', 10 ^ 9), (''m'', 60 * 10 ^ 9), (''h'', 3600 * 10 ^ 9)]"

text \<open>\<open>leadingInt\<close> and \<open>leadingFraction\<close>; a fraction that would overflow only drops digits.\<close>

definition digit_value :: "char \<Rightarrow> int" where
  "digit_value c = of_char c - 48"

fun leading_int :: "int \<Rightarrow> string \<Rightarrow> int option" where
  "leading_int x [] = Some x"
| "leading_int x (c # cs) =
     (if x > 2 ^ 63 div 10 then None
      else if 10 * x + digit_value c > 2 ^ 63 then None
      else leading_int (10 * x + digit_value c) cs)"

fun leading_fraction :: "int \<Rightarrow> int \<times> int \<Rightarrow> string \<Rightarrow> int \<times> (int \<times> int)" where
  "leading_fraction x scale [] = (x, scale)"
| "leading_fraction x scale (c # cs) =
     (if x > (2 ^ 63 - 1) div 10 \<or> 10 * x + digit_value c > 2 ^ 63 then (x, scale)
      else leading_fraction (10 * x + digit_value c) (fl_mult scale (10, 1)) cs)"

text \<open>One number with its unit: its nanoseconds and what follows.\<close>

definition duration_term :: "string \<Rightarrow> (int \<times> string) option" where
  "duration_term s =
     (let ds = takeWhile is_digit s; s1 = dropWhile is_digit s;
          dotted = (s1 \<noteq> [] \<and> hd s1 = CHR ''.'');
          fs = (if dotted then takeWhile is_digit (tl s1) else []);
          s2 = (if dotted then dropWhile is_digit (tl s1) else s1);
          u = takeWhile (\<lambda>c. c \<noteq> CHR ''.'' \<and> \<not> is_digit c) s2;
          s3 = dropWhile (\<lambda>c. c \<noteq> CHR ''.'' \<and> \<not> is_digit c) s2
      in if ds = [] \<and> fs = [] then None
         else case (leading_int 0 ds, map_of duration_units u) of
             (Some v, Some unit) \<Rightarrow>
               (if v > 2 ^ 63 div unit then None
                else
                  (case leading_fraction 0 (1, 1) fs of (f, scale) \<Rightarrow>
                     (let x = fl_mult (fl (f, 1)) (fl_divide (unit, 1) scale);
                          n = v * unit + (if f > 0 then fst x div snd x else 0)
                      in if f > 0 \<and> n > 2 ^ 63 then None else Some (n, s3))))
           | _ \<Rightarrow> None)"

lemma length_while: "length s = length (takeWhile P s) + length (dropWhile P s)"
  by (metis length_append takeWhile_dropWhile_id)

lemma duration_term_shorter: "duration_term s = Some (n, t) \<Longrightarrow> length t < length s"
proof -
  assume t: "duration_term s = Some (n, t)"
  define s1 where "s1 = dropWhile is_digit s"
  define dotted where "dotted = (s1 \<noteq> [] \<and> hd s1 = CHR ''.'')"
  define fs where "fs = (if dotted then takeWhile is_digit (tl s1) else [])"
  define s2 where "s2 = (if dotted then dropWhile is_digit (tl s1) else s1)"
  have "takeWhile is_digit s \<noteq> [] \<or> fs \<noteq> []" "t = dropWhile (\<lambda>c. c \<noteq> CHR ''.'' \<and> \<not> is_digit c) s2"
    using t unfolding duration_term_def Let_def s1_def [symmetric] dotted_def [symmetric] fs_def [symmetric] s2_def [symmetric]
    by (auto split: if_splits option.splits prod.splits)
  moreover have "length t \<le> length s2" using calculation(2) by (simp add: length_dropWhile_le)
  moreover have "length s = length (takeWhile is_digit s) + length s1" unfolding s1_def by (rule length_while)
  moreover have "length (tl s1) = length fs + length s2" if dotted
    using that length_while [of "tl s1" is_digit] by (simp add: fs_def s2_def)
  moreover have "length (tl s1) < length s1" if dotted using that by (simp add: dotted_def)
  moreover have "fs = []" "s2 = s1" if "\<not> dotted" using that by (simp_all add: fs_def s2_def)
  ultimately show ?thesis by (cases dotted) (auto simp: length_greater_0_conv [symmetric] simp del: length_greater_0_conv)
qed

function duration_sum :: "int \<Rightarrow> string \<Rightarrow> int option" where
  "duration_sum d s =
     (if s = [] then Some d
      else case duration_term s of
          None \<Rightarrow> None
        | Some (v, t) \<Rightarrow> if (d + v) mod 2 ^ 64 > 2 ^ 63 then None else duration_sum ((d + v) mod 2 ^ 64) t)"
  by pat_completeness auto
termination
  by (relation "measure (length \<circ> snd)") (auto dest: duration_term_shorter)

declare duration_sum.simps [simp del]

definition ParseDuration :: "string \<Rightarrow> error + int" where
  "ParseDuration s =
     (let neg = (s \<noteq> [] \<and> hd s = CHR ''-'');
          t = (if s \<noteq> [] \<and> (hd s = CHR ''-'' \<or> hd s = CHR ''+'') then tl s else s)
      in if t = ''0'' then Inr 0
         else if t = [] then Inl (Errorf ''time: invalid duration'' [s])
         else case duration_sum 0 t of
             None \<Rightarrow> Inl (Errorf ''time: invalid duration'' [s])
           | Some d \<Rightarrow>
               (if neg then Inr (- d)
                else if d > 2 ^ 63 - 1 then Inl (Errorf ''time: invalid duration'' [s])
                else Inr d))"

end
