(* ===== verification/Paths.thy ===== *)
theory Paths
  imports Gostrings "HOL-Library.Sublist"
begin

text \<open>
  What the configuration reader uses of \<open>path/filepath\<close> on Unix, where the separator is a slash and
  a path has no volume name.
\<close>

section \<open>Package filepath\<close>

text \<open>\<open>Clean\<close>: the parts kept so far are in reverse order.\<close>

fun clean_parts :: "bool \<Rightarrow> string list \<Rightarrow> string list \<Rightarrow> string list" where
  "clean_parts rooted acc [] = rev acc"
| "clean_parts rooted acc (p # ps) =
     (if p = [] \<or> p = ''.'' then clean_parts rooted acc ps
      else if p = ''..'' then
        (case acc of
           [] \<Rightarrow> clean_parts rooted (if rooted then [] else [p]) ps
         | q # qs \<Rightarrow> clean_parts rooted (if q = ''..'' then p # acc else qs) ps)
      else clean_parts rooted (p # acc) ps)"

definition IsAbs :: "string \<Rightarrow> bool" where
  "IsAbs p = has_prefix p ''/''"

definition filepath_Clean :: "string \<Rightarrow> string" where
  "filepath_Clean p =
     (if p = [] then ''.''
      else let out = join_with slash (clean_parts (IsAbs p) [] (split_on slash p))
           in if IsAbs p then slash # out else if out = [] then ''.'' else out)"

definition filepath_Dir :: "string \<Rightarrow> string" where
  "filepath_Dir p = filepath_Clean (rev (dropWhile (\<lambda>c. c \<noteq> slash) (rev p)))"

definition filepath_Base :: "string \<Rightarrow> string" where
  "filepath_Base p =
     (if p = [] then ''.''
      else let q = rev (dropWhile (\<lambda>c. c = slash) (rev p))
           in if q = [] then ''/'' else rev (takeWhile (\<lambda>c. c \<noteq> slash) (rev q)))"

definition filepath_Join :: "string \<Rightarrow> string \<Rightarrow> string" where
  "filepath_Join a b =
     (if a = [] \<and> b = [] then [] else if a = [] then filepath_Clean b else filepath_Clean (a @ slash # b))"

text \<open>\<open>Rel\<close>: the elements of two clean paths after the part they share.\<close>

definition elements :: "string \<Rightarrow> string list" where
  "elements p = (if p = ''/'' then [[]] else split_on slash p)"

fun strip_common :: "string list \<Rightarrow> string list \<Rightarrow> string list \<times> string list" where
  "strip_common (x # xs) (y # ys) = (if x = y then strip_common xs ys else (x # xs, y # ys))"
| "strip_common xs ys = (xs, ys)"

definition filepath_Rel :: "string \<Rightarrow> string \<Rightarrow> error + string" where
  "filepath_Rel basepath targpath =
     (let base = filepath_Clean basepath; targ = filepath_Clean targpath
      in if targ = base then Inr ''.''
         else if IsAbs base \<noteq> IsAbs targ then Inl (Errorf ''Rel: can't make relative'' [targpath, basepath])
         else case strip_common (if base = ''.'' then [] else elements base) (elements targ) of (b, t) \<Rightarrow>
           (if b \<noteq> [] \<and> t \<noteq> [] \<and> hd b = ''..'' then Inl (Errorf ''Rel: can't make relative'' [targpath, basepath])
            else Inr (join_with slash (map (\<lambda>_. ''..'') b @ t))))"

section \<open>Lengths\<close>

definition weight :: "string list \<Rightarrow> nat" where
  "weight ps = sum_list (map (\<lambda>p. Suc (length p)) ps)"

lemma weight_simps [simp]: "weight [] = 0" "weight (p # ps) = Suc (length p + weight ps)"
  "weight (ps @ qs) = weight ps + weight qs" "weight (rev ps) = weight ps"
  by (simp_all add: weight_def sum_list_rev flip: rev_map)

lemma length_join_weight: "length (join_with c ps) = weight ps - 1"
  by (induction c ps rule: join_with.induct) auto

lemma weight_split: "weight (split_on c s) = Suc (length s)"
  by (induction s) (auto split: list.split)

lemma weight_clean: "weight (clean_parts r acc ps) \<le> weight acc + weight ps"
proof (induction r acc ps rule: clean_parts.induct)
  case (2 r acc p ps)
  then show ?case by (cases acc) (auto split: if_splits)
qed simp

lemma clean_parts_snoc: "clean_parts r acc (ps @ [[]]) = clean_parts r acc ps"
  by (induction r acc ps rule: clean_parts.induct) (auto split: list.split)

lemma split_slash_end: "split_on c (s @ [c]) = split_on c s @ [[]]"
proof (induction s)
  case (Cons x s)
  obtain y ys where "split_on c s = y # ys" by (cases "split_on c s") auto
  with Cons show ?case by simp
qed simp

lemma IsAbs_Cons: "IsAbs (c # s) \<longleftrightarrow> c = slash"
  by (auto simp: IsAbs_def has_prefix_def)

lemma length_Clean: "length (filepath_Clean p) \<le> length p \<or> filepath_Clean p = ''.''"
proof (cases p)
  case (Cons c s)
  have s: "weight (clean_parts True [] (split_on slash s)) \<le> Suc (length s)"
    using weight_clean [of True "[]" "split_on slash s"] by (simp add: weight_split)
  have p: "weight (clean_parts False [] (split_on slash p)) \<le> Suc (length p)"
    using weight_clean [of False "[]" "split_on slash p"] by (simp add: weight_split)
  show ?thesis
    using s p Cons by (auto simp: filepath_Clean_def IsAbs_Cons length_join_weight Let_def)
qed (simp add: filepath_Clean_def)

lemma length_Clean_slash:
  assumes "p = q @ [slash]"
  shows "length (filepath_Clean p) < length p \<or> filepath_Clean p = ''.'' \<or> filepath_Clean p = p"
proof (cases q)
  case Nil
  then show ?thesis by (simp add: assms filepath_Clean_def IsAbs_Cons)
next
  case (Cons c s)
  have s: "weight (clean_parts True [] (split_on slash s)) \<le> Suc (length s)"
    using weight_clean [of True "[]" "split_on slash s"] by (simp add: weight_split)
  have q: "weight (clean_parts False [] (split_on slash q)) \<le> Suc (length q)"
    using weight_clean [of False "[]" "split_on slash q"] by (simp add: weight_split)
  have sp: "split_on slash p = split_on slash q @ [[]]" using assms by (simp only: split_slash_end)
  have "split_on slash (c # s) = [] # split_on slash s" if "c = slash" using that by simp
  then show ?thesis
    using s q Cons assms sp
    by (auto simp: filepath_Clean_def IsAbs_Cons length_join_weight Let_def clean_parts_snoc simp del: split_on.simps)
qed

lemma length_Dir: "length (filepath_Dir p) < length p \<or> filepath_Dir p = ''.'' \<or> filepath_Dir p = p"
proof -
  define q where "q = rev (dropWhile (\<lambda>c. c \<noteq> slash) (rev p))"
  have d: "filepath_Dir p = filepath_Clean q" by (simp add: filepath_Dir_def q_def)
  have le: "length q \<le> length p" using length_dropWhile_le [of "\<lambda>c. c \<noteq> slash" "rev p"] by (simp add: q_def)
  show ?thesis
  proof (cases "q = p")
    case True
    show ?thesis
    proof (cases "p = []")
      case False
      then have "last p = slash" using True hd_dropWhile [of "\<lambda>c. c \<noteq> slash" "rev p"]
        by (metis (mono_tags, lifting) hd_rev q_def rev_is_Nil_conv rev_rev_ident)
      then have "p = butlast p @ [slash]" using False by (metis append_butlast_last_id)
      from length_Clean_slash [OF this] show ?thesis using d True by simp
    qed (simp add: filepath_Dir_def filepath_Clean_def)
  next
    case False
    then have "length q < length p"
      using le length_while [of "rev p" "\<lambda>c. c \<noteq> slash"] takeWhile_eq_Nil_iff
      by (metis (no_types, lifting) append_self_conv2 le_neq_implies_less length_rev q_def rev_rev_ident
          self_append_conv2 takeWhile_dropWhile_id length_0_conv add_cancel_left_left length_append)
    then show ?thesis using length_Clean [of q] d by auto
  qed
qed

section \<open>Clean absolute paths\<close>

definition plain :: "string \<Rightarrow> bool" where
  "plain p \<longleftrightarrow> p \<noteq> [] \<and> p \<noteq> ''.'' \<and> p \<noteq> ''..'' \<and> slash \<notin> set p"

definition abs_path :: "string list \<Rightarrow> string" where
  "abs_path ps = slash # join_with slash ps"

lemma clean_parts_plain: "\<forall>p \<in> set ps. plain p \<Longrightarrow> clean_parts r acc ps = rev acc @ ps"
  by (induction ps arbitrary: acc) (auto simp: plain_def)

lemma clean_parts_rooted:
  "\<forall>p \<in> set ps. slash \<notin> set p \<Longrightarrow> \<forall>p \<in> set acc. plain p \<Longrightarrow> list_all plain (clean_parts True acc ps)"
proof (induction ps arbitrary: acc)
  case (Cons p ps)
  consider "p = [] \<or> p = ''.''" | "p = ''..''" | "plain p" using Cons.prems(1) by (auto simp: plain_def)
  then show ?case
  proof cases
    case 3
    then have "p \<noteq> []" "p \<noteq> ''.''" "p \<noteq> ''..''" by (simp_all add: plain_def)
    with 3 Cons show ?thesis by simp
  qed (use Cons in \<open>auto simp: plain_def split: list.split\<close>)
qed (simp add: list_all_iff)

lemma Clean_absolute: "IsAbs p \<Longrightarrow> \<exists>ps. (\<forall>x \<in> set ps. plain x) \<and> filepath_Clean p = abs_path ps"
proof -
  assume p: "IsAbs p"
  then have "p \<noteq> []" by (auto simp: IsAbs_def has_prefix_def)
  moreover have "list_all plain (clean_parts True [] (split_on slash p))"
    by (rule clean_parts_rooted) (auto dest: split_on_parts)
  ultimately show ?thesis
    using p by (auto simp: filepath_Clean_def abs_path_def list_all_iff)
qed

lemma split_abs_path: "\<forall>x \<in> set ps. plain x \<Longrightarrow> ps \<noteq> [] \<Longrightarrow> split_on slash (abs_path ps) = [] # ps"
  using split_join [of ps slash] by (simp add: abs_path_def plain_def)

lemma IsAbs_abs_path [simp]: "IsAbs (abs_path ps)"
  by (simp add: abs_path_def IsAbs_Cons)

lemma Clean_abs_path: "\<forall>x \<in> set ps. plain x \<Longrightarrow> filepath_Clean (abs_path ps) = abs_path ps"
proof (cases "ps = []")
  case False
  assume p: "\<forall>x \<in> set ps. plain x"
  have "filepath_Clean (abs_path ps) = slash # join_with slash (clean_parts True [] (split_on slash (abs_path ps)))"
    using IsAbs_abs_path [of ps] by (simp add: filepath_Clean_def Let_def) (simp add: abs_path_def)
  then show ?thesis using p False by (simp add: split_abs_path clean_parts_plain) (simp add: abs_path_def)
qed (simp add: abs_path_def filepath_Clean_def IsAbs_Cons)

lemma elements_abs_path: "\<forall>x \<in> set ps. plain x \<Longrightarrow> elements (abs_path ps) = [] # ps"
proof (cases "ps = []")
  case False
  assume p: "\<forall>x \<in> set ps. plain x"
  have "abs_path ps \<noteq> ''/''"
  proof
    assume "abs_path ps = ''/''"
    with split_abs_path [OF p False] have "ps = [[]]" by simp
    with p show False by (simp add: plain_def)
  qed
  then show ?thesis using p False by (simp add: elements_def split_abs_path)
qed (simp add: abs_path_def elements_def)

lemma abs_path_inject: "\<forall>x \<in> set ps. plain x \<Longrightarrow> \<forall>x \<in> set qs. plain x \<Longrightarrow> abs_path ps = abs_path qs \<longleftrightarrow> ps = qs"
  by (metis elements_abs_path list.inject)

lemma strip_common_spec:
  "strip_common xs ys = (xs', ys') \<Longrightarrow> \<exists>zs. xs = zs @ xs' \<and> ys = zs @ ys' \<and> (xs' = [] \<longleftrightarrow> prefix xs ys)"
proof (induction xs ys rule: strip_common.induct)
  case (1 x xs y ys)
  show ?case
  proof (cases "x = y")
    case True
    with 1 obtain zs where "xs = zs @ xs' \<and> ys = zs @ ys' \<and> (xs' = [] \<longleftrightarrow> prefix xs ys)" by auto
    with True show ?thesis by (intro exI [of _ "x # zs"]) simp
  qed (use 1 in auto)
qed auto

lemma join_starts_dotdot:
  "join_with slash ps = ''..'' \<or> has_prefix (join_with slash ps) ''../'' \<Longrightarrow> \<forall>p \<in> set ps. slash \<notin> set p \<Longrightarrow> ps \<noteq> [] \<Longrightarrow> hd ps = ''..''"
proof -
  assume a: "join_with slash ps = ''..'' \<or> has_prefix (join_with slash ps) ''../''" "\<forall>p \<in> set ps. slash \<notin> set p" "ps \<noteq> []"
  have "hd (split_on slash (join_with slash ps)) = ''..''"
  proof (cases "join_with slash ps = ''..''")
    case False
    then obtain t where "join_with slash ps = ''..'' @ slash # t"
      using a(1) by (auto simp: has_prefix_def) (metis append_take_drop_id append_Cons append_Nil)
    then show ?thesis by simp
  qed simp
  then show ?thesis using split_join [OF a(3,2)] by simp
qed

end
