(* ===== verification/Config.thy ===== *)
theory Config
  imports Paths "HOL-Library.AList"
begin

text \<open>
  \<^verbatim>\<open>internal/config/config.go\<close>: the reader of the configuration file and the checks on what it says.
  A Go map is an association list in the order in which a \<open>range\<close> over it visits the keys.
\<close>

section \<open>Configurations\<close>

record config_Peer =
  PName :: string
  PAddress :: string
  PDeviceID :: string

record config_Folder =
  FID :: string
  FPath :: string
  FSource :: string
  FPeers :: "string list"

record Config =
  Listen :: string
  StateDir :: string
  ScanInterval :: int
  CPeers :: "(string \<times> config_Peer) list"
  CFolders :: "(string \<times> config_Folder) list"

text \<open>What the machine answers about paths: \<open>os.Open\<close>, \<open>os.Lstat\<close>, \<open>filepath.EvalSymlinks\<close>.\<close>

record paths =
  os_Open :: "string \<Rightarrow> error + (bytes \<times> error option)"
  os_Lstat_path :: "string \<Rightarrow> error + unit"
  EvalSymlinks :: "string \<Rightarrow> error + string"

text \<open>The regular expressions.\<close>

definition is_alnum :: "char \<Rightarrow> bool" where
  "is_alnum c \<longleftrightarrow> (let n = of_char c :: nat in
     (48 \<le> n \<and> n \<le> 57) \<or> (65 \<le> n \<and> n \<le> 90) \<or> (97 \<le> n \<and> n \<le> 122))"

definition namePattern :: "string \<Rightarrow> bool" where
  "namePattern s = (case s of
       [] \<Rightarrow> False
     | c # cs \<Rightarrow> is_alnum c \<and> list_all (\<lambda>d. is_alnum d \<or> List.member ''_.-'' d) cs)"

definition idPattern :: "string \<Rightarrow> bool" where
  "idPattern s \<longleftrightarrow> length s = 64 \<and> list_all is_hex_digit s"

definition quoted_name :: "string \<Rightarrow> string \<Rightarrow> string option" where
  "quoted_name kind s =
     (let p = kind @ '' '' @ [quote_char]; name = butlast (drop (length p) s)
      in if has_prefix s p \<and> length p < length s \<and> last s = quote_char \<and> namePattern name then Some name else None)"

definition sectionPattern :: "string \<Rightarrow> (string \<times> string) option" where
  "sectionPattern s =
     (case quoted_name ''peer'' s of
        Some name \<Rightarrow> Some (''peer'', name)
      | None \<Rightarrow> map_option (Pair ''folder'') (quoted_name ''folder'' s))"

section \<open>Reading\<close>

text \<open>The variables of \<open>Parse\<close>; the two sets as lists, the latest element first.\<close>

record parser =
  p_cfg :: Config
  p_sections :: "string list"
  p_keys :: "string list"
  p_kind :: string
  p_name :: string

definition parse_header :: "string \<Rightarrow> string \<Rightarrow> parser \<Rightarrow> error + parser" where
  "parse_header line v p =
     (if \<not> has_suffix v '']'' then Inl (Errorf ''line %d: malformed section'' [line])
      else
        (let header = TrimSpace (butlast (drop 1 v));
             p1 = p\<lparr>p_sections := header # p_sections p\<rparr>
         in if List.member (p_sections p) header then Inl (Errorf ''line %d: duplicate section %q'' [line, header])
            else if header = ''service'' then Inr (p1\<lparr>p_kind := ''service'', p_name := []\<rparr>)
            else
              (case sectionPattern header of
                 None \<Rightarrow> Inl (Errorf ''line %d: unknown or malformed section %q'' [line, header])
               | Some (k, name) \<Rightarrow>
                   (let c = p_cfg p;
                        c1 = (if k = ''peer''
                              then c\<lparr>CPeers := AList.update name \<lparr>PName = name, PAddress = [], PDeviceID = []\<rparr> (CPeers c)\<rparr>
                              else c\<lparr>CFolders := AList.update name \<lparr>FID = name, FPath = [], FSource = [], FPeers = []\<rparr> (CFolders c)\<rparr>)
                    in Inr (p1\<lparr>p_kind := k, p_name := name, p_cfg := c1\<rparr>)))))"

text \<open>The switches on the kind of the section and the key: \<open>None\<close> for an unknown key.\<close>

definition set_service :: "string \<Rightarrow> string \<Rightarrow> string \<Rightarrow> Config \<Rightarrow> error + Config option" where
  "set_service line key v c =
     (if key = ''listen'' then Inr (Some (c\<lparr>Listen := v\<rparr>))
      else if key = ''state_dir'' then Inr (Some (c\<lparr>StateDir := v\<rparr>))
      else if key = ''scan_interval'' then
        (case ParseDuration v of
           Inl err \<Rightarrow> Inl (Wrap (''line '' @ line @ '': scan_interval'') err)
         | Inr d \<Rightarrow> Inr (Some (c\<lparr>ScanInterval := d\<rparr>)))
      else Inr None)"

definition set_peer :: "string \<Rightarrow> string \<Rightarrow> config_Peer \<Rightarrow> config_Peer option" where
  "set_peer key v p =
     (if key = ''address'' then Some (p\<lparr>PAddress := v\<rparr>)
      else if key = ''device_id'' then Some (p\<lparr>PDeviceID := v\<rparr>)
      else None)"

definition set_folder :: "string \<Rightarrow> string \<Rightarrow> config_Folder \<Rightarrow> config_Folder option" where
  "set_folder key v f =
     (if key = ''path'' then Some (f\<lparr>FPath := v\<rparr>)
      else if key = ''source'' then Some (f\<lparr>FSource := v\<rparr>)
      else if key = ''peers'' then
        Some (if v \<noteq> [] then f\<lparr>FPeers := FPeers f @ map TrimSpace (split_on (CHR '','') v)\<rparr> else f)
      else None)"

text \<open>A missing key of a Go map reads as the zero value.\<close>

definition peer_named :: "Config \<Rightarrow> string \<Rightarrow> config_Peer" where
  "peer_named c name = (case map_of (CPeers c) name of Some p \<Rightarrow> p | None \<Rightarrow> \<lparr>PName = [], PAddress = [], PDeviceID = []\<rparr>)"

definition folder_named :: "Config \<Rightarrow> string \<Rightarrow> config_Folder" where
  "folder_named c name = (case map_of (CFolders c) name of
       Some f \<Rightarrow> f | None \<Rightarrow> \<lparr>FID = [], FPath = [], FSource = [], FPeers = []\<rparr>)"

definition set_key :: "string \<Rightarrow> string \<Rightarrow> string \<Rightarrow> string \<Rightarrow> string \<Rightarrow> Config \<Rightarrow> error + Config option" where
  "set_key line k name key v c =
     (if k = ''service'' then set_service line key v c
      else if k = ''peer'' then
        Inr (map_option (\<lambda>p. c\<lparr>CPeers := AList.update name p (CPeers c)\<rparr>) (set_peer key v (peer_named c name)))
      else
        Inr (map_option (\<lambda>f. c\<lparr>CFolders := AList.update name f (CFolders c)\<rparr>) (set_folder key v (folder_named c name))))"

definition unquoted :: "string \<Rightarrow> string \<Rightarrow> error + string" where
  "unquoted line v =
     (if has_prefix v [quote_char] then
        (case Unquote v of
           Inl err \<Rightarrow> Inl (Wrap (''line '' @ line @ '': invalid quoted value'') err)
         | Inr x \<Rightarrow> Inr x)
      else Inr v)"

definition parse_assignment :: "string \<Rightarrow> string \<Rightarrow> parser \<Rightarrow> error + parser" where
  "parse_assignment line v p =
     (let (lhs, rhs, ok) = (case cut (CHR ''='') v of Some (a, b) \<Rightarrow> (a, b, True) | None \<Rightarrow> (v, [], False));
          key = TrimSpace lhs; val = TrimSpace rhs;
          qualified = p_kind p @ ''/'' @ p_name p @ ''/'' @ key
      in if \<not> ok \<or> p_kind p = [] \<or> key = [] then Inl (Errorf ''line %d: expected key = value inside a section'' [line])
         else if List.member (p_keys p) qualified then Inl (Errorf ''line %d: duplicate key %q'' [line, key])
         else case unquoted line val of
             Inl err \<Rightarrow> Inl err
           | Inr x \<Rightarrow>
               (case set_key line (p_kind p) (p_name p) key x (p_cfg p) of
                  Inl err \<Rightarrow> Inl err
                | Inr None \<Rightarrow> Inl (Errorf ''line %d: unknown %s key %q'' [line, p_kind p, key])
                | Inr (Some c) \<Rightarrow> Inr (p\<lparr>p_keys := qualified # p_keys p, p_cfg := c\<rparr>)))"

definition parse_line :: "string \<Rightarrow> string \<Rightarrow> parser \<Rightarrow> error + parser" where
  "parse_line line text0 p =
     (let v = TrimSpace text0
      in if v = [] \<or> has_prefix v ''#'' \<or> has_prefix v '';'' then Inr p
         else if has_prefix v ''['' then parse_header line v p
         else parse_assignment line v p)"

fun parse_lines :: "nat \<Rightarrow> string list \<Rightarrow> parser \<Rightarrow> error + parser" where
  "parse_lines n [] p = Inr p"
| "parse_lines n (l # ls) p =
     (case parse_line (show_nat (Suc n)) l p of Inl err \<Rightarrow> Inl err | Inr p' \<Rightarrow> parse_lines (Suc n) ls p')"

definition parse_begin :: parser where
  "parse_begin = \<lparr>p_cfg = \<lparr>Listen = ''127.0.0.1:24800'', StateDir = [], ScanInterval = 5 * 10 ^ 9, CPeers = [], CFolders = []\<rparr>,
     p_sections = [], p_keys = [], p_kind = [], p_name = []\<rparr>"

section \<open>Checking\<close>

definition validAddress :: "string \<Rightarrow> bool \<Rightarrow> bool" where
  "validAddress address allowZero =
     (case SplitHostPort address of
        Inl err \<Rightarrow> False
      | Inr (host, port) \<Rightarrow>
          (case Atoi port of Inl err \<Rightarrow> False | Inr p \<Rightarrow> (p > 0 \<or> (allowZero \<and> p = 0)) \<and> p \<le> 65535))"

definition containsPath :: "string \<Rightarrow> string \<Rightarrow> bool" where
  "containsPath parent child =
     (case filepath_Rel parent child of
        Inl err \<Rightarrow> False
      | Inr rel \<Rightarrow> rel \<noteq> ''..'' \<and> \<not> has_prefix rel ''../'')"

function canonicalPath :: "paths \<Rightarrow> string \<Rightarrow> error + string" where
  "canonicalPath os p =
     (case os_Lstat_path os p of
        Inr _ \<Rightarrow> EvalSymlinks os p
      | Inl err \<Rightarrow>
          (if err \<noteq> NotExist then Inl err
           else if filepath_Dir p = p then Inr p
           else case canonicalPath os (filepath_Dir p) of
               Inl err \<Rightarrow> Inl err
             | Inr resolved \<Rightarrow> Inr (filepath_Join resolved (filepath_Base p))))"
  by pat_completeness auto
termination
proof (relation "measure (\<lambda>(os, p). if p = ''.'' then 0 else Suc (length p))")
  fix os :: paths and p :: string
  assume "filepath_Dir p \<noteq> p"
  moreover have "filepath_Dir ''.'' = ''.''" by code_simp
  ultimately show "((os, filepath_Dir p), os, p) \<in> measure (\<lambda>(os, p). if p = ''.'' then 0 else Suc (length p))"
    using length_Dir [of p] by auto
qed simp

declare canonicalPath.simps [simp del]

text \<open>The loop over the peers; \<open>ids\<close> maps the device ids seen so far to names.\<close>

fun check_peers :: "(string \<times> string) list \<Rightarrow> (string \<times> config_Peer) list \<Rightarrow> error + unit" where
  "check_peers ids [] = Inr ()"
| "check_peers ids ((name, p) # ps) =
     (if \<not> namePattern name \<or> name = ''local'' \<or> PName p \<noteq> name
      then Inl (Errorf ''invalid peer name %q (local is reserved)'' [name])
      else if \<not> validAddress (PAddress p) False then Inl (Errorf ''peer %q: invalid address'' [name])
      else if \<not> idPattern (PDeviceID p)
      then Inl (Errorf ''peer %q: device_id must contain 64 lowercase hexadecimal characters'' [name])
      else case map_of ids (PDeviceID p) of
          Some previous \<Rightarrow> Inl (Errorf ''peers %q and %q have the same device_id'' [previous, name])
        | None \<Rightarrow> check_peers ((PDeviceID p, name) # ids) ps)"

text \<open>The loop over the peers a folder lists; \<open>seen\<close> holds those before.\<close>

fun check_folder_peers :: "Config \<Rightarrow> string \<Rightarrow> string list \<Rightarrow> string list \<Rightarrow> error + unit" where
  "check_folder_peers c folder seen [] = Inr ()"
| "check_folder_peers c folder seen (peer # ps) =
     (if map_of (CPeers c) peer = None then Inl (Errorf ''folder %q: unknown peer %q'' [folder, peer])
      else if List.member seen peer then Inl (Errorf ''folder %q: duplicate peer %q'' [folder, peer])
      else check_folder_peers c folder (peer # seen) ps)"

fun check_folders :: "Config \<Rightarrow> (string \<times> config_Folder) list \<Rightarrow> error + unit" where
  "check_folders c [] = Inr ()"
| "check_folders c ((i, f) # fs) =
     (if \<not> namePattern i \<or> FID f \<noteq> i then Inl (Errorf ''invalid folder id %q'' [i])
      else case check_folder_peers c i [] (FPeers f) of
          Inl err \<Rightarrow> Inl err
        | Inr _ \<Rightarrow>
            (if FSource f \<noteq> ''local'' \<and> \<not> List.member (FPeers f) (FSource f)
             then Inl (Errorf ''folder %q: source must be local or a listed peer'' [i])
             else check_folders c fs))"

text \<open>The loop over the paths; \<open>resolved\<close> holds the canonical paths so far.\<close>

fun check_paths :: "paths \<Rightarrow> (string \<times> string) list \<Rightarrow> (string \<times> string) list \<Rightarrow> error + unit" where
  "check_paths os resolved [] = Inr ()"
| "check_paths os resolved ((name, p) # ps) =
     (if \<not> IsAbs p \<or> List.member p (CHR 0x00) then Inl (Errorf ''%s: path must be absolute'' [name])
      else case canonicalPath os (filepath_Clean p) of
          Inl err \<Rightarrow> Inl (Wrap name err)
        | Inr canonical \<Rightarrow>
            (case find (\<lambda>(other, previous). containsPath canonical previous \<or> containsPath previous canonical) resolved of
               Some (other, previous) \<Rightarrow> Inl (Errorf ''%s and %s paths overlap'' [name, other])
             | None \<Rightarrow> check_paths os ((name, canonical) # resolved) ps))"

definition config_paths :: "Config \<Rightarrow> (string \<times> string) list" where
  "config_paths c = (''state_dir'', StateDir c) # map (\<lambda>(i, f). (''folder '' @ i, FPath f)) (CFolders c)"

definition Validate :: "paths \<Rightarrow> Config \<Rightarrow> error + unit" where
  "Validate os c =
     (if \<not> validAddress (Listen c) True
      then Inl (Errorf ''listen must be host:port with port 0..65535 (0 selects an ephemeral port)'' [])
      else if length (CPeers c) > 32 \<or> length (CFolders c) > 128
      then Inl (Errorf ''configuration is limited to 32 peers and 128 folders'' [])
      else if ScanInterval c < 100 * 10 ^ 6 then Inl (Errorf ''scan_interval must be at least 100ms'' [])
      else case check_peers [] (CPeers c) of
          Inl err \<Rightarrow> Inl err
        | Inr _ \<Rightarrow>
            (case check_folders c (CFolders c) of
               Inl err \<Rightarrow> Inl err
             | Inr _ \<Rightarrow> check_paths os [] (config_paths c)))"

definition maxLine :: int where "maxLine = 1024 * 1024"

definition Parse :: "paths \<Rightarrow> bytes \<times> error option \<Rightarrow> error + Config" where
  "Parse os r =
     (case scan_lines maxLine r of (ls, scan_err) \<Rightarrow>
        (case parse_lines 0 ls parse_begin of
           Inl err \<Rightarrow> Inl err
         | Inr p \<Rightarrow>
             (case scan_err of
                Some err \<Rightarrow> Inl err
              | None \<Rightarrow> (case Validate os (p_cfg p) of Inl err \<Rightarrow> Inl err | Inr _ \<Rightarrow> Inr (p_cfg p)))))"

definition config_Load :: "paths \<Rightarrow> string \<Rightarrow> error + Config" where
  "config_Load os p = (case os_Open os p of Inl err \<Rightarrow> Inl err | Inr f \<Rightarrow> Parse os f)"

end
