(* ===== verification/Configured.thy ===== *)
theory Configured
  imports Config "HOL-Library.Multiset"
begin

text \<open>What an accepted configuration is, and what an accepted file looks like.\<close>

section \<open>Roots that do not overlap\<close>

lemma containsPath_iff:
  assumes p: "\<forall>x \<in> set ps. plain x" and q: "\<forall>x \<in> set qs. plain x"
  shows "containsPath (abs_path ps) (abs_path qs) \<longleftrightarrow> prefix ps qs"
proof (cases "ps = qs")
  case True
  then show ?thesis by (simp add: containsPath_def filepath_Rel_def has_prefix_def)
next
  case False
  obtain b t where bt: "strip_common ps qs = (b, t)" by fastforce
  from strip_common_spec [OF bt] obtain zs where zs: "ps = zs @ b" "qs = zs @ t" "b = [] \<longleftrightarrow> prefix ps qs" by auto
  then have sets: "set b \<subseteq> set ps" "set t \<subseteq> set qs" by auto
  have nd: "b = [] \<or> hd b \<noteq> ''..''" using sets(1) p by (cases b) (auto simp: plain_def)
  have abs: "abs_path ps \<noteq> ''.''" by (simp add: abs_path_def)
  have rel: "filepath_Rel (abs_path ps) (abs_path qs) = Inr (join_with slash (map (\<lambda>_. ''..'') b @ t))"
    using False nd bt abs p q
    by (auto simp: filepath_Rel_def Clean_abs_path elements_abs_path abs_path_inject Let_def)
  let ?rel = "join_with slash (map (\<lambda>_. ''..'') b @ t)"
  have "?rel = ''..'' \<or> has_prefix ?rel ''../'' \<longleftrightarrow> b \<noteq> []"
  proof
    assume r: "?rel = ''..'' \<or> has_prefix ?rel ''../''"
    show "b \<noteq> []"
    proof
      assume b: "b = []"
      then have "t \<noteq> []" using r by (auto simp: has_prefix_def)
      moreover have "\<forall>x \<in> set t. slash \<notin> set x" "\<forall>x \<in> set t. x \<noteq> ''..''" using sets(2) q by (auto simp: plain_def)
      ultimately show False using join_starts_dotdot [of t] r b hd_in_set [of t] by auto
    qed
  next
    assume "b \<noteq> []"
    then show "?rel = ''..'' \<or> has_prefix ?rel ''../''"
      by (cases b) (auto simp: join_with_Cons has_prefix_def)
  qed
  then show ?thesis using rel zs(3) by (auto simp: containsPath_def)
qed

text \<open>\<open>filepath.EvalSymlinks\<close> returns the clean absolute path of an absolute one.\<close>

definition symlinks_sound :: "paths \<Rightarrow> bool" where
  "symlinks_sound os \<longleftrightarrow> (\<forall>p q. IsAbs p \<longrightarrow> EvalSymlinks os p = Inr q \<longrightarrow> (\<exists>ps. (\<forall>x \<in> set ps. plain x) \<and> q = abs_path ps))"

lemma IsAbs_Dir: "IsAbs p \<Longrightarrow> IsAbs (filepath_Dir p)"
proof -
  assume "IsAbs p"
  then obtain r where p: "p = slash # r" by (cases p) (auto simp: IsAbs_def has_prefix_def)
  have "IsAbs (rev (dropWhile (\<lambda>c. c \<noteq> slash) (rev p)))"
    by (simp add: p dropWhile_append IsAbs_Cons)
  from Clean_absolute [OF this] show ?thesis by (auto simp: filepath_Dir_def)
qed

lemma canonical_absolute:
  "symlinks_sound os \<Longrightarrow> IsAbs p \<Longrightarrow> canonicalPath os p = Inr q \<Longrightarrow> \<exists>ps. (\<forall>x \<in> set ps. plain x) \<and> q = abs_path ps"
proof (induction os p arbitrary: q rule: canonicalPath.induct)
  case (1 os p)
  show ?case
  proof (cases "os_Lstat_path os p")
    case (Inr u)
    with 1(2-) show ?thesis unfolding symlinks_sound_def by (simp add: canonicalPath.simps [of os p])
  next
    case (Inl err)
    with 1(4) have ne: "err = NotExist" by (simp add: canonicalPath.simps [of os p] split: if_splits)
    note d = IsAbs_Dir [OF 1(3)]
    show ?thesis
    proof (cases "filepath_Dir p = p")
      case True
      then have "q = filepath_Dir p" using 1(4) Inl ne by (simp add: canonicalPath.simps [of os p])
      moreover have "IsAbs (rev (dropWhile (\<lambda>c. c \<noteq> slash) (rev p)))"
        using 1(3) by (cases p) (auto simp: IsAbs_Cons dropWhile_append IsAbs_def has_prefix_def)
      ultimately show ?thesis using Clean_absolute by (simp add: filepath_Dir_def)
    next
      case False
      with 1(4) Inl ne obtain r where r: "canonicalPath os (filepath_Dir p) = Inr r"
        "q = filepath_Join r (filepath_Base p)"
        by (auto simp: canonicalPath.simps [of os p] split: sum.splits)
      from 1(1) [OF Inl _ False 1(2) d r(1)] ne obtain rs where "r = abs_path rs" by blast
      then show ?thesis
        using Clean_absolute [of "r @ slash # filepath_Base p"] r(2)
        by (simp add: filepath_Join_def abs_path_def IsAbs_Cons)
    qed
  qed
qed

definition apart :: "string \<Rightarrow> string \<Rightarrow> bool" where
  "apart p q \<longleftrightarrow> \<not> containsPath p q \<and> \<not> containsPath q p"

lemma apart_sym: "apart p q \<longleftrightarrow> apart q p"
  by (auto simp: apart_def)

text \<open>The canonical form of a configured path that is absolute.\<close>

definition root_path :: "paths \<Rightarrow> string \<Rightarrow> string option" where
  "root_path os p = (if IsAbs p \<and> CHR 0x00 \<notin> set p
     then (case canonicalPath os (filepath_Clean p) of Inr q \<Rightarrow> Some q | Inl _ \<Rightarrow> None) else None)"

lemma check_paths_Inr:
  "check_paths os resolved ps = Inr () \<longleftrightarrow>
     (\<exists>qs. map (root_path os \<circ> snd) ps = map Some qs \<and> sorted_wrt apart qs
        \<and> (\<forall>q \<in> set qs. \<forall>r \<in> snd ` set resolved. apart q r))"
proof (induction os resolved ps rule: check_paths.induct)
  case (2 os resolved name p ps)
  show ?case
  proof (cases "root_path os p")
    case None
    then show ?thesis by (auto simp: root_path_def split: sum.splits if_splits)
  next
    case (Some q)
    then have c: "IsAbs p" "CHR 0x00 \<notin> set p" "canonicalPath os (filepath_Clean p) = Inr q"
      by (auto simp: root_path_def split: if_splits sum.splits)
    let ?f = "find (\<lambda>(other, previous). containsPath q previous \<or> containsPath previous q) resolved"
    have f: "?f = None \<longleftrightarrow> (\<forall>r \<in> snd ` set resolved. apart q r)"
      by (force simp: find_None_iff apart_def)
    show ?thesis
    proof (cases ?f)
      case None
      from 2 [of q] c None have "check_paths os resolved ((name, p) # ps) = Inr () \<longleftrightarrow>
        (\<exists>qs. map (root_path os \<circ> snd) ps = map Some qs \<and> sorted_wrt apart qs
          \<and> (\<forall>q' \<in> set qs. \<forall>r \<in> insert q (snd ` set resolved). apart q' r))"
        by (simp add: comp_def)
      also have "\<dots> \<longleftrightarrow> (\<exists>qs. map (root_path os \<circ> snd) ((name, p) # ps) = map Some qs \<and> sorted_wrt apart qs
          \<and> (\<forall>q' \<in> set qs. \<forall>r \<in> snd ` set resolved. apart q' r))" (is "?l \<longleftrightarrow> ?r")
      proof
        assume ?l
        then obtain qs where "map (root_path os \<circ> snd) ps = map Some qs" "sorted_wrt apart qs"
          "\<forall>q' \<in> set qs. \<forall>r \<in> insert q (snd ` set resolved). apart q' r" by blast
        then show ?r using Some None f by (intro exI [of _ "q # qs"]) (auto simp: apart_sym [of q])
      next
        assume ?r
        then obtain qs where qs: "map (root_path os \<circ> snd) ((name, p) # ps) = map Some qs" "sorted_wrt apart qs"
          "\<forall>q' \<in> set qs. \<forall>r \<in> snd ` set resolved. apart q' r" by blast
        then obtain qs' where "qs = q # qs'" using Some by (cases qs) auto
        then show ?l using qs by (intro exI [of _ qs']) (auto simp: apart_sym [of q])
      qed
      finally show ?thesis .
    next
      case Some': (Some x)
      then have "\<not> (\<forall>r \<in> snd ` set resolved. apart q r)" using f by auto
      moreover have "check_paths os resolved ((name, p) # ps) \<noteq> Inr ()" using c Some' by (cases x) simp
      ultimately show ?thesis using Some by (auto simp: Cons_eq_map_conv) 
    qed
  qed
qed simp

section \<open>Accepted configurations\<close>

definition peer_ok :: "string \<Rightarrow> config_Peer \<Rightarrow> bool" where
  "peer_ok name p \<longleftrightarrow> namePattern name \<and> name \<noteq> ''local'' \<and> PName p = name
     \<and> validAddress (PAddress p) False \<and> idPattern (PDeviceID p)"

definition folder_ok :: "Config \<Rightarrow> string \<Rightarrow> config_Folder \<Rightarrow> bool" where
  "folder_ok c i f \<longleftrightarrow> namePattern i \<and> FID f = i \<and> distinct (FPeers f)
     \<and> set (FPeers f) \<subseteq> fst ` set (CPeers c) \<and> (FSource f = ''local'' \<or> FSource f \<in> set (FPeers f))"

definition roots_apart :: "paths \<Rightarrow> string list \<Rightarrow> bool" where
  "roots_apart os ps \<longleftrightarrow> (\<exists>qs. map (root_path os) ps = map Some qs \<and> sorted_wrt apart qs)"

definition config_ok :: "paths \<Rightarrow> Config \<Rightarrow> bool" where
  "config_ok os c \<longleftrightarrow>
     validAddress (Listen c) True \<and> length (CPeers c) \<le> 32 \<and> length (CFolders c) \<le> 128
     \<and> 10 ^ 8 \<le> ScanInterval c
     \<and> (\<forall>(name, p) \<in> set (CPeers c). peer_ok name p) \<and> distinct (map (PDeviceID \<circ> snd) (CPeers c))
     \<and> (\<forall>(i, f) \<in> set (CFolders c). folder_ok c i f)
     \<and> roots_apart os (StateDir c # map (FPath \<circ> snd) (CFolders c))"

lemma case_sum_Inr: "(case r of Inl err \<Rightarrow> Inl err | Inr _ \<Rightarrow> m) = Inr x \<longleftrightarrow> (\<exists>u. r = Inr u) \<and> m = Inr x"
  by (cases r) auto

lemma check_peers_Inr:
  "check_peers ids ps = Inr () \<longleftrightarrow>
     (\<forall>(name, p) \<in> set ps. peer_ok name p) \<and> distinct (map (PDeviceID \<circ> snd) ps)
     \<and> (\<forall>d \<in> (PDeviceID \<circ> snd) ` set ps. map_of ids d = None)"
proof (induction ids ps rule: check_peers.induct)
  case (2 ids name p ps)
  show ?case
  proof (cases "peer_ok name p \<and> map_of ids (PDeviceID p) = None")
    case True
    with 2 have "check_peers ids ((name, p) # ps) = Inr () \<longleftrightarrow>
      (\<forall>(name, p) \<in> set ps. peer_ok name p) \<and> distinct (map (PDeviceID \<circ> snd) ps)
       \<and> (\<forall>d \<in> (PDeviceID \<circ> snd) ` set ps. map_of ((PDeviceID p, name) # ids) d = None)"
      by (simp add: peer_ok_def comp_def)
    moreover have "map_of ((PDeviceID p, name) # ids) d = None \<longleftrightarrow> d \<noteq> PDeviceID p \<and> map_of ids d = None" for d by simp
    ultimately show ?thesis using True by (auto simp: comp_def image_iff simp del: map_of.simps check_peers.simps)
  next
    case False
    then show ?thesis by (auto simp: peer_ok_def split: option.splits)
  qed
qed simp

lemma check_folder_peers_Inr:
  "check_folder_peers c i seen ps = Inr () \<longleftrightarrow>
     set ps \<subseteq> fst ` set (CPeers c) \<and> distinct ps \<and> set ps \<inter> set seen = {}"
  by (induction c i seen ps rule: check_folder_peers.induct) (auto simp: map_of_eq_None_iff )

lemma check_folders_Inr:
  "check_folders c fs = Inr () \<longleftrightarrow> (\<forall>(i, f) \<in> set fs. folder_ok c i f)"
proof (induction c fs rule: check_folders.induct)
  case (2 c i f fs)
  show ?case
  proof (cases "check_folder_peers c i [] (FPeers f)")
    case (Inl err)
    then have "check_folder_peers c i [] (FPeers f) \<noteq> Inr ()" by simp
    then have "\<not> folder_ok c i f" by (simp add: folder_ok_def check_folder_peers_Inr)
    moreover from Inl have "check_folders c ((i, f) # fs) \<noteq> Inr ()" by simp
    ultimately show ?thesis by auto
  next
    case (Inr u)
    then have "check_folder_peers c i [] (FPeers f) = Inr ()" by simp
    then have "set (FPeers f) \<subseteq> fst ` set (CPeers c) \<and> distinct (FPeers f)" by (simp add: check_folder_peers_Inr)
    moreover have "check_folders c ((i, f) # fs) = Inr () \<longleftrightarrow>
        namePattern i \<and> FID f = i \<and> (FSource f = ''local'' \<or> FSource f \<in> set (FPeers f)) \<and> check_folders c fs = Inr ()"
      using Inr by auto
    ultimately show ?thesis
      using 2 [OF _ Inr] by (auto simp: folder_ok_def simp del: check_folders.simps)
  qed
qed simp

lemma Validate_Inr: "Validate os c = Inr () \<longleftrightarrow> config_ok os c"
proof -
  have "check_paths os [] (config_paths c) = Inr () \<longleftrightarrow> roots_apart os (StateDir c # map (FPath \<circ> snd) (CFolders c))"
    by (simp add: check_paths_Inr config_paths_def roots_apart_def comp_def case_prod_unfold del: check_paths.simps)
  then show ?thesis
    by (simp add: Validate_def config_ok_def case_sum_Inr not_less check_peers_Inr check_folders_Inr del: check_paths.simps)
qed

text \<open>C28. Validate accepts exactly the configurations the rules allow: a listening address, at most 32
  peers and 128 folders, a scan interval of at least 100 ms, peers with legal names, addresses and
  pairwise different device ids, folders with legal ids whose peers are known and different and
  whose source is local or one of them, and roots whose canonical paths are absolute and pairwise
  not inside each other.\<close>

theorem Validate_exact: "Validate os c = Inr () \<longleftrightarrow> config_ok os c"
  by (rule Validate_Inr)

text \<open>C29. In an accepted configuration the state directory and the folder roots have canonical paths of
  plain components of which none is another or lies below another, symbolic links included (as far
  as EvalSymlinks returns clean absolute paths).\<close>

theorem roots_never_overlap:
  assumes "symlinks_sound os" "Validate os c = Inr ()"
    "roots = StateDir c # map (FPath \<circ> snd) (CFolders c)" "i < j" "j < length roots"
  shows "\<exists>ps qs. root_path os (roots ! i) = Some (abs_path ps) \<and> root_path os (roots ! j) = Some (abs_path qs)
    \<and> list_all plain ps \<and> list_all plain qs \<and> \<not> prefix ps qs \<and> \<not> prefix qs ps"
proof -
  from assms(2,3) obtain xs where xs: "map (root_path os) roots = map Some xs" "sorted_wrt apart xs"
    unfolding Validate_Inr config_ok_def roots_apart_def assms(3) by blast
  then have len: "length xs = length roots" by (metis length_map)
  have at: "root_path os (roots ! k) = Some (xs ! k)" if "k < length roots" for k
    using arg_cong [OF xs(1), of "\<lambda>l. l ! k"] that len by simp
  have plain: "\<exists>ps. (\<forall>x \<in> set ps. plain x) \<and> xs ! k = abs_path ps" if "k < length roots" for k
  proof -
    have "IsAbs (roots ! k)" "canonicalPath os (filepath_Clean (roots ! k)) = Inr (xs ! k)"
      using at [OF that] by (auto simp: root_path_def split: if_splits sum.splits)
    then show ?thesis using canonical_absolute [OF assms(1)] Clean_absolute by (metis IsAbs_abs_path)
  qed
  obtain ps qs where p: "\<forall>x \<in> set ps. plain x" "xs ! i = abs_path ps" and q: "\<forall>x \<in> set qs. plain x" "xs ! j = abs_path qs"
    using plain [of i] plain [of j] assms(4,5) by auto
  have "apart (xs ! i) (xs ! j)" using sorted_wrt_nth_less [OF xs(2)] assms(4,5) len by simp
  then have "\<not> prefix ps qs \<and> \<not> prefix qs ps" unfolding p(2) q(2) apart_def by (simp add: containsPath_iff p(1) q(1))
  then show ?thesis using at [of i] at [of j] assms(4,5) p q by (auto simp: list_all_iff)
qed

section \<open>The order of a map does not matter\<close>

lemma sorted_wrt_symmetric:
  assumes "\<And>x y. R x y = R y x"
  shows "sorted_wrt R xs \<longleftrightarrow> (\<forall>x \<in># mset xs. \<forall>y \<in># mset xs - {#x#}. R x y)"
proof (induction xs)
  case (Cons a xs)
  have "mset (a # xs) - {#x#} = add_mset a (mset xs - {#x#})" if "x \<in># mset xs" for x using that by simp
  with Cons show ?case using assms [of a] by auto
qed simp

lemma map_eq_map_Some: "map f xs = map Some ys \<longleftrightarrow> None \<notin> f ` set xs \<and> ys = map (the \<circ> f) xs"
proof (induction xs arbitrary: ys)
  case (Cons x xs)
  then show ?case by (cases ys; cases "f x") auto
qed auto

lemma roots_apart_pairs:
  "roots_apart os xs \<longleftrightarrow> None \<notin> root_path os ` set xs
     \<and> sorted_wrt (\<lambda>p q. apart (the (root_path os p)) (the (root_path os q))) xs"
  by (auto simp: roots_apart_def map_eq_map_Some sorted_wrt_map)

theorem Validate_any_order:
  assumes "mset (CPeers c) = mset ps" "mset (CFolders c) = mset fs"
  shows "Validate os (c\<lparr>CPeers := ps, CFolders := fs\<rparr>) = Inr () \<longleftrightarrow> Validate os c = Inr ()"
proof -
  let ?d = "c\<lparr>CPeers := ps, CFolders := fs\<rparr>"
  have sets: "set ps = set (CPeers c)" "set fs = set (CFolders c)" "length ps = length (CPeers c)" "length fs = length (CFolders c)"
    using assms by (metis mset_eq_setD mset_eq_length)+
  have ids: "distinct (map (PDeviceID \<circ> snd) ps) \<longleftrightarrow> distinct (map (PDeviceID \<circ> snd) (CPeers c))"
    using mset_eq_imp_distinct_iff [of "map (PDeviceID \<circ> snd) ps" "map (PDeviceID \<circ> snd) (CPeers c)"] assms(1) by simp
  have fok: "folder_ok ?d i f = folder_ok c i f" for i f by (simp add: folder_ok_def sets)
  have "roots_apart os (StateDir c # map (FPath \<circ> snd) fs) = roots_apart os (StateDir c # map (FPath \<circ> snd) (CFolders c))"
  proof -
    have "mset (StateDir c # map (FPath \<circ> snd) fs) = mset (StateDir c # map (FPath \<circ> snd) (CFolders c))" using assms(2) by simp
    moreover from this have "set (StateDir c # map (FPath \<circ> snd) fs) = set (StateDir c # map (FPath \<circ> snd) (CFolders c))"
      by (rule mset_eq_setD)
    ultimately show ?thesis unfolding roots_apart_pairs
      by (simp only: sorted_wrt_symmetric [of "\<lambda>p q. apart (the (root_path os p)) (the (root_path os q))", OF apart_sym])
  qed
  then show ?thesis unfolding Validate_Inr config_ok_def by (simp add: sets ids fok case_prod_unfold)
qed

section \<open>What an accepted file looks like\<close>

text \<open>
  The lines that count, and the statement that such a line is: a section header between brackets, or
  a key and a value around the first equals sign, the value unquoted if it starts with a quote.
\<close>

definition significant :: "string list \<Rightarrow> string list" where
  "significant ls = filter (\<lambda>v. v \<noteq> [] \<and> \<not> has_prefix v ''#'' \<and> \<not> has_prefix v '';'') (map TrimSpace ls)"

datatype statement = Header string | Setting string string

definition value_of :: "string \<Rightarrow> string option" where
  "value_of v = (if has_prefix v [quote_char] then (case Unquote v of Inl err \<Rightarrow> None | Inr x \<Rightarrow> Some x) else Some v)"

definition statement_of :: "string \<Rightarrow> statement option" where
  "statement_of v =
     (if has_prefix v ''['' then (if has_suffix v '']'' then Some (Header (TrimSpace (butlast (drop 1 v)))) else None)
      else if CHR ''='' \<in> set v \<and> TrimSpace (takeWhile (\<lambda>c. c \<noteq> CHR ''='') v) \<noteq> [] then
        map_option (Setting (TrimSpace (takeWhile (\<lambda>c. c \<noteq> CHR ''='') v)))
          (value_of (TrimSpace (tl (dropWhile (\<lambda>c. c \<noteq> CHR ''='') v))))
      else None)"

text \<open>A section is its kind and its name; the settings of a file with the section they stand in.\<close>

type_synonym section_name = "string \<times> string"

definition section_of :: "string \<Rightarrow> section_name option" where
  "section_of h = (if h = ''service'' then Some (''service'', []) else sectionPattern h)"

definition headers :: "statement list \<Rightarrow> string list" where
  "headers ss = concat (map (\<lambda>s. case s of Header h \<Rightarrow> [h] | Setting key v \<Rightarrow> []) ss)"

definition enter :: "section_name \<Rightarrow> statement \<Rightarrow> section_name" where
  "enter sec s = (case s of Header h \<Rightarrow> the (section_of h) | Setting key v \<Rightarrow> sec)"

fun settings :: "section_name \<Rightarrow> statement list \<Rightarrow> ((section_name \<times> string) \<times> string) list" where
  "settings sec [] = []"
| "settings sec (Header h # ss) = settings (the (section_of h)) ss"
| "settings sec (Setting key v # ss) = ((sec, key), v) # settings sec ss"

abbreviation file_settings :: "statement list \<Rightarrow> ((section_name \<times> string) \<times> string) list" where
  "file_settings \<equiv> settings ([], [])"

definition known_key :: "string \<Rightarrow> string \<Rightarrow> bool" where
  "known_key k key \<longleftrightarrow>
     (k = ''service'' \<and> key \<in> {''listen'', ''state_dir'', ''scan_interval''})
     \<or> (k = ''peer'' \<and> key \<in> {''address'', ''device_id''})
     \<or> (k = ''folder'' \<and> key \<in> {''path'', ''source'', ''peers''})"

text \<open>No section and no key of a section stands twice, every section and every key is known, and the
  interval is a duration.\<close>

definition lawful :: "statement list \<Rightarrow> bool" where
  "lawful ss \<longleftrightarrow> distinct (headers ss) \<and> (\<forall>h \<in> set (headers ss). section_of h \<noteq> None)
     \<and> distinct (map fst (file_settings ss))
     \<and> (\<forall>((sec, key), v) \<in> set (file_settings ss). known_key (fst sec) key
          \<and> (fst sec = ''service'' \<and> key = ''scan_interval'' \<longrightarrow> (\<exists>d. ParseDuration v = Inr d)))"

text \<open>The configuration that the statements mean: each setting, or its default.\<close>

definition setting :: "statement list \<Rightarrow> string \<Rightarrow> string \<Rightarrow> string \<Rightarrow> string \<Rightarrow> string" where
  "setting ss k n key d = (case map_of (file_settings ss) ((k, n), key) of None \<Rightarrow> d | Some v \<Rightarrow> v)"

definition names :: "string \<Rightarrow> statement list \<Rightarrow> string list" where
  "names k ss = concat (map (\<lambda>h. case section_of h of Some (k', n) \<Rightarrow> if k' = k then [n] else [] | None \<Rightarrow> []) (headers ss))"

definition peer_list :: "string \<Rightarrow> string list" where
  "peer_list v = (if v = [] then [] else map TrimSpace (split_on (CHR '','') v))"

definition meaning :: "statement list \<Rightarrow> Config" where
  "meaning ss = \<lparr>Listen = setting ss ''service'' [] ''listen'' ''127.0.0.1:24800'',
     StateDir = setting ss ''service'' [] ''state_dir'' [],
     ScanInterval = (case map_of (file_settings ss) ((''service'', []), ''scan_interval'') of
         None \<Rightarrow> 5 * 10 ^ 9 | Some v \<Rightarrow> (case ParseDuration v of Inr d \<Rightarrow> d | Inl err \<Rightarrow> 0)),
     CPeers = map (\<lambda>n. (n, \<lparr>PName = n, PAddress = setting ss ''peer'' n ''address'' [],
         PDeviceID = setting ss ''peer'' n ''device_id'' []\<rparr>)) (names ''peer'' ss),
     CFolders = map (\<lambda>n. (n, \<lparr>FID = n, FPath = setting ss ''folder'' n ''path'' [], FSource = setting ss ''folder'' n ''source'' [],
         FPeers = peer_list (setting ss ''folder'' n ''peers'' [])\<rparr>)) (names ''folder'' ss)\<rparr>"

subsection \<open>Sections\<close>

lemma quoted_name_Some: "quoted_name k h = Some n \<Longrightarrow> h = k @ '' '' @ [quote_char] @ n @ [quote_char] \<and> namePattern n"
proof -
  assume a: "quoted_name k h = Some n"
  let ?p = "k @ '' '' @ [quote_char]"
  have h: "has_prefix h ?p" "length ?p < length h" "last h = quote_char" "namePattern (butlast (drop (length ?p) h))"
    "n = butlast (drop (length ?p) h)"
    using a by (auto simp: quoted_name_def Let_def split: if_splits)
  have "drop (length ?p) h \<noteq> []" using h(2) by simp
  then have "drop (length ?p) h = n @ [quote_char]"
    using h(2,3,5) by (metis append_butlast_last_id last_drop)
  moreover have "h = ?p @ drop (length ?p) h" using h(1) by (metis append_take_drop_id has_prefix_def)
  ultimately show ?thesis using h(4,5) by simp
qed

lemma section_of_Some:
  "section_of h = Some (k, n) \<Longrightarrow>
     (h = ''service'' \<and> k = ''service'' \<and> n = [])
     \<or> (k \<in> {''peer'', ''folder''} \<and> h = k @ '' '' @ [quote_char] @ n @ [quote_char] \<and> namePattern n)"
  by (auto simp: section_of_def sectionPattern_def split: if_splits option.splits dest: quoted_name_Some)

lemma section_of_inject:
  assumes "section_of h = Some sec" "section_of h' = Some sec"
  shows "h = h'"
  using assms section_of_Some [of h "fst sec" "snd sec"] section_of_Some [of h' "fst sec" "snd sec"] by auto

lemma namePattern_slash: "namePattern n \<Longrightarrow> slash \<notin> set n"
  by (auto simp: namePattern_def is_alnum_def list_all_iff Let_def split: list.splits)

lemma section_slash: "section_of h = Some (k, n) \<Longrightarrow> slash \<notin> set k \<and> slash \<notin> set n \<and> k \<noteq> []"
  using section_of_Some [of h k n] namePattern_slash by auto

definition setting_key :: "section_name \<times> string \<Rightarrow> string" where
  "setting_key s = fst (fst s) @ ''/'' @ snd (fst s) @ ''/'' @ snd s"

lemma append_slash_inject:
  "slash \<notin> set a \<Longrightarrow> slash \<notin> set b \<Longrightarrow> a @ slash # x = b @ slash # y \<longleftrightarrow> a = b \<and> x = y"
proof (induction a arbitrary: b)
  case Nil
  then show ?case by (cases b) auto
next
  case (Cons c a)
  then show ?case by (cases b) auto
qed

lemma setting_key_inject:
  assumes "section_of h = Some sec" "section_of h' = Some sec'"
  shows "setting_key (sec, key) = setting_key (sec', key') \<longleftrightarrow> sec = sec' \<and> key = key'"
  using section_slash [of h "fst sec" "snd sec"] section_slash [of h' "fst sec'" "snd sec'"] assms
  by (auto simp: setting_key_def append_slash_inject prod_eq_iff)

subsection \<open>One more statement\<close>

lemma headers_snoc [simp]:
  "headers (ss @ [Header h]) = headers ss @ [h]" "headers (ss @ [Setting key v]) = headers ss"
  by (simp_all add: headers_def)

definition current :: "section_name \<Rightarrow> statement list \<Rightarrow> section_name" where
  "current sec ss = fold (\<lambda>s sec. enter sec s) ss sec"

lemma current_snoc [simp]:
  "current sec (ss @ [Header h]) = the (section_of h)" "current sec (ss @ [Setting key v]) = current sec ss"
  by (simp_all add: current_def enter_def)

lemma settings_snoc [simp]:
  "settings sec (ss @ [Header h]) = settings sec ss"
  "settings sec (ss @ [Setting key v]) = settings sec ss @ [((current sec ss, key), v)]"
  by (induction sec ss rule: settings.induct) (simp_all add: current_def enter_def)

lemma names_snoc:
  "names k (ss @ [Header h]) = names k ss @ (case section_of h of Some (k', n) \<Rightarrow> if k' = k then [n] else [] | None \<Rightarrow> [])"
  "names k (ss @ [Setting key v]) = names k ss"
  by (simp_all add: names_def)

text \<open>Every setting stands in a section that a header has opened.\<close>

definition opened_by :: "statement list \<Rightarrow> section_name \<Rightarrow> bool" where
  "opened_by ss sec \<longleftrightarrow> (\<exists>h \<in> set (headers ss). section_of h = Some sec)"

lemma settings_append: "settings sec (ss @ ts) = settings sec ss @ settings (current sec ss) ts"
  by (induction sec ss rule: settings.induct) (simp_all add: current_def enter_def)

lemma headers_append: "headers (ss @ ts) = headers ss @ headers ts"
  by (simp add: headers_def)

lemma lawful_prefix: "lawful (ss @ ts) \<Longrightarrow> lawful ss"
  unfolding lawful_def by (auto simp: headers_append settings_append)

lemma current_opened:
  "lawful ss \<Longrightarrow> current ([], []) ss = ([], []) \<and> headers ss = [] \<or> opened_by ss (current ([], []) ss)"
proof (induction ss rule: rev_induct)
  case Nil
  show ?case by (simp add: current_def headers_def)
next
  case (snoc s ss)
  note ih = snoc.IH [OF lawful_prefix [OF snoc.prems]]
  show ?case
  proof (cases s)
    case (Header h)
    then show ?thesis using snoc.prems by (auto simp: lawful_def opened_by_def)
  next
    case (Setting key v)
    then show ?thesis using ih by (auto simp: opened_by_def)
  qed
qed

lemma settings_opened: "lawful ss \<Longrightarrow> ((sec, key), v) \<in> set (file_settings ss) \<Longrightarrow> opened_by ss sec"
proof (induction ss rule: rev_induct)
  case (snoc s ss)
  note p = lawful_prefix [OF snoc.prems(1)]
  show ?case
  proof (cases s)
    case (Header h)
    then show ?thesis using snoc.IH [OF p] snoc.prems(2) by (auto simp: opened_by_def)
  next
    case (Setting key' v')
    have "known_key (fst (current ([], []) ss)) key'"
      using snoc.prems(1) by (auto simp: Setting lawful_def)
    then have "opened_by ss (current ([], []) ss)" using current_opened [OF p] by (auto simp: known_key_def)
    then show ?thesis using snoc.IH [OF p] snoc.prems(2) by (auto simp: Setting opened_by_def)
  qed
qed simp

lemma names_opened: "n \<in> set (names k ss) \<longleftrightarrow> opened_by ss (k, n)"
  by (auto simp: names_def opened_by_def split: option.splits if_splits) force+

lemma distinct_names: "lawful ss \<Longrightarrow> distinct (names k ss)"
proof (induction ss rule: rev_induct)
  case (snoc s ss)
  note ih = snoc.IH [OF lawful_prefix [OF snoc.prems]]
  show ?case
  proof (cases s)
    case (Header h)
    have "n \<notin> set (names k ss)" if "section_of h = Some (k, n)" for n
      using snoc.prems that section_of_inject by (auto simp: Header lawful_def names_opened opened_by_def)
    then show ?thesis using ih by (auto simp: Header names_snoc split: option.split)
  qed (use ih in \<open>simp add: names_snoc\<close>)
qed (simp add: names_def headers_def)

subsection \<open>The parser and the meaning\<close>

text \<open>The variables of \<open>Parse\<close> after the statements \<open>ss\<close>.\<close>

definition parsed :: "statement list \<Rightarrow> parser" where
  "parsed ss = \<lparr>p_cfg = meaning ss, p_sections = rev (headers ss), p_keys = rev (map (setting_key \<circ> fst) (file_settings ss)),
     p_kind = fst (current ([], []) ss), p_name = snd (current ([], []) ss)\<rparr>"

lemma parsed_Nil: "parsed [] = parse_begin"
  by (simp add: parsed_def parse_begin_def meaning_def headers_def current_def names_def setting_def)

lemma update_new:
  "n \<notin> set ns \<Longrightarrow> AList.update n x (map (\<lambda>m. (m, f m)) ns) = map (\<lambda>m. (m, f m)) ns @ [(n, x)]"
  by (induction ns) auto

lemma update_map: "distinct ns \<Longrightarrow> n \<in> set ns \<Longrightarrow>
  AList.update n x (map (\<lambda>m. (m, f m)) ns) = map (\<lambda>m. (m, if m = n then x else f m)) ns"
  by (induction ns) auto

lemma map_of_map_names: "map_of (map (\<lambda>m. (m, f m)) ns) n = (if n \<in> set ns then Some (f n) else None)"
  by (induction ns) auto

lemma setting_header: "setting (ss @ [Header h]) = setting ss"
  by (simp add: setting_def fun_eq_iff)

lemma no_setting: "lawful ss \<Longrightarrow> \<not> opened_by ss (k, n) \<Longrightarrow> map_of (file_settings ss) ((k, n), key) = None"
  using settings_opened by (force simp: map_of_eq_None_iff)

lemma new_section:
  assumes "lawful ss" "h \<notin> set (headers ss)" "section_of h = Some (k, n)"
  shows "\<not> opened_by ss (k, n)" "setting ss k n key d = d"
proof -
  show "\<not> opened_by ss (k, n)" using assms section_of_inject by (auto simp: opened_by_def)
  then show "setting ss k n key d = d" using no_setting [OF assms(1)] by (simp add: setting_def)
qed

lemma lawful_header: "lawful (ss @ [Header h]) \<longleftrightarrow> lawful ss \<and> h \<notin> set (headers ss) \<and> section_of h \<noteq> None"
  by (auto simp: lawful_def)

lemma parse_header_exact:
  assumes "lawful ss" "TrimSpace (butlast (drop 1 v)) = h"
  shows "parse_header line v (parsed ss) = Inr p \<longleftrightarrow>
    has_suffix v '']'' \<and> lawful (ss @ [Header h]) \<and> p = parsed (ss @ [Header h])"
proof (cases "has_suffix v '']'' \<and> h \<notin> set (headers ss) \<and> section_of h \<noteq> None")
  case True
  then obtain k n where s: "section_of h = Some (k, n)" by auto
  have h: "has_suffix v '']''" "h \<notin> set (headers ss)" using True by simp_all
  note new = new_section [OF assms(1) h(2) s]
  have nk: "n \<notin> set (names k ss)" using new by (simp add: names_opened)
  have hd: "parse_header line v (parsed ss) = (let p1 = (parsed ss)\<lparr>p_sections := h # rev (headers ss)\<rparr> in
      if h = ''service'' then Inr (p1\<lparr>p_kind := ''service'', p_name := []\<rparr>)
      else case sectionPattern h of None \<Rightarrow> Inl (Errorf ''line %d: unknown or malformed section %q'' [line, h])
         | Some (k, name) \<Rightarrow> Inr (p1\<lparr>p_kind := k, p_name := name, p_cfg :=
             (if k = ''peer''
              then (meaning ss)\<lparr>CPeers := AList.update name \<lparr>PName = name, PAddress = [], PDeviceID = []\<rparr> (CPeers (meaning ss))\<rparr>
              else (meaning ss)\<lparr>CFolders := AList.update name \<lparr>FID = name, FPath = [], FSource = [], FPeers = []\<rparr> (CFolders (meaning ss))\<rparr>)\<rparr>))"
    unfolding parse_header_def assms(2) using h by (auto simp: parsed_def Let_def split: option.split)
  from section_of_Some [OF s] have "parse_header line v (parsed ss) = Inr (parsed (ss @ [Header h]))"
  proof
    assume "h = ''service'' \<and> k = ''service'' \<and> n = []"
    then show ?thesis using s unfolding hd
      by (simp add: parsed_def meaning_def setting_header names_snoc Let_def)
  next
    assume k: "k \<in> {''peer'', ''folder''} \<and> h = k @ '' '' @ [quote_char] @ n @ [quote_char] \<and> namePattern n"
    then have ne: "h \<noteq> ''service''" by auto
    with s have sp: "sectionPattern h = Some (k, n)" by (simp add: section_of_def)
    from k consider "k = ''peer''" | "k = ''folder''" by blast
    then show ?thesis
    proof cases
      case 1
      have "meaning (ss @ [Header h]) = (meaning ss)\<lparr>CPeers := CPeers (meaning ss) @ [(n, \<lparr>PName = n, PAddress = [], PDeviceID = []\<rparr>)]\<rparr>"
        using new(2) s 1 by (simp add: meaning_def setting_header names_snoc)
      moreover have "AList.update n \<lparr>PName = n, PAddress = [], PDeviceID = []\<rparr> (CPeers (meaning ss))
          = CPeers (meaning ss) @ [(n, \<lparr>PName = n, PAddress = [], PDeviceID = []\<rparr>)]"
        using update_new [OF nk] 1 by (simp add: meaning_def)
      ultimately show ?thesis using ne sp s 1 unfolding hd by (simp add: parsed_def Let_def)
    next
      case 2
      have "meaning (ss @ [Header h]) = (meaning ss)\<lparr>CFolders := CFolders (meaning ss) @ [(n, \<lparr>FID = n, FPath = [], FSource = [], FPeers = []\<rparr>)]\<rparr>"
        using new(2) s 2 by (simp add: meaning_def setting_header names_snoc peer_list_def)
      moreover have "AList.update n \<lparr>FID = n, FPath = [], FSource = [], FPeers = []\<rparr> (CFolders (meaning ss))
          = CFolders (meaning ss) @ [(n, \<lparr>FID = n, FPath = [], FSource = [], FPeers = []\<rparr>)]"
        using update_new [OF nk] 2 by (simp add: meaning_def)
      ultimately show ?thesis using ne sp s 2 unfolding hd by (simp add: parsed_def Let_def)
    qed
  qed
  with h assms(1) s show ?thesis by (auto simp: lawful_header)
next
  case False
  have "\<exists>err. parse_header line v (parsed ss) = Inl err"
    using False unfolding parse_header_def assms(2)
    by (auto simp: parsed_def section_of_def Let_def split: option.split if_splits)
  with False assms(1) show ?thesis by (auto simp: lawful_header)
qed

lemma unquoted_Inr: "unquoted line v = Inr x \<longleftrightarrow> value_of v = Some x"
  by (auto simp: unquoted_def value_of_def split: sum.splits)

lemma unquoted_Inl: "unquoted line v = Inl err \<Longrightarrow> value_of v = None"
  by (auto simp: unquoted_def value_of_def split: sum.splits if_splits)

lemma setting_snoc:
  assumes "((current ([], []) ss), key) \<notin> fst ` set (file_settings ss)"
  shows "map_of (file_settings (ss @ [Setting key v])) (sec, key') =
    (if sec = current ([], []) ss \<and> key' = key then Some v else map_of (file_settings ss) (sec, key'))"
proof -
  have "map_of (file_settings ss) (current ([], []) ss, key) = None" using assms by (simp add: map_of_eq_None_iff)
  then show ?thesis by (auto simp: map_add_def split: option.split)
qed

lemma lawful_setting:
  assumes "lawful ss" "current ([], []) ss = (k, n)"
  shows "lawful (ss @ [Setting key v]) \<longleftrightarrow> ((k, n), key) \<notin> fst ` set (file_settings ss) \<and> known_key k key
    \<and> (k = ''service'' \<and> key = ''scan_interval'' \<longrightarrow> (\<exists>d. ParseDuration v = Inr d))"
  using assms by (auto simp: lawful_def)


text \<open>A setting changes its own field.\<close>

lemma setting_after:
  assumes "((current ([], []) ss), key) \<notin> fst ` set (file_settings ss)"
  shows "setting (ss @ [Setting key v]) k n key' d =
    (if (k, n) = current ([], []) ss \<and> key' = key then v else setting ss k n key' d)"
  using setting_snoc [OF assms, of v "(k, n)" key'] by (simp add: setting_def)

lemma set_service_meaning:
  assumes "current ([], []) ss = (''service'', [])" "((''service'', []), key) \<notin> fst ` set (file_settings ss)"
  shows "set_service line key v (meaning ss) = Inr (Some c) \<longleftrightarrow>
    known_key ''service'' key \<and> (key = ''scan_interval'' \<longrightarrow> (\<exists>d. ParseDuration v = Inr d)) \<and> c = meaning (ss @ [Setting key v])"
proof -
  have new: "(current ([], []) ss, key) \<notin> fst ` set (file_settings ss)" using assms by simp
  note m = setting_after [OF new, of v] setting_snoc [OF new, of v]
  consider "key = ''listen''" | "key = ''state_dir''" | "key = ''scan_interval''" | "\<not> known_key ''service'' key"
    by (auto simp: known_key_def)
  then show ?thesis
  proof cases
    case 3
    then show ?thesis using assms(1) m
      by (cases "ParseDuration v") (auto simp: set_service_def known_key_def meaning_def names_snoc simp del: settings_snoc)
  qed (use assms(1) m in \<open>auto simp: set_service_def known_key_def meaning_def names_snoc simp del: settings_snoc\<close>)
qed

lemma set_peer_meaning:
  assumes "lawful ss" "current ([], []) ss = (''peer'', n)" "((''peer'', n), key) \<notin> fst ` set (file_settings ss)"
  shows "map_option (\<lambda>p. (meaning ss)\<lparr>CPeers := AList.update n p (CPeers (meaning ss))\<rparr>) (set_peer key v (peer_named (meaning ss) n)) = Some c \<longleftrightarrow>
    known_key ''peer'' key \<and> c = meaning (ss @ [Setting key v])"
proof -
  have new: "(current ([], []) ss, key) \<notin> fst ` set (file_settings ss)" using assms by simp
  note m = setting_after [OF new, of v] setting_snoc [OF new, of v]
  have n: "n \<in> set (names ''peer'' ss)" using current_opened [OF assms(1)] assms(2) by (auto simp: names_opened)
  note u = update_map [OF distinct_names [OF assms(1)] n]
  have p: "peer_named (meaning ss) n = \<lparr>PName = n, PAddress = setting ss ''peer'' n ''address'' [], PDeviceID = setting ss ''peer'' n ''device_id'' []\<rparr>"
    using n by (simp add: peer_named_def meaning_def map_of_map_names)
  consider "key = ''address''" | "key = ''device_id''" | "\<not> known_key ''peer'' key" by (auto simp: known_key_def)
  then show ?thesis
    unfolding p
    by cases (use assms(2) m in \<open>auto simp: set_peer_def known_key_def meaning_def names_snoc u simp del: settings_snoc\<close>)
qed

lemma set_folder_meaning:
  assumes "lawful ss" "current ([], []) ss = (''folder'', n)" "((''folder'', n), key) \<notin> fst ` set (file_settings ss)"
  shows "map_option (\<lambda>f. (meaning ss)\<lparr>CFolders := AList.update n f (CFolders (meaning ss))\<rparr>) (set_folder key v (folder_named (meaning ss) n)) = Some c \<longleftrightarrow>
    known_key ''folder'' key \<and> c = meaning (ss @ [Setting key v])"
proof -
  have new: "(current ([], []) ss, key) \<notin> fst ` set (file_settings ss)" using assms by simp
  note m = setting_after [OF new, of v] setting_snoc [OF new, of v]
  have n: "n \<in> set (names ''folder'' ss)" using current_opened [OF assms(1)] assms(2) by (auto simp: names_opened)
  note u = update_map [OF distinct_names [OF assms(1)] n]
  have f: "folder_named (meaning ss) n = \<lparr>FID = n, FPath = setting ss ''folder'' n ''path'' [],
      FSource = setting ss ''folder'' n ''source'' [], FPeers = peer_list (setting ss ''folder'' n ''peers'' [])\<rparr>"
    using n by (simp add: folder_named_def meaning_def map_of_map_names)
  have none: "key = ''peers'' \<Longrightarrow> setting ss ''folder'' n ''peers'' [] = []"
    using assms(3) by (simp add: setting_def map_of_eq_None_iff [THEN iffD2])
  consider "key = ''path''" | "key = ''source''" | "key = ''peers''" | "\<not> known_key ''folder'' key" by (auto simp: known_key_def)
  then show ?thesis
  proof cases
    case 3
    then show ?thesis unfolding f using assms(2) m none
      by (auto simp: set_folder_def known_key_def meaning_def names_snoc u peer_list_def simp del: settings_snoc)
  qed (unfold f, use assms(2) m in \<open>auto simp: set_folder_def known_key_def meaning_def names_snoc u simp del: settings_snoc\<close>)
qed

lemma set_key_meaning:
  assumes "lawful ss" "current ([], []) ss = (k, n)" "k \<noteq> []" "((k, n), key) \<notin> fst ` set (file_settings ss)"
  shows "set_key line k n key v (meaning ss) = Inr (Some c) \<longleftrightarrow>
    lawful (ss @ [Setting key v]) \<and> c = meaning (ss @ [Setting key v])"
proof -
  obtain h where "section_of h = Some (k, n)" using current_opened [OF assms(1)] assms(2,3) by (auto simp: opened_by_def)
  from section_of_Some [OF this] consider "k = ''service''" "n = []" | "k = ''peer''" | "k = ''folder''" by blast
  then show ?thesis
    using assms set_service_meaning [of ss key line v c] set_peer_meaning [of ss n key v c] set_folder_meaning [of ss n key v c]
    by cases (auto simp: set_key_def lawful_setting)
qed

lemma parse_assignment_exact:
  assumes "lawful ss" "\<not> has_prefix v ''[''"
  shows "parse_assignment line v (parsed ss) = Inr p \<longleftrightarrow>
    (\<exists>s. statement_of v = Some s \<and> lawful (ss @ [s]) \<and> p = parsed (ss @ [s]))"
proof -
  obtain k n where cur: "current ([], []) ss = (k, n)" by fastforce
  define key where "key = TrimSpace (takeWhile (\<lambda>c. c \<noteq> CHR ''='') v)"
  define val where "val = TrimSpace (tl (dropWhile (\<lambda>c. c \<noteq> CHR ''='') v))"
  have dup: "k @ ''/'' @ n @ ''/'' @ key \<in> set (rev (map (setting_key \<circ> fst) (file_settings ss))) \<longleftrightarrow>
      ((k, n), key) \<in> fst ` set (file_settings ss)" if k: "k \<noteq> []"
  proof -
    obtain h where h: "section_of h = Some (k, n)" using current_opened [OF assms(1)] cur k by (auto simp: opened_by_def)
    have "setting_key ((k, n), key) = setting_key (sec, key') \<longleftrightarrow> (k, n) = sec \<and> key = key'"
      if s: "((sec, key'), x) \<in> set (file_settings ss)" for sec key' x
    proof -
      obtain h' where "section_of h' = Some sec" using settings_opened [OF assms(1) s] by (auto simp: opened_by_def)
      then show ?thesis by (simp only: setting_key_inject [OF h])
    qed
    moreover have "k @ ''/'' @ n @ ''/'' @ key = setting_key ((k, n), key)" by (simp add: setting_key_def)
    ultimately show ?thesis by (force simp: image_iff)
  qed
  have unsettled: "\<not> lawful (ss @ [Setting key x])" if "k = [] \<or> ((k, n), key) \<in> fst ` set (file_settings ss)" for x
    using that by (auto simp: lawful_setting [OF assms(1) cur] known_key_def)
  show ?thesis
  proof (cases "CHR ''='' \<in> set v \<and> key \<noteq> []")
    case True
    then have st: "statement_of v = map_option (Setting key) (value_of val)"
      using assms(2) by (simp add: statement_of_def key_def val_def)
    show ?thesis
    proof (cases "k = [] \<or> ((k, n), key) \<in> fst ` set (file_settings ss)")
      case bad: True
      have "\<exists>err. parse_assignment line v (parsed ss) = Inl err"
        using bad dup True cur by (auto simp: parse_assignment_def cut_def Let_def parsed_def key_def)
      with bad unsettled st show ?thesis by auto
    next
      case False
      note sk = set_key_meaning [OF assms(1) cur _ _, of key]
      have "parse_assignment line v (parsed ss) = Inr p \<longleftrightarrow> (\<exists>x c. value_of val = Some x \<and>
          set_key line k n key x (meaning ss) = Inr (Some c) \<and>
          p = (parsed ss)\<lparr>p_keys := (k @ ''/'' @ n @ ''/'' @ key) # p_keys (parsed ss), p_cfg := c\<rparr>)"
        using False dup True cur unquoted_Inr [of line val] unquoted_Inl [of line val]
        by (auto simp: parse_assignment_def cut_def Let_def parsed_def key_def [symmetric] val_def [symmetric] split: sum.splits option.splits)
      also have "\<dots> \<longleftrightarrow> (\<exists>x. value_of val = Some x \<and> lawful (ss @ [Setting key x]) \<and> p = parsed (ss @ [Setting key x]))"
        using False sk cur by (auto simp: parsed_def setting_key_def)
      finally show ?thesis by (auto simp: st)
    qed
  next
    case False
    then have "statement_of v = None" using assms(2) by (auto simp: statement_of_def key_def)
    moreover have "\<exists>err. parse_assignment line v (parsed ss) = Inl err"
      using False by (auto simp: parse_assignment_def cut_def Let_def key_def)
    ultimately show ?thesis by auto
  qed
qed

lemma parse_lines_exact:
  "lawful ss \<Longrightarrow> parse_lines n ls (parsed ss) = Inr p \<longleftrightarrow>
     (\<exists>ts. map statement_of (significant ls) = map Some ts \<and> lawful (ss @ ts) \<and> p = parsed (ss @ ts))"
proof (induction ls arbitrary: n ss)
  case Nil
  then show ?case by (auto simp: significant_def)
next
  case (Cons l ls)
  define v where "v = TrimSpace l"
  show ?case
  proof (cases "v = [] \<or> has_prefix v ''#'' \<or> has_prefix v '';''")
    case True
    then have "parse_line (show_nat (Suc n)) l (parsed ss) = Inr (parsed ss)" "significant (l # ls) = significant ls"
      by (auto simp: parse_line_def v_def significant_def Let_def)
    with Cons show ?thesis by simp
  next
    case False
    then have sig: "significant (l # ls) = v # significant ls" by (simp add: significant_def v_def)
    have line: "parse_line (show_nat (Suc n)) l (parsed ss) = Inr q \<longleftrightarrow>
        (\<exists>s. statement_of v = Some s \<and> lawful (ss @ [s]) \<and> q = parsed (ss @ [s]))" for q
    proof (cases "has_prefix v ''[''")
      case True
      with False parse_header_exact [OF Cons.prems refl, of "show_nat (Suc n)" v q] show ?thesis
        by (auto simp: parse_line_def v_def [symmetric] statement_of_def Let_def)
    next
      case no: False
      with False parse_assignment_exact [OF Cons.prems no, of "show_nat (Suc n)" q] show ?thesis
        by (simp add: parse_line_def v_def [symmetric] Let_def)
    qed
    have "parse_lines n (l # ls) (parsed ss) = Inr p \<longleftrightarrow>
        (\<exists>q. parse_line (show_nat (Suc n)) l (parsed ss) = Inr q \<and> parse_lines (Suc n) ls q = Inr p)"
      by (simp split: sum.split)
    also have "\<dots> \<longleftrightarrow> (\<exists>s ts. statement_of v = Some s \<and> map statement_of (significant ls) = map Some ts
        \<and> lawful (ss @ s # ts) \<and> p = parsed (ss @ s # ts))"
      using Cons.IH [of "ss @ [_]" "Suc n"] lawful_prefix [of "ss @ [_]"] by (auto simp: line)
    also have "\<dots> \<longleftrightarrow> (\<exists>ts. map statement_of (v # significant ls) = map Some ts \<and> lawful (ss @ ts) \<and> p = parsed (ss @ ts))"
      by (simp add: Cons_eq_map_conv) blast
    finally show ?thesis by (simp only: sig)
  qed
qed

text \<open>C30. Everything wrong in a configuration file is an error, and nothing else is: Parse returns a
  configuration exactly if no line is too long, every line that is not blank or a comment is a
  closed section header or a key and value with an equals sign and, where quoted, a well-formed
  quotation, no section and no key of a section stands twice, every section and key is known, the
  scan interval is a duration, and Validate accepts the result, which then has exactly the sections
  and values the lines state and the defaults for the rest.\<close>

theorem Parse_strict:
  "Parse os r = Inr c \<longleftrightarrow>
     (\<exists>ss. snd (scan_lines maxLine r) = None
        \<and> map statement_of (significant (fst (scan_lines maxLine r))) = map Some ss
        \<and> lawful ss \<and> c = meaning ss \<and> Validate os c = Inr ())"
proof -
  obtain ls e where sc: "scan_lines maxLine r = (ls, e)" by fastforce
  have "lawful []" by (simp add: lawful_def headers_def)
  from parse_lines_exact [OF this, of 0 ls] have l: "parse_lines 0 ls parse_begin = Inr p \<longleftrightarrow>
      (\<exists>ss. map statement_of (significant ls) = map Some ss \<and> lawful ss \<and> p = parsed ss)" for p
    by (simp add: parsed_Nil)
  have "Parse os r = Inr c \<longleftrightarrow> (\<exists>p. parse_lines 0 ls parse_begin = Inr p \<and> e = None \<and> Validate os (p_cfg p) = Inr () \<and> c = p_cfg p)"
    by (auto simp: Parse_def sc split: sum.split option.split)
  then show ?thesis by (auto simp: l sc parsed_def)
qed

section \<open>A small configuration\<close>

definition demo_paths :: paths where
  "demo_paths = \<lparr>os_Open = (\<lambda>_. Inl NotExist), os_Lstat_path = (\<lambda>p. if p = ''/'' then Inr () else Inl NotExist),
     EvalSymlinks = (\<lambda>p. if p = ''/'' then Inr ''/'' else Inl NotExist)\<rparr>"

definition demo_config :: Config where
  "demo_config = \<lparr>Listen = '':9'', StateDir = ''/s'', ScanInterval = 5 * 10 ^ 9,
     CPeers = [(''a'', \<lparr>PName = ''a'', PAddress = ''h:1'', PDeviceID = replicate 64 (CHR ''a'')\<rparr>),
               (''b'', \<lparr>PName = ''b'', PAddress = ''h:2'', PDeviceID = replicate 64 (CHR ''b'')\<rparr>)],
     CFolders = [(''f'', \<lparr>FID = ''f'', FPath = ''/r'', FSource = ''local'', FPeers = [''a'']\<rparr>)]\<rparr>"

lemma demo_symlinks: "symlinks_sound demo_paths"
  by (auto simp: symlinks_sound_def demo_paths_def abs_path_def intro!: exI [of _ "[]"])

lemma demo_valid_config: "Validate demo_paths demo_config = Inr ()"
  by code_simp

theorem roots_never_overlap_witness:
  "\<exists>ps qs. root_path demo_paths ''/s'' = Some (abs_path ps) \<and> root_path demo_paths ''/r'' = Some (abs_path qs)
    \<and> list_all plain ps \<and> list_all plain qs \<and> \<not> prefix ps qs \<and> \<not> prefix qs ps"
  using roots_never_overlap [OF demo_symlinks demo_valid_config refl, of 0 1] by (simp add: demo_config_def)

theorem Validate_any_order_witness:
  "Validate demo_paths (demo_config\<lparr>CPeers := rev (CPeers demo_config), CFolders := CFolders demo_config\<rparr>) = Inr ()"
  using Validate_any_order [of demo_config "rev (CPeers demo_config)" "CFolders demo_config" demo_paths] demo_valid_config by simp

end
