(* ===== verification/Applying.thy ===== *)
theory Applying
  imports Install Demo
begin

text \<open>
  The theorems on \<open>Apply\<close> in terms of the files a folder shows and the rows of the index: nothing but
  the destination changes, it changes to the whole announced file or not at all, and neither an
  edit nor a deletion made on this machine is overwritten.
\<close>

section \<open>From file systems to contents\<close>

lemma untouched_any_content: "untouched s r s' \<Longrightarrow> \<not> scratch r r' p \<Longrightarrow> content s' r' p = content s r' p"
  by (auto simp: untouched_def same_except_content)

lemma untouched_content:
  "untouched s r s' \<Longrightarrow> validPath name = Inr () \<Longrightarrow> content s' r' (components name) = content s r' (components name)"
  by (simp add: untouched_any_content scratch_valid)

lemma placed_any_content:
  assumes "placed s r e s'" "\<not> scratch_or r (components (EPath e)) r' p"
  shows "content s' r' p = content s r' p"
  using assms by (auto simp: placed_def intro: same_except_content)

lemma placed_content:
  assumes "placed s r e s'" "validPath name = Inr ()" "validPath (EPath e) = Inr ()" "r' \<noteq> r \<or> name \<noteq> EPath e"
  shows "content s' r' (components name) = content s r' (components name)"
proof (rule placed_any_content [OF assms(1)])
  show "\<not> scratch_or r (components (EPath e)) r' (components name)"
    using assms scratch_valid components_inject by (auto simp: scratch_or_def)
qed

lemma Apply_invalid:
  "ValidateEntry e = Inl err \<Longrightarrow> Apply folder root e fetch w = (Inl err, w\<lparr>stats := zero_stats\<rparr>)"
  by (simp add: Apply_def run_bind set_stats_def run_lift_sum)

lemma Apply_outcome:
  assumes "fetch_steady fetch" "calm w" "fs_wf (wfs w)" "mounts (wfs w) root = Some r"
    "Apply folder root e fetch w = (res, w')"
  shows "untouched (wfs w) r (wfs w') \<or>
      placed (wfs w) r e (wfs w') \<and> approved folder r e (wdb w) (wfs w) \<and> valid_entry e"
    and "res = Inr u \<Longrightarrow> EKind e \<noteq> ''directory'' \<Longrightarrow> installed r e (wfs w')"
proof -
  have w: "at_state (wfs w) (wdb w) w" using assms(2) by (simp add: at_state_def)
  note ap = Apply_wp [OF assms(1) w assms(3,4), of folder e]
  have "outcome folder r e (wdb w) (wfs w) w'"
    using ap assms(5) by (cases res) (auto simp: wp_def apply_post_def)
  moreover have "valid_entry e \<or> wfs w' = wfs w"
    using Apply_invalid [of e _ folder root fetch w] assms(5)
    by (cases "ValidateEntry e") (auto simp: valid_entry_def)
  ultimately show "untouched (wfs w) r (wfs w') \<or>
      placed (wfs w) r e (wfs w') \<and> approved folder r e (wdb w) (wfs w) \<and> valid_entry e"
    using assms(3) by (auto simp: outcome_def untouched_def)
  show "res = Inr u \<Longrightarrow> EKind e \<noteq> ''directory'' \<Longrightarrow> installed r e (wfs w')"
    using ap assms(5) by (auto simp: wp_def apply_post_def)
qed

lemma valid_entry_path: "valid_entry e \<Longrightarrow> validPath (EPath e) = Inr ()"
  by (auto simp: valid_entry_def ValidateEntry_def split: sum.splits)

lemma installed_content:
  "installed r e s \<Longrightarrow> \<exists>c. content s r (components (EPath e)) = Some c \<and> entry_of (EPath e) (EMode e) c = e"
  by (auto simp: installed_def content_def)

lemma demo_fetch: "fetch_steady None"
  by (simp add: fetch_steady_def)

text \<open>Other files.\<close>

text \<open>C4. Apply changes no file but the one the entry names: on an otherwise idle machine, whatever
  calls fail and whatever a fetcher that leaves the disk alone returns, every other path of the
  folder that does not pass through a reserved temporary name, the marker included, and every path
  of every other folder show the same bytes afterwards.\<close>

theorem Apply_others_kept:
  assumes "fetch_steady fetch" "calm w" "fs_wf (wfs w)" "mounts (wfs w) root = Some r"
    "r' \<noteq> r \<or> q \<noteq> components (EPath e) \<and> \<not> list_ex (\<lambda>p. has_prefix p tempPrefix) q"
  shows "content (wfs (snd (Apply folder root e fetch w))) r' q = content (wfs w) r' q"
proof -
  obtain res w' where ap: "Apply folder root e fetch w = (res, w')" by fastforce
  have "\<not> scratch r r' q" "\<not> scratch_or r (components (EPath e)) r' q"
    using assms(5) by (auto simp: scratch_def scratch_or_def)
  with Apply_outcome(1) [OF assms(1-4) ap] show ?thesis
    using untouched_any_content placed_any_content ap by auto
qed

theorem Apply_others_kept_witness:
  "content (wfs (snd (Apply ''f'' ''/r'' (entry_of ''b'' 420 ''new'') None demo_world))) 0 [markerName]
     = content (wfs demo_world) 0 [markerName]"
  by (rule Apply_others_kept [OF demo_fetch demo_calm(1) demo_wf demo_calm(3)])
     (simp add: entry_of_def demo_valid components_valid markerName_def tempPrefix_def has_prefix_def)

text \<open>The destination.\<close>

text \<open>C3. After Apply, whichever system call failed and wherever the context was cancelled, the
  destination holds its previous bytes or the complete bytes of the announced file, never a part.\<close>

theorem Apply_all_or_nothing:
  assumes "fetch_steady fetch" "calm w" "fs_wf (wfs w)" "mounts (wfs w) root = Some r" "valid_entry e"
  shows "content (wfs (snd (Apply folder root e fetch w))) r (components (EPath e))
         = content (wfs w) r (components (EPath e))
     \<or> (\<exists>c. content (wfs (snd (Apply folder root e fetch w))) r (components (EPath e)) = Some c
            \<and> entry_of (EPath e) (EMode e) c = e)"
proof -
  obtain res w' where ap: "Apply folder root e fetch w = (res, w')" by fastforce
  from Apply_outcome(1) [OF assms(1-4) ap] show ?thesis
    using untouched_content valid_entry_path [OF assms(5)] installed_content ap
    by (auto simp: placed_def)
qed

theorem Apply_all_or_nothing_witness:
  "content (wfs (snd (Apply ''f'' ''/r'' (entry_of ''b'' 420 ''new'') None demo_world))) 0 (components ''b'') = None
     \<or> (\<exists>c. content (wfs (snd (Apply ''f'' ''/r'' (entry_of ''b'' 420 ''new'') None demo_world))) 0 (components ''b'') = Some c
            \<and> entry_of ''b'' 420 c = entry_of ''b'' 420 ''new'')"
proof -
  have "valid_entry (entry_of ''b'' 420 ''new'')"
    unfolding valid_entry_def by (rule ValidateEntry_entry_of) (simp_all add: demo_valid MaxFileSize_def)
  from Apply_all_or_nothing [OF demo_fetch demo_calm(1) demo_wf demo_calm(3) this, of "''f''"]
  show ?thesis by (simp add: demo_content entry_of_def)
qed

text \<open>C5. Apply that returns an error leaves the index as it was; Apply that returns success has indexed
  the entry, and for a file the destination holds bytes whose metadata are exactly that entry.\<close>

theorem Apply_installs:
  assumes "fetch_steady fetch" "calm w" "fs_wf (wfs w)" "mounts (wfs w) root = Some r"
  shows "case Apply folder root e fetch w of
      (Inl err, w') \<Rightarrow> wdb w' = wdb w
    | (Inr u, w') \<Rightarrow> select_manifest (wdb w') folder (EPath e) = Some (json_Marshal e)
        \<and> (EKind e = ''directory'' \<or> installed r e (wfs w'))"
proof -
  have st: "stores folder e (Apply folder root e fetch)"
    by (rule stores_Apply) (use assms(1) in \<open>auto simp: fetch_steady_def\<close>)
  obtain res w' where ap: "Apply folder root e fetch w = (res, w')" by fastforce
  show ?thesis
  proof (cases res)
    case (Inl err)
    with ap commits_Inl [OF st] show ?thesis by simp
  next
    case (Inr u)
    with ap commits_Inr [OF st, of w u w'] select_upsert_row [of folder "EPath e" "json_Marshal e" "wdb w" "wdb w'"]
      Apply_outcome(2) [OF assms ap] show ?thesis by auto
  qed
qed

theorem Apply_installs_witness:
  "case Apply ''f'' ''/r'' (entry_of ''b'' 420 ''new'') None demo_world of
      (Inl err, w') \<Rightarrow> wdb w' = wdb demo_world
    | (Inr u, w') \<Rightarrow> select_manifest (wdb w') ''f'' (EPath (entry_of ''b'' 420 ''new'')) = Some (json_Marshal (entry_of ''b'' 420 ''new''))
        \<and> (EKind (entry_of ''b'' 420 ''new'') = ''directory'' \<or> installed 0 (entry_of ''b'' 420 ''new'') (wfs w'))"
  by (rule Apply_installs [OF demo_fetch demo_calm(1) demo_wf demo_calm(3)])

text \<open>C1. If the file an entry names was edited on this machine (its bytes are neither the announced
  ones nor those the index records), Apply on an otherwise idle folder, whatever calls fail, returns
  an error and the file keeps its bytes.\<close>

theorem Apply_keeps_local_edits:
  assumes "fetch_steady fetch" "calm w" "fs_wf (wfs w)" "mounts (wfs w) root = Some r"
    and old: "content (wfs w) r (components (EPath e)) = Some old" "hashBytes old \<noteq> EHash e"
    and index: "\<And>raw ix. select_manifest (wdb w) folder (EPath e) = Some raw \<Longrightarrow>
        json_Unmarshal raw = Some ix \<Longrightarrow> EHash ix \<noteq> hashBytes old"
    and "EKind e = ''file''" "valid_entry e"
  shows "content (wfs (snd (Apply folder root e fetch w))) r (components (EPath e)) = Some old
     \<and> (\<exists>err. fst (Apply folder root e fetch w) = Inl err)"
proof -
  obtain res w' where ap: "Apply folder root e fetch w = (res, w')" by fastforce
  note oc = Apply_outcome [OF assms(1-4) ap]
  obtain i where i: "lookup_node (trees (wfs w) r) (components (EPath e)) = Inr (File i)" "idata (inodes (wfs w) i) = old"
    using content_lookup [OF old(1)] by blast
  have "\<not> approved folder r e (wdb w) (wfs w)"
    using index i by (auto simp: approved_def split: option.splits)
  then have un: "untouched (wfs w) r (wfs w')" using oc(1) by blast
  then have c: "content (wfs w') r (components (EPath e)) = Some old"
    using untouched_content valid_entry_path [OF assms(9)] old(1) by simp
  moreover have "\<exists>err. res = Inl err"
  proof (cases res)
    case (Inr u)
    with oc(2) assms(8) have "installed r e (wfs w')" by simp
    from installed_content [OF this] c old(2) show ?thesis
      by (auto simp: entry_of_def) (metis Entry.select_convs(5))
  qed simp
  ultimately show ?thesis using ap by simp
qed

theorem Apply_keeps_local_edits_witness:
  "content (wfs (snd (Apply ''f'' ''/r'' (demo_remote ''a'') None demo_world))) 0 (components ''a'') = Some ''old''
     \<and> (\<exists>err. fst (Apply ''f'' ''/r'' (demo_remote ''a'') None demo_world) = Inl err)"
  using Apply_keeps_local_edits [OF demo_fetch demo_calm(1) demo_wf demo_calm(3), of "demo_remote ''a''" "''old''" "''f''"]
  by (simp add: demo_remote_fields demo_content demo_remote_valid demo_valid(1) demo_remote_hash)
     (simp add: demo_world_def empty_database_def select_manifest_def)

text \<open>C2. If an indexed file is gone from the disk, its deletion counts as a local edit: Apply of a file
  entry of that name returns an error and does not restore it.\<close>

theorem Apply_keeps_deletions:
  assumes "fetch_steady fetch" "calm w" "fs_wf (wfs w)" "mounts (wfs w) root = Some r"
    and "content (wfs w) r (components (EPath e)) = None"
    and "select_manifest (wdb w) folder (EPath e) = Some raw" "EKind e = ''file''" "valid_entry e"
  shows "content (wfs (snd (Apply folder root e fetch w))) r (components (EPath e)) = None
     \<and> (\<exists>err. fst (Apply folder root e fetch w) = Inl err)"
proof -
  obtain res w' where ap: "Apply folder root e fetch w = (res, w')" by fastforce
  note oc = Apply_outcome [OF assms(1-4) ap]
  have "\<not> approved folder r e (wdb w) (wfs w)"
    using assms(5,6) by (auto simp: approved_def content_def file_ino_def split: sum.splits node.splits)
  then have un: "untouched (wfs w) r (wfs w')" using oc(1) by blast
  then have c: "content (wfs w') r (components (EPath e)) = None"
    using untouched_content valid_entry_path [OF assms(8)] assms(5) by simp
  moreover have "\<exists>err. res = Inl err"
  proof (cases res)
    case (Inr u)
    with oc(2) assms(7) have "installed r e (wfs w')" by simp
    from installed_content [OF this] c show ?thesis by simp
  qed simp
  ultimately show ?thesis using ap by simp
qed

theorem Apply_keeps_deletions_witness:
  "content (wfs (snd (Apply ''f'' ''/r'' (demo_remote ''b'') None demo_indexed))) 0 (components ''b'') = None
     \<and> (\<exists>err. fst (Apply ''f'' ''/r'' (demo_remote ''b'') None demo_indexed) = Inl err)"
proof -
  have fs: "wfs demo_indexed = wfs demo_world" by (simp add: demo_indexed_def)
  have "calm demo_indexed" using demo_calm(1) by (simp add: demo_indexed_def)
  with Apply_keeps_deletions [OF demo_fetch _ _ _, of demo_indexed "''/r''" 0 "demo_remote ''b''" "''f''" "''?''"]
  show ?thesis
    by (simp add: demo_remote_fields demo_content demo_remote_valid demo_valid(2) demo_wf demo_calm(3) fs)
       (simp add: demo_indexed_def select_manifest_def)
qed

end
