(* ===== verification/Shapes.thy ===== *)
theory Shapes
  imports Applying
begin

text \<open>
  What a tree looks like at a path, without the contents of its directories, and steps that leave
  everything outside a set of paths as it looks.
\<close>

section \<open>Shapes\<close>

definition node_shape :: "node \<Rightarrow> node" where
  "node_shape n = (case n of Dir m es \<Rightarrow> Dir 0 [] | _ \<Rightarrow> n)"

definition shape :: "node \<Rightarrow> string list \<Rightarrow> error + node" where
  "shape t p = map_sum (\<lambda>e. e) node_shape (lookup_node t p)"

lemma shape_Inl [simp]: "shape t p = Inl e \<longleftrightarrow> lookup_node t p = Inl e"
  by (cases "lookup_node t p") (simp_all add: shape_def)

lemma shape_Dir [simp]: "shape t p = Inr (Dir 0 []) \<longleftrightarrow> is_dir_at t p"
  by (auto simp: shape_def is_dir_at_def node_shape_def split: node.splits sum.splits)

lemma shape_File [simp]: "shape t p = Inr (File i) \<longleftrightarrow> lookup_node t p = Inr (File i)"
  by (cases "lookup_node t p") (auto simp: shape_def node_shape_def split: node.splits)

lemma shape_file_ino: "shape t' p = shape t p \<Longrightarrow> file_ino t' p = file_ino t p"
  by (auto simp: shape_def file_ino_def node_shape_def split: node.splits sum.splits)

lemma shape_is_dir: "shape t' p = shape t p \<Longrightarrow> is_dir_at t' p = is_dir_at t p"
  by (metis shape_Dir)

lemma shape_lookup_Inl: "shape t' p = shape t p \<Longrightarrow> lookup_node t p = Inl e \<Longrightarrow> lookup_node t' p = Inl e"
  by (metis shape_Inl)

lemma shape_update_other: "take (length p) q \<noteq> p \<Longrightarrow> shape (update_node t p x) q = shape t q"
  using lookup_update_other [of p q t x]
  by (auto simp: shape_def simp flip: shape_Dir)

text \<open>The paths at or below one.\<close>

definition below :: "string list \<Rightarrow> string list \<Rightarrow> bool" where
  "below p q \<longleftrightarrow> take (length p) q = p"

lemma below_iff: "below p q \<longleftrightarrow> (\<exists>z. q = p @ z)"
  unfolding below_def by (metis append_take_drop_id append_eq_conv_conj)

lemma below_refl [simp]: "below p p"
  by (simp add: below_def)

lemma not_below_butlast: "p \<noteq> [] \<Longrightarrow> \<not> below p (butlast p)"
proof
  assume "p \<noteq> []" "below p (butlast p)"
  then have "length p \<le> length (butlast p)" by (metis below_iff length_append le_add1)
  moreover have "0 < length p" using \<open>p \<noteq> []\<close> by simp
  ultimately show False by (simp only: length_butlast)
qed

text \<open>Nothing is below a name that is free in its directory.\<close>

lemma free_below:
  assumes "is_dir_at t (butlast p)" "lookup_node t p = Inl NotExist" "p \<noteq> []" "below p q"
  shows "lookup_node t q = Inl NotExist"
  using assms by (auto simp: below_iff lookup_node_append)

lemma update_below:
  assumes "is_dir_at t (butlast p)" "p \<noteq> []"
  shows "lookup_node (update_node t p x) (p @ z) = (case x of None \<Rightarrow> Inl NotExist | Some n \<Rightarrow> lookup_node n z)"
  using lookup_update_below [OF assms(1), of "last p" x z] assms(2)
  by (metis append.assoc append_Cons append_Nil append_butlast_last_id)

section \<open>What stays as it looks\<close>

definition kept :: "(string list \<Rightarrow> bool) \<Rightarrow> nat \<Rightarrow> fsys \<Rightarrow> fsys \<Rightarrow> bool" where
  "kept X r s s' \<longleftrightarrow> mounts s' = mounts s \<and> next_inode s \<le> next_inode s'
     \<and> (\<forall>j < next_inode s. inodes s' j = inodes s j)
     \<and> (\<forall>q. \<not> X q \<longrightarrow> shape (trees s' r) q = shape (trees s r) q)"

lemma kept_refl [simp]: "kept X r s s"
  by (simp add: kept_def)

lemma kept_trans: "kept X r s t \<Longrightarrow> kept Y r t u \<Longrightarrow> kept (\<lambda>q. X q \<or> Y q) r s u"
  by (auto simp: kept_def)

lemma kept_inode: "kept X r s s' \<Longrightarrow> next_inode s \<le> i \<Longrightarrow> kept X r s (set_inode i x s')"
  by (auto simp: kept_def set_inode_def)

lemma kept_clock: "kept X r s s' \<Longrightarrow> kept X r s (s'\<lparr>clock := k\<rparr>)"
  by (simp add: kept_def)

lemma kept_tree:
  "kept X r s s' \<Longrightarrow> (\<And>q. \<not> X q \<Longrightarrow> shape t q = shape (trees s' r) q) \<Longrightarrow> kept X r s (set_tree r t s')"
  by (simp add: kept_def set_tree_def)

lemma kept_content:
  assumes "kept X r s s'" "fs_wf s" "\<not> X q"
  shows "content s' r q = content s r q"
proof -
  have f: "file_ino (trees s' r) q = file_ino (trees s r) q"
    using assms(1,3) by (intro shape_file_ino) (simp add: kept_def)
  show ?thesis
  proof (cases "file_ino (trees s r) q")
    case (Some i)
    then have "i < next_inode s" using file_ino_bound [OF assms(2)] by blast
    with Some f assms(1) show ?thesis by (simp add: content_def kept_def)
  qed (simp add: content_def f)
qed

lemma kept_dir: "kept X r s s' \<Longrightarrow> \<not> X q \<Longrightarrow> is_dir_at (trees s' r) q = is_dir_at (trees s r) q"
  by (intro shape_is_dir) (simp add: kept_def)

lemma kept_free: "kept X r s s' \<Longrightarrow> \<not> X q \<Longrightarrow> lookup_node (trees s r) q = Inl e \<Longrightarrow> lookup_node (trees s' r) q = Inl e"
  by (rule shape_lookup_Inl [where t = "trees s r"]) (simp_all add: kept_def)

end
