(* ===== verification/Download.thy ===== *)
theory Download
  imports Shapes
begin

text \<open>
  \<open>Apply\<close> does its job: in a quiet machine, a valid file that is missing here, not indexed and within
  the folder's budget is downloaded, and the folder then shows its bytes. Each step of the run is
  shown to succeed; \<open>writing\<close> describes the world during the download.
\<close>

section \<open>Runs that succeed\<close>

definition succeeds :: "('s, 'a) io \<Rightarrow> ('a \<Rightarrow> 's \<Rightarrow> bool) \<Rightarrow> 's \<Rightarrow> bool" where
  "succeeds m Q w \<longleftrightarrow> (case m w of (Inl e, w') \<Rightarrow> False | (Inr x, w') \<Rightarrow> Q x w')"

lemma succeedsI: "m w = (Inr x, w') \<Longrightarrow> Q x w' \<Longrightarrow> succeeds m Q w"
  by (simp add: succeeds_def)

lemma succeeds_bind: "succeeds m (\<lambda>x. succeeds (f x) Q) w \<Longrightarrow> succeeds (bind m f) Q w"
  by (auto simp: succeeds_def bind_def split: prod.splits sum.splits)

lemma succeeds_step: "m w = (Inr x, w1) \<Longrightarrow> succeeds (f x) Q w1 \<Longrightarrow> succeeds (bind m f) Q w"
  by (simp add: succeeds_def bind_def)

lemma succeeds_mono: "succeeds m P w \<Longrightarrow> (\<And>x w'. P x w' \<Longrightarrow> Q x w') \<Longrightarrow> succeeds m Q w"
  by (auto simp: succeeds_def split: prod.splits sum.splits)

lemma succeeds_deferring:
  "succeeds m (\<lambda>x w1. Q x (snd (c w1))) w \<Longrightarrow> succeeds (deferring c m) Q w"
  by (auto simp: succeeds_def deferring_def split: prod.splits sum.splits)

lemma sys_Inr_quiet: "quiet w \<Longrightarrow> f (wfs w) = (Inr x, s) \<Longrightarrow> sys f w = (Inr x, w\<lparr>wfs := s\<rparr>)"
  by (simp add: sys_quiet)

lemma sys_read_quiet: "quiet w \<Longrightarrow> f (wfs w) = (Inr x, wfs w) \<Longrightarrow> sys f w = (Inr x, w)"
  by (simp add: sys_quiet)

section \<open>A folder that lacks one file\<close>

text \<open>The folder \<open>r\<close> is where it should be, its marker is right, nothing is at \<open>p\<close> and \<open>p\<close>'s parent is
  a directory.\<close>

definition lacking :: "string \<Rightarrow> string \<Rightarrow> nat \<Rightarrow> string list \<Rightarrow> fsys \<Rightarrow> bool" where
  "lacking root folder r p s \<longleftrightarrow>
     mounts s root = Some r \<and> content s r [markerName] = Some (folder @ [CHR 0x0A]) \<and> length folder \<le> 256
     \<and> is_dir_at (trees s r) (butlast p) \<and> lookup_node (trees s r) p = Inl NotExist"

lemma is_dir_at_prefix: "is_dir_at t (p @ q) \<Longrightarrow> is_dir_at t p"
  by (cases q) (auto simp: is_dir_at_def split: sum.splits dest: lookup_node_parent_dir [unfolded is_dir_at_def])

lemma dir_lookup: "is_dir_at t p \<Longrightarrow> \<exists>m es. lookup_node t p = Inr (Dir m es)"
  by (auto simp: is_dir_at_def split: sum.splits node.splits)

lemma checkMarker_quiet:
  assumes "quiet w" "content (wfs w) r [markerName] = Some (folder @ [CHR 0x0A])" "length folder \<le> 256"
  shows "checkMarker r folder w = (Inr (), w)"
proof -
  obtain i where i: "lookup_node (trees (wfs w) r) [markerName] = Inr (File i)"
    "idata (inodes (wfs w) i) = folder @ [CHR 0x0A]"
    using content_lookup [OF assms(2)] by blast
  then show ?thesis
    using assms(1,3)
    by (simp add: checkMarker_def run_simps sys_quiet fs_lstat_def fs_open_def fs_read_limited_def
        node_info_def ino_info_def)
qed

lemma check_parts_dirs:
  "quiet w \<Longrightarrow> is_dir_at (trees (wfs w) r) (pre @ ps) \<Longrightarrow> check_parts r name miss pre ps w = (Inr (), w)"
proof (induction ps arbitrary: pre)
  case (Cons p ps)
  have "is_dir_at (trees (wfs w) r) ((pre @ [p]) @ ps)" using Cons.prems(2) by simp
  from is_dir_at_prefix [OF this] obtain m es where
    "lookup_node (trees (wfs w) r) (pre @ [p]) = Inr (Dir m es)" using dir_lookup by blast
  with Cons show ?case
    by (simp add: run_simps sys_quiet fs_lstat_def node_info_def plain_info_def)
qed simp

lemma check_parts_missing:
  "quiet w \<Longrightarrow> ps \<noteq> [] \<Longrightarrow> is_dir_at (trees (wfs w) r) (pre @ butlast ps) \<Longrightarrow>
     lookup_node (trees (wfs w) r) (pre @ ps) = Inl NotExist \<Longrightarrow>
     check_parts r name True pre ps w = (Inr (), w)"
proof (induction ps arbitrary: pre)
  case (Cons p ps)
  show ?case
  proof (cases "ps = []")
    case True
    with Cons.prems show ?thesis by (simp add: run_simps sys_quiet fs_lstat_def)
  next
    case False
    have "is_dir_at (trees (wfs w) r) ((pre @ [p]) @ butlast ps)" using Cons.prems(3) False by simp
    from is_dir_at_prefix [OF this] obtain m es where
      "lookup_node (trees (wfs w) r) (pre @ [p]) = Inr (Dir m es)" using dir_lookup by blast
    with Cons False show ?thesis
      by (simp add: run_simps sys_quiet fs_lstat_def node_info_def plain_info_def)
  qed
qed simp

lemma lacking_dir: "lacking root folder r p s \<Longrightarrow> \<exists>m es. trees s r = Dir m es"
  using is_dir_at_prefix [of "trees s r" "[]" "butlast p"] dir_lookup [of "trees s r" "[]"]
  by (auto simp: lacking_def)

lemma openFolder_quiet:
  "quiet w \<Longrightarrow> lacking root folder r p (wfs w) \<Longrightarrow> openFolder root folder w = (Inr r, w)"
  and CheckFolder_quiet:
  "quiet w \<Longrightarrow> lacking root folder r p (wfs w) \<Longrightarrow> CheckFolder root folder w = (Inr (), w)"
  using lacking_dir [of root folder r p "wfs w"] checkMarker_quiet [of w r folder]
  by (auto simp: openFolder_def CheckFolder_def run_simps sys_quiet fs_open_root_def lacking_def)

lemma checkComponents_quiet:
  assumes "quiet w" "lacking root folder r (components name) (wfs w)" "validPath name = Inr ()"
  shows "checkComponents r name True w = (Inr (), w)"
  using assms check_parts_missing [of w "components name" r "[]" name]
  by (simp add: checkComponents_def run_simps lacking_def components_valid)

lemma lstat_quiet:
  "quiet w \<Longrightarrow> lacking root folder r p (wfs w) \<Longrightarrow> Root_Lstat r p w = (Inl NotExist, w)"
  by (simp add: sys_quiet fs_lstat_def lacking_def)

text \<open>The parent of a valid name.\<close>

definition parent_ok :: "string \<Rightarrow> bool" where
  "parent_ok name \<longleftrightarrow> path_Dir name = ''.'' \<or> validPath (path_Dir name) = Inr ()"

lemma components_path_Dir:
  assumes "validPath name = Inr ()"
  shows "components (path_Dir name) = butlast (components name)"
proof -
  define ps where "ps = split_on slash name"
  have parts: "slash \<notin> set p" "p \<noteq> ''.''" if "p \<in> set (butlast ps)" for p
    using validPath_parts [OF assms, of p] in_set_butlastD [OF that] by (auto simp: ps_def)
  show ?thesis
  proof (cases "length ps \<le> 1")
    case True
    then have "butlast ps = []" by (cases ps) auto
    with True assms show ?thesis by (simp add: path_Dir_def ps_def components_valid components_def)
  next
    case False
    then have ne: "butlast ps \<noteq> []" by (cases ps) auto
    then have sp: "split_on slash (join_with slash (butlast ps)) = butlast ps"
      using parts(1) by (intro split_join) auto
    have "join_with slash (butlast ps) \<noteq> ''.''"
    proof
      assume "join_with slash (butlast ps) = ''.''"
      with sp have "butlast ps = [''.'']" by simp
      then show False using parts(2) [of "''.''"] by simp
    qed
    with False sp assms show ?thesis
      by (simp add: path_Dir_def Let_def components_def components_valid flip: ps_def)
        (simp add: ps_def components_valid)
  qed
qed

lemma ensureParents_quiet:
  assumes "quiet w" "lacking root folder r (components name) (wfs w)" "validPath name = Inr ()" "parent_ok name"
  shows "ensureParents r name w = (Inr (), w)"
proof (cases "path_Dir name = ''.''")
  case False
  then have v: "validPath (path_Dir name) = Inr ()" using assms(4) by (simp add: parent_ok_def)
  have d: "is_dir_at (trees (wfs w) r) (components (path_Dir name))"
    using assms(2,3) by (simp add: lacking_def components_path_Dir)
  show ?thesis
    using check_parts_dirs [OF assms(1), of r "[]" "components (path_Dir name)" "path_Dir name" True] d v False
      mkdir_all_existing [of "wfs w" r "[]" "components (path_Dir name)" 448] assms(1)
    by (simp add: ensureParents_def checkComponents_def run_simps components_valid sys_quiet Let_def)
qed (simp add: ensureParents_def)

lemma syncDir_quiet:
  assumes "quiet w" "is_dir_at (trees (wfs w) r) (components name)"
  shows "syncDir r name w = (Inr (), w)"
  using dir_lookup [OF assms(2)] assms(1)
  by (auto simp: syncDir_def run_simps sys_quiet fs_open_def fs_sync_def)


section \<open>The download in a quiet machine\<close>

text \<open>
  \<open>writing root folder r name tmp i w0 J full w\<close>: since \<open>w0\<close> the temporary file \<open>tmp\<close> was made with the new
  inode \<open>i\<close>; it holds \<open>full\<close>, the connection satisfies \<open>J\<close>, and the rest is as it was.
\<close>

definition writing ::
  "string \<Rightarrow> string \<Rightarrow> nat \<Rightarrow> string \<Rightarrow> string list \<Rightarrow> nat \<Rightarrow> world \<Rightarrow> (wire \<Rightarrow> bool) \<Rightarrow> bytes \<Rightarrow> world \<Rightarrow> bool" where
  "writing root folder r name tmp i w0 J full w \<longleftrightarrow>
     quiet w \<and> wdb w = wdb w0 \<and> nonces w = nonces w0 \<and> J (conn w) \<and> lacking root folder r (components name) (wfs w)
     \<and> lookup_node (trees (wfs w) r) tmp = Inr (File i) \<and> idata (inodes (wfs w) i) = full
     \<and> file_ino (trees (wfs w) r) [markerName] \<noteq> Some i \<and> next_inode (wfs w0) \<le> i \<and> kept (below tmp) r (wfs w0) (wfs w)"

lemma lacking_same_trees:
  assumes "lacking root folder r p s" "trees s' = trees s" "mounts s' = mounts s"
    "\<And>j. j \<noteq> i \<Longrightarrow> idata (inodes s' j) = idata (inodes s j)" "file_ino (trees s r) [markerName] \<noteq> Some i"
  shows "lacking root folder r p s'"
  using assms by (auto simp: lacking_def content_def)

text \<open>Changes of the temporary file.\<close>

lemma writing_inode:
  assumes "writing root folder r name tmp i w0 J full w"
  shows "writing root folder r name tmp i w0 J (idata x) (w\<lparr>wfs := (set_inode i x (wfs w))\<lparr>clock := k\<rparr>\<rparr>)"
proof -
  have "lacking root folder r (components name) ((set_inode i x (wfs w))\<lparr>clock := k\<rparr>)"
    by (rule lacking_same_trees [where s = "wfs w" and i = i]) (use assms in \<open>auto simp: writing_def set_inode_def\<close>)
  moreover have "kept (below tmp) r (wfs w0) ((set_inode i x (wfs w))\<lparr>clock := k\<rparr>)"
    using assms by (intro kept_clock kept_inode) (auto simp: writing_def)
  ultimately show ?thesis using assms by (simp add: writing_def) (simp add: set_inode_def)
qed

lemma write_quiet:
  assumes "writing root folder r name tmp i w0 J full w"
  shows "succeeds (File_Write (HFile i) (length full) new)
    (\<lambda>_. writing root folder r name tmp i w0 J (full @ new)) w"
proof (rule succeedsI [OF sys_Inr_quiet])
  let ?x = "(inodes (wfs w) i)\<lparr>idata := overwrite (length full) new (idata (inodes (wfs w) i)), imtime := clock (wfs w)\<rparr>"
  show "quiet w" using assms by (simp add: writing_def)
  show "fs_write (HFile i) (length full) new (wfs w) = (Inr (), (set_inode i ?x (wfs w))\<lparr>clock := Suc (clock (wfs w))\<rparr>)"
    by (simp add: fs_write_def)
  have "idata ?x = full @ new" using assms by (simp add: writing_def overwrite_end)
  with writing_inode [OF assms, of ?x "Suc (clock (wfs w))"]
  show "writing root folder r name tmp i w0 J (full @ new) (w\<lparr>wfs := (set_inode i ?x (wfs w))\<lparr>clock := Suc (clock (wfs w))\<rparr>\<rparr>)"
    by simp
qed

lemma chmod_quiet:
  assumes "writing root folder r name tmp i w0 J full w"
  shows "succeeds (File_Chmod (HFile i) m) (\<lambda>_. writing root folder r name tmp i w0 J full) w"
proof (rule succeedsI [OF sys_Inr_quiet])
  let ?x = "(inodes (wfs w) i)\<lparr>imode := m\<rparr>"
  show "quiet w" using assms by (simp add: writing_def)
  show "fs_chmod (HFile i) m (wfs w) = (Inr (), set_inode i ?x (wfs w))"
    by (simp add: fs_chmod_def)
  have "(set_inode i ?x (wfs w))\<lparr>clock := clock (wfs w)\<rparr> = set_inode i ?x (wfs w)" by (simp add: set_inode_def)
  with writing_inode [OF assms, of ?x "clock (wfs w)"] assms
  show "writing root folder r name tmp i w0 J full (w\<lparr>wfs := set_inode i ?x (wfs w)\<rparr>)"
    by (simp add: writing_def)
qed

text \<open>
  A fetcher that returns the right bytes. \<open>J bs\<close> says that the connection will bring the blocks \<open>bs\<close>.
\<close>

definition serves_on :: "(Block list \<Rightarrow> wire \<Rightarrow> bool) \<Rightarrow> FetchBlock option \<Rightarrow> Block list \<Rightarrow> (Block \<Rightarrow> bytes) \<Rightarrow> bool" where
  "serves_on J fetch bs d \<longleftrightarrow> (\<exists>f. fetch = Some f \<and>
     (\<forall>b \<in> set bs. piece_ok b (d b) \<and>
        (\<forall>rest w. quiet w \<longrightarrow> J (b # rest) (conn w) \<longrightarrow> (\<exists>c. f b w = (Inr (d b), w\<lparr>conn := c\<rparr>) \<and> J rest c))))"

definition serves :: "FetchBlock option \<Rightarrow> Block list \<Rightarrow> (Block \<Rightarrow> bytes) \<Rightarrow> bool" where
  "serves fetch bs d \<longleftrightarrow> (\<exists>f. fetch = Some f \<and>
     (\<forall>b \<in> set bs. piece_ok b (d b) \<and> (\<forall>w. quiet w \<longrightarrow> f b w = (Inr (d b), w))))"

lemma serves_serves_on: "serves fetch bs d \<Longrightarrow> serves_on (\<lambda>_ _. True) fetch bs d"
  unfolding serves_def serves_on_def by (metis surjective update_convs(7))

lemma writing_step:
  "writing root folder r name tmp i w0 J full w \<Longrightarrow> J' c \<Longrightarrow> writing root folder r name tmp i w0 J' full (w\<lparr>conn := c, stats := x\<rparr>)"
  by (simp add: writing_def)

lemma apply_blocks_quiet:
  assumes "serves_on J fetch bs data" "writing root folder r name tmp i w0 (J (bs @ ys)) full w"
  shows "succeeds (apply_blocks None (HFile i) fetch full bs)
    (\<lambda>full' w'. full' = full @ concat (map data bs) \<and> writing root folder r name tmp i w0 (J ys) full' w') w"
  using assms
proof (induction bs arbitrary: full w)
  case Nil
  then show ?case unfolding apply_blocks.simps by (intro succeedsI [OF run_return]) simp
next
  case (Cons b bs)
  have q: "quiet w" and j: "J (b # bs @ ys) (conn w)" using Cons.prems(2) by (simp_all add: writing_def)
  from Cons.prems(1) obtain f where f: "fetch = Some f" "piece_ok b (data b)"
    "\<forall>rest w. quiet w \<longrightarrow> J (b # rest) (conn w) \<longrightarrow> (\<exists>c. f b w = (Inr (data b), w\<lparr>conn := c\<rparr>) \<and> J rest c)"
    and rest: "serves_on J fetch bs data" by (auto simp: serves_on_def)
  from f(3) q j obtain c where c: "f b w = (Inr (data b), w\<lparr>conn := c\<rparr>)" "J (bs @ ys) c" by blast
  define w1 where "w1 = w\<lparr>conn := c, stats := (stats w)\<lparr>BytesReceived := BytesReceived (stats w) + int (length (data b))\<rparr>\<rparr>"
  have fb: "fetch_block fetch b w = (Inr (data b), w1)"
    using f(1,2) c by (simp add: fetch_block_def run_simps piece_ok_def set_stats_def w1_def)
  have w1: "writing root folder r name tmp i w0 (J (bs @ ys)) full w1"
    unfolding w1_def by (rule writing_step [where J' = "J (bs @ ys)", OF Cons.prems(2) c(2)])
  have ctx: "ctx_Err w = (Inr (), w)" using q by (simp add: ctx_Err_quiet)
  show ?case
    unfolding apply_blocks.simps
  proof (rule succeeds_step, rule ctx, rule succeeds_step)
    show "reuse_block None b w = (Inr None, w)" by (simp add: reuse_block_def)
    show "succeeds (bind (case None of None \<Rightarrow> fetch_block fetch b | Some d \<Rightarrow> return d)
       (\<lambda>data. bind (File_Write (HFile i) (length full) data)
          (\<lambda>_. apply_blocks None (HFile i) fetch (full @ data) bs)))
       (\<lambda>full' w'. full' = full @ concat (map data (b # bs)) \<and> writing root folder r name tmp i w0 (J ys) full' w') w"
      unfolding option.case
    proof (rule succeeds_step, rule fb, rule succeeds_bind, rule succeeds_mono [OF write_quiet [OF w1]])
      fix u w2 assume "writing root folder r name tmp i w0 (J (bs @ ys)) (full @ data b) w2"
      from Cons.IH [OF rest this]
      show "succeeds (apply_blocks None (HFile i) fetch (full @ data b) bs)
        (\<lambda>full' w'. full' = full @ concat (map data (b # bs)) \<and> writing root folder r name tmp i w0 (J ys) full' w') w2"
        by simp
    qed
  qed
qed

text \<open>The blocks of a file's bytes are served by cutting the bytes.\<close>

definition cut :: "bytes \<Rightarrow> Block \<Rightarrow> bytes" where
  "cut c b = take (nat (BSize b)) (drop (nat (BOffset b)) c)"

lemma cut_blocks_from:
  "c = pre @ data \<Longrightarrow> off = int (length pre) \<Longrightarrow>
     concat (map (cut c) (blocks_from off data)) = data \<and>
     (\<forall>b \<in> set (blocks_from off data). piece_ok b (cut c b))"
proof (induction off data arbitrary: pre rule: blocks_from_pieces_ind)
  case (2 off p rest)
  have c: "cut c \<lparr>BOffset = off, BSize = int (length p), BHash = hashBytes p\<rparr> = p"
    using 2(5,6) by (simp add: cut_def)
  with 2(4) [of "pre @ p"] 2 show ?case by (simp add: blocks_from_piece piece_ok_def)
qed simp


section \<open>The whole installation\<close>

lemma butlast_neq: "xs \<noteq> [] \<Longrightarrow> butlast xs \<noteq> xs"
  by (metis append_butlast_last_id append_self_conv list.distinct(1))

lemma lacking_parent:
  assumes "lacking root folder r p s"
  shows "\<exists>m es. lookup_node (trees s r) (butlast p) = Inr (Dir m es)"
  using assms dir_lookup [of "trees s r" "butlast p"] by (simp add: lacking_def)

text \<open>A temporary name and the name it stands for are in the same directory, neither below the other.\<close>

lemma temp_apart:
  fixes nonce :: bytes and name :: string
  assumes "validPath name = Inr ()"
  shows "components (temp_name name nonce) \<noteq> []" "butlast (components (temp_name name nonce)) = butlast (components name)"
    "\<not> below (components (temp_name name nonce)) (components name)" "\<not> below (components name) (components (temp_name name nonce))"
    "\<not> below (components (temp_name name nonce)) [markerName]"
proof -
  note t = components_temp_name [OF assms, of nonce]
  let ?p = "tempPrefix @ hex_encode nonce" and ?q = "components name"
  show "components (temp_name name nonce) \<noteq> []" "butlast (components (temp_name name nonce)) = butlast ?q" by (simp_all add: t)
  have ne: "?q \<noteq> []" by (rule components_nonempty [OF assms])
  show *: "\<not> below (components (temp_name name nonce)) ?q"
    using scratch_below [of 0 name nonce 0 ?q] scratch_valid [OF assms] assms by (auto simp: at_or_below_def below_def)
  show "\<not> below ?q (components (temp_name name nonce))"
  proof
    assume "below ?q (components (temp_name name nonce))"
    moreover have "length (components (temp_name name nonce)) = length ?q" using ne by (simp add: t)
    ultimately have "components (temp_name name nonce) = ?q" by (simp add: below_def)
    with * show False by simp
  qed
  have "\<not> scratch 0 0 [markerName]" by (simp add: scratch_def markerName_def tempPrefix_def has_prefix_def)
  then show "\<not> below (components (temp_name name nonce)) [markerName]"
    using scratch_below [of 0 name nonce 0 "[markerName]"] assms by (auto simp: at_or_below_def below_def)
qed

lemma lacking_nonempty: "lacking root folder r (components name) s \<Longrightarrow> components name \<noteq> []"
  by (auto simp: lacking_def)

text \<open>The folder still lacks the file when only other paths have changed.\<close>

lemma kept_lacking:
  assumes "kept X r s s'" "fs_wf s" "lacking root folder r p s" "\<not> X p" "\<not> X (butlast p)" "\<not> X [markerName]"
  shows "lacking root folder r p s'"
  using assms kept_content [OF assms(1,2,6)] kept_dir [OF assms(1,5)] kept_free [OF assms(1,4)]
  by (auto simp: lacking_def kept_def)

text \<open>Binding the temporary name keeps the folder as it was.\<close>

lemma create_quiet:
  fixes nonce :: bytes and name :: string
  assumes q: "quiet w" and lk: "lacking root folder r (components name) (wfs w)" and wf: "fs_wf (wfs w)"
    and valid: "validPath name = Inr ()" and j: "J (conn w)"
  defines "tmp \<equiv> components (temp_name name nonce)"
  assumes fresh: "lookup_node (trees (wfs w) r) tmp = Inl NotExist"
  shows "succeeds (Root_CreateExcl r tmp m) (\<lambda>h w1. h = HFile (next_inode (wfs w)) \<and>
     writing root folder r name tmp (next_inode (wfs w)) w J [] w1) w"
proof -
  let ?s = "wfs w" and ?i = "next_inode (wfs w)"
  note apart = temp_apart [OF valid, of nonce, folded tmp_def]
  obtain m' es where d: "lookup_node (trees ?s r) (butlast tmp) = Inr (Dir m' es)"
    using lacking_parent [OF lk] by (auto simp: apart)
  obtain h s' where cr: "fs_create_excl r tmp m ?s = (Inr h, s')"
    using d fresh by (auto simp: fs_create_excl_def fs_link_new_def parent_of_def Let_def)
  note c = create_excl_Inr [OF cr]
  have s': "s' = (set_inode ?i \<lparr>idata = [], imode = m AND NOT (umask ?s), imtime = clock ?s\<rparr>
      (set_tree r (update_node (trees ?s r) tmp (Some (File ?i))) ?s))\<lparr>next_inode := Suc ?i, clock := Suc (clock ?s)\<rparr>"
    using cr d fresh by (auto simp: fs_create_excl_def fs_link_new_def parent_of_def Let_def set_tree_def set_inode_def)
  have k: "kept (below tmp) r ?s s'"
    unfolding s' by (simp add: kept_def set_inode_def set_tree_def below_def shape_update_other)
  have lk': "lacking root folder r (components name) s'"
    by (rule kept_lacking [OF k wf lk]) (use apart not_below_butlast [of tmp] in auto)
  have "file_ino (trees s' r) [markerName] = file_ino (trees ?s r) [markerName]"
    using k apart(5) by (intro shape_file_ino) (simp add: kept_def)
  then have "file_ino (trees s' r) [markerName] \<noteq> Some ?i"
    using file_ino_bound [OF wf, of r "[markerName]" ?i] by auto
  with lk' c k have "writing root folder r name tmp ?i w J [] (w\<lparr>wfs := s'\<rparr>)"
    using q j by (simp add: writing_def)
  moreover have "Root_CreateExcl r tmp m w = (Inr h, w\<lparr>wfs := s'\<rparr>)"
    by (rule sys_Inr_quiet [OF q]) (rule cr)
  ultimately show ?thesis using c(1) by (simp add: succeeds_def)
qed

text \<open>The tail after the download: the file is in place and everything else is as before.\<close>

definition placed_file :: "nat \<Rightarrow> string \<Rightarrow> string list \<Rightarrow> world \<Rightarrow> (wire \<Rightarrow> bool) \<Rightarrow> bytes \<Rightarrow> world \<Rightarrow> bool" where
  "placed_file r name tmp w0 J full w \<longleftrightarrow>
     quiet w \<and> nonces w = nonces w0 \<and> J (conn w) \<and> content (wfs w) r (components name) = Some full
     \<and> lookup_node (trees (wfs w) r) tmp = Inl NotExist \<and> kept (below (components name)) r (wfs w0) (wfs w)"

lemma rename_quiet:
  fixes nonce :: bytes and name :: string
  defines "tmp \<equiv> components (temp_name name nonce)"
  assumes w: "writing root folder r name tmp i w0 J full w" and valid: "validPath name = Inr ()"
    and fresh: "lookup_node (trees (wfs w0) r) tmp = Inl NotExist"
  shows "succeeds (Root_Rename r tmp (components name))
    (\<lambda>_ w1. wdb w1 = wdb w0 \<and> placed_file r name tmp w0 J full w1 \<and> is_dir_at (trees (wfs w1) r) (butlast (components name))) w"
proof -
  let ?s = "wfs w" and ?q = "components name"
  note apart = temp_apart [OF valid, of nonce, folded tmp_def]
  have q: "quiet w" and lk: "lacking root folder r ?q ?s" and i: "lookup_node (trees ?s r) tmp = Inr (File i)"
    and k: "kept (below tmp) r (wfs w0) ?s"
    using w by (auto simp: writing_def)
  have ne: "tmp \<noteq> []" "?q \<noteq> []" "tmp \<noteq> ?q"
    using lacking_nonempty [OF lk] apart by auto
  obtain m es where d: "lookup_node (trees ?s r) (butlast ?q) = Inr (Dir m es)"
    using lacking_parent [OF lk] by blast
  define t1 where "t1 = update_node (trees ?s r) tmp None"
  define t2 where "t2 = update_node t1 ?q (Some (File i))"
  have rn: "fs_rename r tmp ?q ?s = (Inr (), set_tree r t2 ?s)"
    using i lk d ne by (simp add: fs_rename_def lacking_def parent_of_def t1_def t2_def)
  have dir: "is_dir_at (trees ?s r) (butlast tmp)" using d by (simp add: apart(2) is_dir_at_def)
  have parents: "\<not> below tmp (butlast ?q)" "\<not> below ?q (butlast ?q)"
    using not_below_butlast ne apart(2) by metis+
  have s1: "shape t1 z = shape (trees ?s r) z" if "\<not> below tmp z" for z
    using that unfolding t1_def below_def by (rule shape_update_other)
  have s2: "shape t2 z = shape t1 z" if "\<not> below ?q z" for z
    using that unfolding t2_def below_def by (rule shape_update_other)
  have gone: "lookup_node t1 (tmp @ z) = Inl NotExist" for z
    using update_below [OF dir ne(1), of None z] by (simp add: t1_def)
  have was: "lookup_node (trees (wfs w0) r) z = Inl NotExist" if "below tmp z" for z
    using free_below [OF _ fresh ne(1) that] kept_dir [OF k, of "butlast tmp"] dir not_below_butlast [OF ne(1)] by simp
  have same: "shape t2 z = shape (trees (wfs w0) r) z" if "\<not> below ?q z" for z
  proof (cases "below tmp z")
    case True
    then obtain y where "z = tmp @ y" by (auto simp: below_iff)
    with gone was [OF True] s2 [OF that] show ?thesis by (metis shape_Inl)
  next
    case False
    with s1 s2 that k show ?thesis by (simp add: kept_def)
  qed
  have "kept (below ?q) r (wfs w0) (set_tree r t2 ?s)"
    using k same by (simp add: kept_def set_tree_def)
  moreover have "lookup_node t2 tmp = Inl NotExist"
    using shape_lookup_Inl [OF same [OF apart(4)] fresh] by simp
  moreover have "is_dir_at t2 (butlast ?q)"
    using shape_is_dir [OF s2 [OF parents(2)]] shape_is_dir [OF s1 [OF parents(1)]] d by (simp add: is_dir_at_def)
  moreover have "content (set_tree r t2 ?s) r ?q = Some full"
    using rename_file(2,4) [OF rn i ne(3,1,2)] w by (simp add: content_def writing_def)
  moreover have "Root_Rename r tmp ?q w = (Inr (), w\<lparr>wfs := set_tree r t2 ?s\<rparr>)"
    by (rule sys_Inr_quiet [OF q]) (rule rn)
  ultimately show ?thesis
    using w by (simp add: succeeds_def writing_def placed_file_def) (simp add: set_tree_def)
qed

lemma put_quiet:
  assumes "quiet w" "upsert_row folder (EPath e) (json_Marshal e) (wdb w) = Inr d'"
  shows "store_put folder e w = (Inr (), w\<lparr>wdb := d'\<rparr>)"
  using assms by (simp add: store_put_def sql_exec_quiet)

lemma succeeds_then:
  "succeeds m P w \<Longrightarrow> (\<And>x w'. P x w' \<Longrightarrow> succeeds (f x) Q w') \<Longrightarrow> succeeds (bind m f) Q w"
  by (rule succeeds_bind, erule succeeds_mono) blast

lemma apply_staged_quiet:
  fixes nonce :: bytes and e :: Entry
  defines "tmp \<equiv> temp_name (EPath e) nonce"
  assumes w: "writing root folder r (EPath e) (components tmp) i w0 (J (EBlocks e @ ys)) [] w"
    and e: "e = entry_of (EPath e) (EMode e) c" and valid: "validPath (EPath e) = Inr ()"
    and fetch: "serves_on J fetch (EBlocks e) (cut c)"
    and room: "upsert_row folder (EPath e) (json_Marshal e) (wdb w0) = Inr d'"
    and fresh: "lookup_node (trees (wfs w0) r) (components tmp) = Inl NotExist"
  shows "succeeds (apply_staged root r folder e fetch None tmp (HFile i))
    (\<lambda>_ w'. wdb w' = d' \<and> placed_file r (EPath e) (components tmp) w0 (J ys) c w') w"
proof -
  let ?W = "writing root folder r (EPath e) (components tmp) i w0 (J ys)"
  have all: "concat (map (cut c) (EBlocks e)) = c" "EHash e = hashBytes c"
    using cut_blocks_from [of c "[]" c 0] arg_cong [OF e, of EBlocks] arg_cong [OF e, of EHash]
    by (auto simp: entry_of_def)
  have fc: "fail_if (hashBytes c \<noteq> EHash e) (Errorf ''file checksum mismatch'' []) = (return () :: (world, unit) io)"
    by (simp add: all fail_if_def)
  have steps: "File_Sync (HFile i) w1 = (Inr (), w1)" "File_Close (HFile i) w1 = (Inr (), w1)" "CheckFolder root folder w1 = (Inr (), w1)"
    "checkMarker r folder w1 = (Inr (), w1)" "checkComponents r (EPath e) True w1 = (Inr (), w1)"
    "recheck_local r e None w1 = (Inr (), w1)" "ctx_Err w1 = (Inr (), w1)" if "?W full w1" for full w1
    using that CheckFolder_quiet checkMarker_quiet checkComponents_quiet [OF _ _ valid] lstat_quiet
    by (auto simp: writing_def lacking_def sys_quiet fs_sync_def ctx_Err_quiet recheck_local_def run_simps)
  show ?thesis
    unfolding apply_staged_def
  proof (rule succeeds_then [OF apply_blocks_quiet [OF fetch w]], goal_cases)
    case (1 full w1)
    then have full: "full = c" and w1: "?W c w1" by (auto simp: all)
    show ?case
      unfolding full fc
    proof (rule succeeds_step [OF run_return], rule succeeds_then [OF chmod_quiet [OF w1]], goal_cases)
      case (1 u w2)
      note st = steps [OF this]
      show ?case
      proof (rule succeeds_step, rule st(1), rule succeeds_step, rule st(2), rule succeeds_step, rule st(3),
          rule succeeds_step, rule st(4), rule succeeds_step, rule st(5), rule succeeds_step, rule st(6), rule succeeds_step, rule st(7),
          rule succeeds_then [OF rename_quiet [OF 1 [unfolded tmp_def] valid fresh [unfolded tmp_def], folded tmp_def]], goal_cases)
        case (1 u w3)
        then have p: "wdb w3 = wdb w0" "placed_file r (EPath e) (components tmp) w0 (J ys) c w3"
          "is_dir_at (trees (wfs w3) r) (butlast (components (EPath e)))" by simp_all
        then have q: "quiet w3" by (simp add: placed_file_def)
        have sd: "syncDir r (path_Dir (EPath e)) w3 = (Inr (), w3)"
          using syncDir_quiet [OF q] p(3) by (simp add: components_path_Dir [OF valid])
        have pt: "store_put folder e w3 = (Inr (), w3\<lparr>wdb := d'\<rparr>)"
          using put_quiet [OF q] room p(1) by simp
        show ?case
          by (rule succeeds_step, rule sd, rule succeeds_step, rule pt) (use p(2) in \<open>simp add: succeeds_def set_stats_def placed_file_def\<close>)
      qed
    qed
  qed
qed

text \<open>Everything is as it was in \<open>w\<close>, and the new file and its row are there.\<close>

definition adds :: "nat \<Rightarrow> string \<Rightarrow> Entry \<Rightarrow> bytes list \<Rightarrow> (wire \<Rightarrow> bool) \<Rightarrow> world \<Rightarrow> world \<Rightarrow> bool" where
  "adds r folder e ns J w w' \<longleftrightarrow>
     quiet w' \<and> nonces w' = ns \<and> J (conn w') \<and> upsert_row folder (EPath e) (json_Marshal e) (wdb w) = Inr (wdb w')
     \<and> kept (below (components (EPath e))) r (wfs w) (wfs w')"

lemma discard_gone:
  assumes "quiet w" "lookup_node (trees (wfs w) r) (components tmp) = Inl NotExist"
  shows "snd (discard_temp r tmp out w) = w"
  using assms by (cases out) (auto simp: discard_temp_def run_simps sys_quiet fs_remove_def fs_sync_def)

lemma apply_install_quiet:
  assumes q: "quiet w" and lk: "lacking root folder r (components (EPath e)) (wfs w)" and wf: "fs_wf (wfs w)"
    and e: "e = entry_of (EPath e) (EMode e) c" and valid: "validPath (EPath e) = Inr ()" "parent_ok (EPath e)"
    and fetch: "serves_on J fetch (EBlocks e) (cut c)" and j: "J (EBlocks e @ ys) (conn w)"
    and room: "upsert_row folder (EPath e) (json_Marshal e) (wdb w) = Inr d'"
    and nonce: "nonces w = n # ns"
    and fresh: "lookup_node (trees (wfs w) r) (components (temp_name (EPath e) n)) = Inl NotExist"
  shows "succeeds (apply_install root r folder e fetch None)
    (\<lambda>_ w'. adds r folder e ns (J ys) w w' \<and> content (wfs w') r (components (EPath e)) = Some c) w"
  unfolding apply_install_def
proof (rule succeeds_step)
  show "ensureParents r (EPath e) w = (Inr (), w)"
    by (rule ensureParents_quiet [OF q lk valid])
next
  let ?w = "w\<lparr>nonces := ns\<rparr>"
  have rnd: "rand_Read w = (Inr n, ?w)" using nonce by (simp add: rand_Read_def)
  have w1: "quiet ?w" "lacking root folder r (components (EPath e)) (wfs ?w)" "fs_wf (wfs ?w)" "J (EBlocks e @ ys) (conn ?w)"
    "lookup_node (trees (wfs ?w) r) (components (temp_name (EPath e) n)) = Inl NotExist"
    "upsert_row folder (EPath e) (json_Marshal e) (wdb ?w) = Inr d'"
    using q lk wf fresh j room by simp_all
  note cr = create_quiet [where m = 384 and J = "J (EBlocks e @ ys)", OF w1(1-3) valid(1) w1(4,5)]
  show "succeeds (bind rand_Read (\<lambda>nonce.
     bind (Root_CreateExcl r (components (temp_name (EPath e) nonce)) 384) (\<lambda>out.
     deferring (discard_temp r (temp_name (EPath e) nonce) out)
       (apply_staged root r folder e fetch None (temp_name (EPath e) nonce) out))))
    (\<lambda>_ w'. adds r folder e ns (J ys) w w' \<and> content (wfs w') r (components (EPath e)) = Some c) w"
  proof (rule succeeds_step, rule rnd, rule succeeds_then [OF cr], elim conjE, goal_cases)
    case (1 out w2)
    show ?case
    proof (rule succeeds_deferring, unfold 1(1),
        rule succeeds_mono [OF apply_staged_quiet [OF 1(2) e valid(1) fetch w1(6,5)]], goal_cases)
      case (1 x w3)
      then have "quiet w3" "lookup_node (trees (wfs w3) r) (components (temp_name (EPath e) n)) = Inl NotExist"
        by (simp_all add: placed_file_def)
      from discard_gone [OF this] 1 room show ?case
        by (simp add: placed_file_def adds_def)
    qed
  qed
qed

lemma file_entry_kind: "EKind (entry_of name m c) = ''file''" "EPath (entry_of name m c) = name"
  "EMode (entry_of name m c) = m" "ESize (entry_of name m c) = int (length c)"
  by (simp_all add: entry_of_def)

text \<open>A file that is missing here and not indexed is downloaded.\<close>

lemma Apply_adds_file:
  assumes q: "quiet w" and wf: "fs_wf (wfs w)" and db: "db_inv (wdb w)"
    and lk: "lacking root folder r (components name) (wfs w)"
    and valid: "validPath name = Inr ()" "parent_ok name" "m AND NOT 511 = 0" "int (length c) \<le> MaxFileSize"
    and fetch: "serves_on J fetch (blocks_from 0 c) (cut c)" and j: "J (blocks_from 0 c @ ys) (conn w)"
    and none: "select_manifest (wdb w) folder name = None"
    and room: "usage_check (capacity_after (wdb w) folder name (json_Marshal (entry_of name m c)))"
    and nonce: "nonces w = n # ns"
    and fresh: "lookup_node (trees (wfs w) r) (components (temp_name name n)) = Inl NotExist"
  shows "\<exists>w'. Apply folder root (entry_of name m c) fetch w = (Inr (), w')
     \<and> adds r folder (entry_of name m c) ns (J ys) w w' \<and> content (wfs w') r (components name) = Some c"
proof -
  let ?e = "entry_of name m c" and ?w = "w\<lparr>stats := zero_stats\<rparr>"
  note k = file_entry_kind [of name m c]
  have b: "EBlocks ?e = blocks_from 0 c" by (simp add: entry_of_def)
  have v: "ValidateEntry ?e = Inr ()" by (rule ValidateEntry_entry_of) (use valid in auto)
  have q': "quiet ?w" using q by simp
  have lk': "lacking root folder r (components name) (wfs ?w)" using lk by simp
  have st: "set_stats (\<lambda>_. zero_stats) w = (Inr (), ?w)" by (simp add: set_stats_def)
  have cap: "checkCapacity folder ?e ?w = (Inr (), ?w)"
    using room q' by (simp add: checkCapacity_def run_simps sql_query_quiet usage_check_def k split: prod.splits)
  have get: "check_not_indexed folder name ?w = (Inr (), ?w)"
    using none q' by (simp add: check_not_indexed_def store_get_def run_simps sql_query_quiet)
  obtain d' where d': "upsert_row folder (EPath ?e) (json_Marshal ?e) (wdb w) = Inr d'"
    using upsert_row_capacity [OF db] room k by metis
  have e: "?e = entry_of (EPath ?e) (EMode ?e) c" by (simp add: k)
  have "succeeds (apply_install root r folder ?e fetch None)
      (\<lambda>_ w'. adds r folder ?e ns (J ys) ?w w' \<and> content (wfs w') r (components (EPath ?e)) = Some c) ?w"
    by (rule apply_install_quiet [where n = n, OF q' _ _ e]) (use lk wf valid fetch j d' nonce fresh in \<open>simp_all add: k b\<close>)
  then obtain w' where w': "apply_install root r folder ?e fetch None ?w = (Inr (), w')"
    "adds r folder ?e ns (J ys) ?w w'" "content (wfs w') r (components name) = Some c"
    by (auto simp: succeeds_def k split: prod.splits sum.splits)
  have "Apply folder root ?e fetch w = apply_install root r folder ?e fetch None ?w"
    unfolding Apply_def
    using st v q' cap openFolder_quiet [OF q' lk'] checkComponents_quiet [OF q' lk' valid(1)] lstat_quiet [OF q' lk'] get
    by (simp add: run_bind run_attempt run_lift_sum ctx_Err_quiet k apply_file_def)
  with w' show ?thesis by (auto simp: adds_def)
qed

text \<open>C6. On a machine where no call fails, a file that is neither on the disk nor in the index, whose
  parent exists, whose row fits the budget and whose blocks the peer serves, is installed: Apply
  returns success and the file shows the served bytes.\<close>

theorem Apply_downloads:
  assumes q: "quiet w" and wf: "fs_wf (wfs w)" and db: "db_inv (wdb w)"
    and lk: "lacking root folder r (components name) (wfs w)"
    and valid: "validPath name = Inr ()" "parent_ok name" "m AND NOT 511 = 0" "int (length c) \<le> MaxFileSize"
    and fetch: "serves fetch (blocks_from 0 c) (cut c)"
    and none: "select_manifest (wdb w) folder name = None"
    and room: "usage_check (capacity_after (wdb w) folder name (json_Marshal (entry_of name m c)))"
    and nonce: "nonces w = n # ns"
    and fresh: "lookup_node (trees (wfs w) r) (components (temp_name name n)) = Inl NotExist"
  shows "\<exists>w'. Apply folder root (entry_of name m c) fetch w = (Inr (), w')
     \<and> content (wfs w') r (components name) = Some c"
  using Apply_adds_file [OF q wf db lk valid serves_serves_on [OF fetch] TrueI none room nonce fresh] by blast

section \<open>Directories\<close>

definition dir_entry :: "string \<Rightarrow> 32 word \<Rightarrow> Entry" where
  "dir_entry name m = \<lparr>EPath = name, EKind = ''directory'', ESize = 0, EMode = m, EHash = [], EBlocks = []\<rparr>"

lemma Apply_adds_dir:
  assumes q: "quiet w" and db: "db_inv (wdb w)"
    and lk: "lacking root folder r (components name) (wfs w)"
    and valid: "validPath name = Inr ()" "parent_ok name" "m AND NOT 511 = 0"
    and none: "select_manifest (wdb w) folder name = None"
    and room: "usage_check (capacity_after (wdb w) folder name (json_Marshal (dir_entry name m)))"
  shows "\<exists>w'. Apply folder root (dir_entry name m) fetch w = (Inr (), w')
     \<and> adds r folder (dir_entry name m) (nonces w) (\<lambda>c. c = conn w) w w'
     \<and> kept (\<lambda>q. q = components name) r (wfs w) (wfs w') \<and> is_dir_at (trees (wfs w') r) (components name)"
proof -
  let ?e = "dir_entry name m" and ?w = "w\<lparr>stats := zero_stats\<rparr>" and ?p = "components name" and ?s = "wfs w"
  have k: "EPath ?e = name" "EKind ?e = ''directory''" "EMode ?e = m" by (simp_all add: dir_entry_def)
  have v: "ValidateEntry ?e = Inr ()" using valid by (simp add: ValidateEntry_def dir_entry_def)
  have q': "quiet ?w" using q by simp
  have lk': "lacking root folder r ?p (wfs ?w)" using lk by simp
  have st: "set_stats (\<lambda>_. zero_stats) w = (Inr (), ?w)" by (simp add: set_stats_def)
  have cap: "checkCapacity folder ?e ?w = (Inr (), ?w)"
    using room q' by (simp add: checkCapacity_def run_simps sql_query_quiet usage_check_def k split: prod.splits)
  have get: "check_not_indexed folder name ?w = (Inr (), ?w)"
    using none q' by (simp add: check_not_indexed_def store_get_def run_simps sql_query_quiet)
  obtain d' where d': "upsert_row folder (EPath ?e) (json_Marshal ?e) (wdb w) = Inr d'"
    using upsert_row_capacity [OF db] room k by metis
  obtain m' es where d: "lookup_node (trees ?s r) (butlast ?p) = Inr (Dir m' es)"
    using lacking_parent [OF lk] by blast
  have free: "lookup_node (trees ?s r) ?p = Inl NotExist" using lk by (simp add: lacking_def)
  have ne: "?p \<noteq> []" using lacking_nonempty [OF lk] .
  define t where "t = update_node (trees ?s r) ?p (Some (Dir ((m OR 448) AND NOT (umask ?s)) []))"
  have md: "Root_Mkdir r ?p (m OR 448) ?w = (Inr (), ?w\<lparr>wfs := set_tree r t ?s\<rparr>)"
    using q' d free by (simp add: sys_quiet fs_mkdir_def fs_link_new_def parent_of_def t_def)
  have dir: "is_dir_at (trees ?s r) (butlast ?p)" using d by (simp add: is_dir_at_def)
  have at: "lookup_node t (?p @ z) = lookup_node (Dir ((m OR 448) AND NOT (umask ?s)) []) z" for z
    using update_below [OF dir ne, of _ z] by (simp add: t_def)
  have same: "shape t z = shape (trees ?s r) z" if "z \<noteq> ?p" for z
  proof (cases "below ?p z")
    case True
    then obtain y where y: "z = ?p @ y" by (auto simp: below_iff)
    with that obtain a y' where "y = a # y'" by (cases y) auto
    with at y have "lookup_node t z = Inl NotExist" by simp
    with free_below [OF dir free ne True] show ?thesis by (metis shape_Inl)
  next
    case False
    then show ?thesis unfolding t_def below_def by (rule shape_update_other)
  qed
  let ?w2 = "?w\<lparr>wfs := set_tree r t ?s\<rparr>"
  have k2: "kept (\<lambda>q. q = ?p) r ?s (set_tree r t ?s)" using same by (simp add: kept_def set_tree_def)
  have "is_dir_at t (butlast ?p)" using shape_is_dir [OF same [OF butlast_neq [OF ne]]] dir by simp
  then have sd: "syncDir r (path_Dir name) ?w2 = (Inr (), ?w2)"
    using syncDir_quiet [of ?w2 r "path_Dir name"] q' by (simp add: components_path_Dir [OF valid(1)] set_tree_def)
  have pt: "store_put folder ?e ?w2 = (Inr (), ?w2\<lparr>wdb := d'\<rparr>)"
    using put_quiet [of ?w2 folder ?e d'] q' d' by simp
  have "Apply folder root ?e fetch w = (Inr (), ?w2\<lparr>wdb := d'\<rparr>)"
    unfolding Apply_def
    using st v q' cap openFolder_quiet [OF q' lk'] checkComponents_quiet [OF q' lk' valid(1)] lstat_quiet [OF q' lk'] get
      ensureParents_quiet [OF q' lk' valid(1,2)] md sd pt
    by (simp add: run_bind run_attempt run_lift_sum ctx_Err_quiet k apply_directory_def run_simps)
  moreover have "kept (below ?p) r ?s (set_tree r t ?s)" using k2 by (simp add: kept_def) (metis below_refl)
  moreover have "is_dir_at t ?p" using at [of "[]"] by (simp add: is_dir_at_def)
  ultimately show ?thesis using k2 d' q' by (simp add: adds_def k) (simp add: set_tree_def)
qed

section \<open>A small folder\<close>

lemma demo_room: "length (json_Marshal (entry_of ''b'' 420 ''new'')) \<le> 2000"
proof -
  have b: "blocks_from 0 ''new'' = [\<lparr>BOffset = 0, BSize = 3, BHash = hashBytes ''new''\<rparr>]"
    by (simp add: blocks_from.simps BlockSize_def)
  have esc: "length (json_escape (hashBytes ''new'')) \<le> 384" "length (json_escape ''path'') \<le> 24"
    "length (json_escape ''kind'') \<le> 24" "length (json_escape ''size'') \<le> 24"
    "length (json_escape ''mode'') \<le> 24" "length (json_escape ''hash'') \<le> 24"
    "length (json_escape ''blocks'') \<le> 36" "length (json_escape ''offset'') \<le> 36"
    "length (json_escape ''b'') \<le> 6" "length (json_escape ''file'') \<le> 24"
    using length_json_escape [of "hashBytes ''new''"] length_json_escape [of "''path''"]
      length_json_escape [of "''kind''"] length_json_escape [of "''size''"] length_json_escape [of "''mode''"]
      length_json_escape [of "''hash''"] length_json_escape [of "''blocks''"] length_json_escape [of "''offset''"]
      length_json_escape [of "''b''"] length_json_escape [of "''file''"]
    by simp_all
  have nums: "length (show_int 3) = 1" "length (show_int 0) = 1" "length (show_nat 420) = 3"
    by (simp_all add: show_int_def show_nat.simps)
  show ?thesis
    using esc by (simp add: json_Marshal_def enc_entry_def enc_block_def entry_of_def b json_string_def
        nums)
qed

theorem Apply_downloads_witness:
  "\<exists>w'. Apply ''f'' ''/r'' (entry_of ''b'' 420 ''new'') (Some (\<lambda>b. return (cut ''new'' b))) demo_world = (Inr (), w')
     \<and> content (wfs w') 0 (components ''b'') = Some ''new''"
proof (rule Apply_downloads [OF demo_calm(2) demo_wf, where m = 420 and c = "''new''"])
  show "db_inv (wdb demo_world)" by (simp add: demo_world_def db_inv_empty)
  show "lacking ''/r'' ''f'' 0 (components ''b'') (wfs demo_world)"
    by (simp add: lacking_def demo_world_def demo_fs_def content_def file_ino_def components_def markerName_def is_dir_at_def)
  show "validPath ''b'' = Inr ()" by (rule demo_valid)
  show "parent_ok ''b''" by (simp add: parent_ok_def path_Dir_def)
  show "(420 :: 32 word) AND NOT 511 = 0" by code_simp
  show "int (length ''new'') \<le> MaxFileSize" by (simp add: MaxFileSize_def)
  show "serves (Some (\<lambda>b. return (cut ''new'' b))) (blocks_from 0 ''new'') (cut ''new'')"
    using cut_blocks_from [of "''new''" "[]" "''new''" 0] by (simp add: serves_def)
  show "select_manifest (wdb demo_world) ''f'' ''b'' = None"
    by (simp add: demo_world_def empty_database_def select_manifest_def)
  show "usage_check (capacity_after (wdb demo_world) ''f'' ''b'' (json_Marshal (entry_of ''b'' 420 ''new'')))"
    using demo_room
    by (simp add: demo_world_def empty_database_def capacity_after_def usage_check_def MaxEntries_def MaxManifestBytes_def
        select_manifest_def usage_of_def)
  show "nonces demo_world = replicate 16 (CHR 0x41) # []" by (simp add: demo_world_def)
  show "lookup_node (trees (wfs demo_world) 0) (components (temp_name ''b'' (replicate 16 (CHR 0x41)))) = Inl NotExist"
    using components_temp_name [OF demo_valid(2), of "replicate 16 (CHR 0x41)"]
    by (simp add: demo_world_def demo_fs_def components_def markerName_def tempPrefix_def)
qed

end
