(* ===== verification/Walk.thy ===== *)
theory Walk
  imports Catalog
begin

text \<open>
  What \<open>Scan\<close> finds and stores: on every schedule the entries are valid and fit the listing; when
  nobody edits the folder they are exactly what it shows.
\<close>

section \<open>Scanned entries\<close>

definition good_acc :: "scan_acc \<Rightarrow> bool" where
  "good_acc acc \<longleftrightarrow> (\<forall>e \<in> set (fst acc). valid_entry e) \<and> snd acc = listing_bytes (fst acc)
     \<and> int (length (fst acc)) \<le> MaxEntries \<and> snd acc \<le> MaxManifestBytes - 2"

lemma directory_entry_valid:
  "validPath name = Inr () \<Longrightarrow>
     valid_entry \<lparr>EPath = name, EKind = ''directory'', ESize = 0, EMode = m AND 511, EHash = [], EBlocks = []\<rparr>"
  by (simp add: valid_entry_def ValidateEntry_def word_bw_assocs)

lemma checkComponents_Inr: "checkComponents r name miss w = (Inr u, w') \<Longrightarrow> validPath name = Inr ()"
  by (auto simp: checkComponents_def bind_eq_Inr lift_sum_Inr)

lemma fingerprint_valid:
  assumes "fingerprint r name w = (Inr e, w')"
  shows "valid_entry e" "EPath e = name" "EKind e = ''file''"
proof -
  obtain m data where e: "e = entry_of name (m AND 511) data" "validPath name = Inr ()"
    "int (length data) \<le> MaxFileSize" using fingerprint_Inr [OF assms] .
  then have "valid_entry e"
    unfolding valid_entry_def e(1) by (intro ValidateEntry_entry_of) (auto simp: word_bw_assocs)
  with e show "valid_entry e" "EPath e = name" "EKind e = ''file''"
    by (auto simp: entry_of_def)
qed

abbreviation any_world :: "world \<Rightarrow> bool" where "any_world w \<equiv> True"

lemma returning_trivial: "returning any_world m (\<lambda>_. True)"
  by (simp add: returning_def)

lemma scan_visit_good:
  assumes "good_acc acc"
  shows "returning any_world (scan_visit r name isdir acc) (\<lambda>(skip, acc'). good_acc acc')"
proof -
  have chk: "returning any_world (checkComponents r name False) (\<lambda>_. validPath name = Inr ())"
    by (auto simp: returning_def dest: checkComponents_Inr)
  have entry: "returning any_world
      (if fi_type info = Directory then
         return \<lparr>EPath = name, EKind = ''directory'', ESize = 0, EMode = fi_perm info AND 511,
                 EHash = [], EBlocks = []\<rparr>
       else if fi_type info = Regular then
         bind (attempt (fingerprint r name)) (\<lambda>res.
         case res of Inl err \<Rightarrow> throw (Wrap (''scan '' @ name) err) | Inr e \<Rightarrow> return e)
       else throw (Errorf ''unsupported file type at %q'' [name])) valid_entry"
    if "validPath name = Inr ()" for info
  proof (intro returning_if returning_return returning_throw directory_entry_valid that)
    show "returning any_world (bind (attempt (fingerprint r name)) (\<lambda>res.
         case res of Inl err \<Rightarrow> throw (Wrap (''scan '' @ name) err) | Inr e \<Rightarrow> return e)) valid_entry"
    proof (rule returning_bind)
      show "returning any_world (attempt (fingerprint r name)) (\<lambda>res. \<forall>e. res = Inr e \<longrightarrow> valid_entry e)"
        by (auto simp: returning_def attempt_Inr dest: fingerprint_valid(1))
    qed (auto split: sum.split intro: returning_return returning_throw)
  qed
  have add: "returning any_world (bind (fail_if (int (length (fst acc)) \<ge> MaxEntries
            \<or> snd acc + int (length (json_Marshal e)) + 1 > MaxManifestBytes - 2)
          (Errorf ''folder manifest exceeds limits'' [])) (\<lambda>_.
        return (False, (fst acc @ [e], snd acc + int (length (json_Marshal e)) + 1))))
      (\<lambda>(skip, acc'). good_acc acc')" if "valid_entry e" for e
    using assms that by (auto simp: returning_def bind_eq_Inr fail_if_Inr good_acc_def)
  show ?thesis
    unfolding scan_visit_def
    by (intro returning_bind [OF returning_trivial] returning_if returning_bind [OF chk]
        returning_bind [OF entry] add) (auto simp: returning_def assms)
qed

lemma walk_good:
  "good_acc acc \<Longrightarrow> returning any_world (walk_dir fuel r name isdir acc) good_acc"
  "good_acc acc \<Longrightarrow> returning any_world (walk_list fuel r name ds acc) good_acc"
proof (induction fuel r name isdir acc and fuel r name ds acc rule: walk_dir_walk_list.induct)
  case (1 fuel r name isdir acc)
  show ?case
    unfolding walk_dir.simps
  proof (rule returning_bind [OF scan_visit_good [OF 1(2)]], clarify)
    fix skip es mb assume g: "good_acc (es, mb)"
    show "returning any_world (if skip \<or> \<not> isdir then return (es, mb)
        else case fuel of 0 \<Rightarrow> throw (Errorf ''walk too deep'' [])
          | Suc n \<Rightarrow> bind (Root_ReadDir r (components name)) (\<lambda>dirs. walk_list n r name dirs (es, mb))) good_acc"
      using g 1(1)
      by (cases fuel) (auto intro!: returning_return returning_throw returning_bind [OF returning_trivial])
  qed
next
  case (3 fuel r name d ds acc)
  then show ?case
    unfolding walk_list.simps by (intro returning_bind [OF 3(1)]) auto
qed (simp add: returning_def)

section \<open>The transaction\<close>

lemma Scan_commits: "commits (replace_folder f) (Scan f root)"
  unfolding Scan_def
  by (intro commits_bind commits_then_return [OF commits_exec] frame.openFolder_within frame.lstat
      frame.walk_within frame.CheckFolder_within frame.checkMarker_within commits_then_return)
     (auto split: prod.split intro!: commits_bind commits_then_return [OF commits_exec] frame.CheckFolder_within frame.checkMarker_within)

lemma Scan_good:
  assumes "Scan f root w = (Inr es, w')"
  shows "(\<forall>e \<in> set es. valid_entry e) \<and> int (length es) \<le> MaxEntries \<and> listing_bytes es \<le> MaxManifestBytes - 2"
proof -
  have "good_acc ([], 0)" by (simp add: good_acc_def MaxEntries_def MaxManifestBytes_def)
  then have walk: "returning any_world (walk_dir walk_fuel r ''.'' isdir ([], 0)) good_acc" for r isdir
    by (rule walk_good)
  have "returning any_world (Scan f root)
      (\<lambda>es. (\<forall>e \<in> set es. valid_entry e) \<and> int (length es) \<le> MaxEntries \<and> listing_bytes es \<le> MaxManifestBytes - 2)"
    unfolding Scan_def
    by (intro returning_bind [OF returning_trivial] returning_bind [OF walk])
       (auto simp: good_acc_def intro!: returning_bind [OF returning_trivial] returning_return)
  with assms show ?thesis by (auto dest: returningD)
qed

lemma Scan_valid: "Scan f root w = (Inr es, w') \<Longrightarrow> \<forall>e \<in> set es. valid_entry e"
  using Scan_good by blast

lemma Scan_fits:
  "Scan f root w = (Inr es, w') \<Longrightarrow> int (length es) \<le> MaxEntries \<and> listing_bytes es \<le> MaxManifestBytes - 2"
  using Scan_good by blast

text \<open>What the index holds after the transaction.\<close>

lemma insert_entries_new:
  "insert_entries f es db = Inr db' \<Longrightarrow> select_manifest db f p \<noteq> None \<Longrightarrow> p \<notin> EPath ` set es"
proof (induction es arbitrary: db)
  case (Cons e es)
  then obtain db1 where ins: "insert_row f (EPath e) (json_Marshal e) db = Inr db1"
    and rest: "insert_entries f es db1 = Inr db'" by (auto split: sum.splits)
  have "select_manifest db f (EPath e) = None"
    using ins by (simp add: insert_row_def split: option.splits)
  then have "p \<noteq> EPath e" using Cons.prems(2) by auto
  moreover have "select_manifest db1 f p \<noteq> None"
    using Cons.prems(2) by (simp add: select_insert_row [OF ins])
  ultimately show ?case using Cons.IH [OF rest] by simp
qed simp

lemma insert_entries_select:
  "insert_entries f es db = Inr db' \<Longrightarrow>
     select_manifest db' g q =
       (if g = f \<and> q \<in> EPath ` set es then map_option json_Marshal (find (\<lambda>e. EPath e = q) es)
        else select_manifest db g q)"
proof (induction es arbitrary: db)
  case (Cons e es)
  then obtain db1 where ins: "insert_row f (EPath e) (json_Marshal e) db = Inr db1"
    and rest: "insert_entries f es db1 = Inr db'" by (auto split: sum.splits)
  have none: "EPath e \<notin> EPath ` set es"
    using insert_entries_new [OF rest] by (simp add: select_insert_row [OF ins])
  show ?case
    using Cons.IH [OF rest] select_insert_row [OF ins, of g q] none by auto
qed simp

lemma replace_folder_select:
  assumes "replace_folder f es db = Inr db'" "db_inv db"
  shows "select_manifest db' g q =
    (if g = f then map_option json_Marshal (find (\<lambda>e. EPath e = q) es) else select_manifest db g q)"
proof -
  obtain db1 where del: "delete_folder f db = Inr db1" and ins: "insert_entries f es db1 = Inr db'"
    using assms(1) by (auto simp: replace_folder_def split: sum.splits)
  have t: "entries_tbl db1 = filter (\<lambda>r. fst (fst r) \<noteq> f) (entries_tbl db)"
    using delete_folder_Inr [OF assms(2), of f] del by auto
  have "find (\<lambda>e. EPath e = q) es = None" if "q \<notin> EPath ` set es"
    using that by (auto simp: find_None_iff)
  with insert_entries_select [OF ins, of g q] show ?thesis
    by (auto simp: select_manifest_def t map_of_filter_folder)
qed


section \<open>The snapshot\<close>

text \<open>An entry describes what its path shows: the permissions, and the bytes of a file.\<close>

definition shows_entry :: "fsys \<Rightarrow> nat \<Rightarrow> Entry \<Rightarrow> bool" where
  "shows_entry s r e \<longleftrightarrow>
     (case lookup_node (trees s r) (components (EPath e)) of
        Inr (File i) \<Rightarrow> e = entry_of (EPath e) (imode (inodes s i) AND 511) (idata (inodes s i))
      | Inr (Dir m es) \<Rightarrow> e = \<lparr>EPath = EPath e, EKind = ''directory'', ESize = 0, EMode = m AND 511, EHash = [], EBlocks = []\<rparr>
      | _ \<Rightarrow> False)"

text \<open>Every file and directory with a valid name at or below a path is in the list.\<close>

definition present :: "fsys \<Rightarrow> nat \<Rightarrow> string \<Rightarrow> bool" where
  "present s r n \<longleftrightarrow> file_ino (trees s r) (components n) \<noteq> None \<or> is_dir_at (trees s r) (components n)"

definition covers :: "fsys \<Rightarrow> nat \<Rightarrow> string list \<Rightarrow> Entry list \<Rightarrow> bool" where
  "covers s r ps es \<longleftrightarrow>
     (\<forall>n z. validPath n = Inr () \<and> components n = ps @ z \<and> present s r n \<longrightarrow> n \<in> EPath ` set es)"

text \<open>The name the walk gives to a path.\<close>

definition name_of :: "string list \<Rightarrow> string" where
  "name_of ps = (if ps = [] then ''.'' else join_with slash ps)"

lemma returning_steady: "within steady m \<Longrightarrow> returning (at_state s d) m (\<lambda>_. True)"
proof -
  assume m: "within steady m"
  have "at_state s d w'" if w: "at_state s d w" "m w = (Inr x, w')" for w x w'
    using wp_InrD [OF wp_steady [OF m w(1), of "\<lambda>_ w'. at_state s d w'" "\<lambda>_ _. True"] w(2)] by simp
  then show ?thesis by (simp add: returning_def)
qed

lemma returning_steady_run:
  assumes "within steady m" "\<And>w x w'. at_state s d w \<Longrightarrow> m w = (Inr x, w') \<Longrightarrow> Q x"
  shows "returning (at_state s d) m Q"
  using returning_steady [OF assms(1), of s d] assms(2) by (auto simp: returning_def)

lemma lstat_returns:
  "returning (at_state s d) (Root_Lstat r p)
     (\<lambda>info. \<exists>n. lookup_node (trees s r) p = Inr n \<and> info = node_info s n)"
proof (rule returning_steady_run [OF steady.lstat])
  fix w x w' assume w: "at_state s d w" "Root_Lstat r p w = (Inr x, w')"
  then have "fs_lstat r p s = (Inr x, wfs w')"
    using sys_calm [of w "fs_lstat r p" x w'] by (auto simp: at_state_def)
  from fs_lstat_Inr [OF this] fs_lstat_Inr [OF this]
  show "\<exists>n. lookup_node (trees s r) p = Inr n \<and> x = node_info s n" by auto
qed

lemma read_dir_returns:
  "returning (at_state s d) (Root_ReadDir r p)
     (\<lambda>ds. \<exists>m es. lookup_node (trees s r) p = Inr (Dir m es) \<and> ds = dir_entries es)"
proof (rule returning_steady_run [OF steady.read_dir])
  fix w x w' assume w: "at_state s d w" "Root_ReadDir r p w = (Inr x, w')"
  then have "fs_read_dir r p s = (Inr x, wfs w')"
    using sys_calm [of w "fs_read_dir r p" x w'] by (auto simp: at_state_def)
  then show "\<exists>m es. lookup_node (trees s r) p = Inr (Dir m es) \<and> x = dir_entries es"
    by (auto simp: fs_read_dir_def split: sum.splits node.splits)
qed

lemma fingerprint_returns:
  "returning (at_state s d) (fingerprint r name) (\<lambda>e. shows_entry s r e \<and> EPath e = name)"
proof (rule returning_steady_run [OF steady.fingerprint_within])
  fix w e w' assume w: "at_state s d w" "fingerprint r name w = (Inr e, w')"
  then have "calm w" "wfs w = s" by (auto simp: at_state_def)
  from fingerprint_calm [OF w(2) this(1)] this(2) obtain i where
    "file_ino (trees s r) (components name) = Some i"
    "e = entry_of name (imode (inodes s i) AND 511) (idata (inodes s i))" by metis
  then show "shows_entry s r e \<and> EPath e = name"
    by (auto simp: shows_entry_def entry_of_def file_ino_def split: sum.splits node.splits)
qed

text \<open>One visit.\<close>

definition skipped :: "string \<Rightarrow> bool" where
  "skipped name \<longleftrightarrow> name \<noteq> ''.'' \<and> (path_Base name = markerName \<or> has_prefix (path_Base name) tempPrefix)"

lemma scan_visit_returns:
  assumes "\<forall>e \<in> set (fst acc). shows_entry s r e"
  shows "returning (at_state s d) (scan_visit r name isdir acc)
    (\<lambda>(skip, acc'). (\<forall>e \<in> set (fst acc'). shows_entry s r e) \<and> set (fst acc) \<subseteq> set (fst acc') \<and>
       skip = (isdir \<and> skipped name) \<and>
       (name = ''.'' \<or> skipped name \<or> (\<exists>e \<in> set (fst acc'). EPath e = name)))"
proof -
  have entry: "returning (at_state s d)
      (if fi_type info = Directory then
         return \<lparr>EPath = name, EKind = ''directory'', ESize = 0, EMode = fi_perm info AND 511,
                 EHash = [], EBlocks = []\<rparr>
       else if fi_type info = Regular then
         bind (attempt (fingerprint r name)) (\<lambda>res.
         case res of Inl err \<Rightarrow> throw (Wrap (''scan '' @ name) err) | Inr e \<Rightarrow> return e)
       else throw (Errorf ''unsupported file type at %q'' [name])) (\<lambda>e. shows_entry s r e \<and> EPath e = name)"
    if "lookup_node (trees s r) (components name) = Inr n" "info = node_info s n" for info n
  proof (intro returning_if returning_throw returning_return)
    assume "fi_type info = Directory"
    with that show "shows_entry s r \<lparr>EPath = name, EKind = ''directory'', ESize = 0,
        EMode = fi_perm info AND 511, EHash = [], EBlocks = []\<rparr> \<and>
      EPath \<lparr>EPath = name, EKind = ''directory'', ESize = 0, EMode = fi_perm info AND 511,
                 EHash = [], EBlocks = []\<rparr> = name"
      by (cases n) (auto simp: shows_entry_def is_dir_at_def node_info_def ino_info_def plain_info_def)
  next
    show "returning (at_state s d) (bind (attempt (fingerprint r name)) (\<lambda>res.
         case res of Inl err \<Rightarrow> throw (Wrap (''scan '' @ name) err) | Inr e \<Rightarrow> return e))
       (\<lambda>e. shows_entry s r e \<and> EPath e = name)"
    proof (rule returning_bind)
      show "returning (at_state s d) (attempt (fingerprint r name))
          (\<lambda>res. case res of Inl err \<Rightarrow> True | Inr e \<Rightarrow> shows_entry s r e \<and> EPath e = name)"
        using returning_steady [OF steady_attempt [OF steady.fingerprint_within], of s d r name]
          fingerprint_returns [of s d r name]
        by (auto simp: returning_def attempt_Inr split: sum.split)
    qed (auto split: sum.split intro: returning_return returning_throw)
  qed
  show ?thesis
    unfolding scan_visit_def
    apply (rule returning_bind [OF returning_steady [OF within_ctx_Err [OF steady.pre]]])
    apply (rule returning_if)
     apply (rule returning_return, use assms in \<open>simp add: skipped_def\<close>)
    apply (rule returning_if)
     apply (rule returning_return, use assms in \<open>auto simp: skipped_def\<close>)
    apply (rule returning_bind [OF returning_steady [OF steady.checkComponents_within]])
    apply (rule returning_bind [OF lstat_returns])
    apply (elim exE conjE)
    apply (rule returning_bind, erule (1) entry)
    apply (rule returning_bind [OF returning_steady [OF steady_fail_if]])
    apply (rule returning_return, use assms in \<open>auto simp: skipped_def\<close>)
    done
qed


lemma path_Join_name_of: "name_of ps \<noteq> ''.'' \<or> ps = [] \<Longrightarrow> path_Join (name_of ps) a = name_of (ps @ [a])"
proof (cases "ps = []")
  case False
  assume "name_of ps \<noteq> ''.'' \<or> ps = []"
  with False have "join_with slash ps \<noteq> ''.''" by (simp add: name_of_def)
  with False show ?thesis by (simp only: path_Join_def name_of_def if_False append_is_Nil_conv simp_thms)
    (simp add: join_with_append)
qed (simp add: path_Join_def name_of_def)

lemma valid_prefix:
  assumes "validPath n = Inr ()" "components n = ps @ z"
  shows "components (name_of ps) = ps" "ps \<noteq> [] \<Longrightarrow> name_of ps \<noteq> ''.''" "\<not> skipped (name_of ps)"
    "z = [] \<Longrightarrow> n = name_of ps"
proof -
  have parts: "p \<noteq> ''.''" "slash \<notin> set p" "p \<noteq> markerName" "\<not> has_prefix p tempPrefix" if "p \<in> set ps" for p
    using validPath_parts [OF assms(1), of p] that assms by (auto simp: components_valid)
  have sp: "split_on slash (join_with slash ps) = ps" if "ps \<noteq> []"
    using that parts(2) by (intro split_join) auto
  show dot: "name_of ps \<noteq> ''.''" if "ps \<noteq> []"
  proof
    assume "name_of ps = ''.''"
    with sp that have "ps = [''.'']" by (simp add: name_of_def)
    with parts(1) show False by simp
  qed
  show c: "components (name_of ps) = ps"
    using sp dot by (cases "ps = []") (auto simp: components_def name_of_def)
  show "\<not> skipped (name_of ps)"
  proof (cases "ps = []")
    case False
    then have "path_Base (name_of ps) = last ps" by (simp add: path_Base_def name_of_def sp)
    with parts(3,4) False show ?thesis by (simp add: skipped_def)
  qed (simp add: skipped_def name_of_def)
  show "n = name_of ps" if "z = []"
  proof -
    have "split_on slash n = ps" using assms that by (simp add: components_valid)
    then have "n = join_with slash ps" by (metis join_split_on)
    moreover have "ps \<noteq> []" using assms that components_nonempty by auto
    ultimately show ?thesis by (simp add: name_of_def)
  qed
qed

lemma present_below:
  assumes "present s r n" "components n = ps @ a # z"
  shows "\<exists>m es n'. lookup_node (trees s r) ps = Inr (Dir m es) \<and> map_of es a = Some n'"
proof -
  obtain x where "lookup_node (trees s r) (ps @ a # z) = Inr x"
    using assms by (auto simp: present_def file_ino_def is_dir_at_def split: sum.splits)
  then show ?thesis
    by (auto simp: lookup_node_append split: sum.splits option.splits elim!: lookup_node.elims)
qed

lemma dir_entries_types:
  assumes "lookup_node (trees s r) ps = Inr (Dir m es)" "(a, t) \<in> set (dir_entries es)"
  shows "(t = Directory) = is_dir_at (trees s r) (ps @ [a])"
proof -
  obtain n where "map_of es a = Some n" "t = node_type n"
    using assms(2) by (cases "map_of es a") (auto simp: dir_entries_def map_of_eq_None_iff)
  then show ?thesis
    by (cases n) (simp_all add: is_dir_at_def lookup_node_append assms(1) node_type_def)
qed

lemma dir_entries_member: "map_of es a = Some n \<Longrightarrow> \<exists>t. (a, t) \<in> set (dir_entries es)"
  by (auto simp: dir_entries_def image_iff dest!: map_of_SomeD) (metis fst_conv)

text \<open>What the walk adds to a list of entries that describe the folder.\<close>

definition grown :: "fsys \<Rightarrow> nat \<Rightarrow> Entry list \<Rightarrow> Entry list \<Rightarrow> bool" where
  "grown s r es es' \<longleftrightarrow> (\<forall>e \<in> set es'. shows_entry s r e) \<and> set es \<subseteq> set es'"

lemma covers_mono: "covers s r ps es \<Longrightarrow> set es \<subseteq> set es' \<Longrightarrow> covers s r ps es'"
  unfolding covers_def by (meson image_mono subsetD)

lemma covers_visited:
  assumes "name_of ps = ''.'' \<or> skipped (name_of ps) \<or> (\<exists>e \<in> set es. EPath e = name_of ps)"
    and "\<And>a z n. validPath n = Inr () \<Longrightarrow> components n = ps @ a # z \<Longrightarrow> present s r n \<Longrightarrow> n \<in> EPath ` set es"
  shows "covers s r ps es"
  unfolding covers_def
proof (intro allI impI, elim conjE)
  fix n z assume n: "validPath n = Inr ()" "components n = ps @ z" "present s r n"
  note vp = valid_prefix [OF n(1,2)]
  show "n \<in> EPath ` set es"
  proof (cases z)
    case Nil
    then have "ps \<noteq> []" using n components_nonempty by auto
    with vp Nil assms(1) show ?thesis by (auto simp: image_iff) metis
  next
    case (Cons a z')
    with n assms(2) show ?thesis by blast
  qed
qed


lemma grown_trans: "grown s r a b \<Longrightarrow> grown s r b c \<Longrightarrow> grown s r a c"
  by (auto simp: grown_def)

lemma walk_grows:
  "\<forall>e \<in> set (fst acc). shows_entry s r e \<Longrightarrow>
     returning (at_state s d) (walk_dir fuel r name isdir acc)
       (\<lambda>acc'. grown s r (fst acc) (fst acc') \<and>
          (\<forall>ps. name = name_of ps \<longrightarrow> isdir = is_dir_at (trees s r) ps \<longrightarrow> covers s r ps (fst acc')))"
  "\<forall>e \<in> set (fst acc). shows_entry s r e \<Longrightarrow>
     returning (at_state s d) (walk_list fuel r name ds acc)
       (\<lambda>acc'. grown s r (fst acc) (fst acc') \<and>
          (\<forall>ps a. name = name_of ps \<longrightarrow> name \<noteq> ''.'' \<or> ps = [] \<longrightarrow>
             (\<forall>(b, t) \<in> set ds. (t = Directory) = is_dir_at (trees s r) (ps @ [b])) \<longrightarrow>
             a \<in> fst ` set ds \<longrightarrow> covers s r (ps @ [a]) (fst acc')))"
proof (induction fuel r name isdir acc and fuel r name ds acc rule: walk_dir_walk_list.induct)
  case (1 fuel r name isdir acc)
  let ?P = "\<lambda>acc'. grown s r (fst acc) (fst acc') \<and>
          (\<forall>ps. name = name_of ps \<longrightarrow> isdir = is_dir_at (trees s r) ps \<longrightarrow> covers s r ps (fst acc'))"
  have body: "returning (at_state s d)
      (if skip \<or> \<not> isdir then return acc1
       else case fuel of 0 \<Rightarrow> throw (Errorf ''walk too deep'' [])
        | Suc n \<Rightarrow> bind (Root_ReadDir r (components name)) (\<lambda>dirs. walk_list n r name dirs acc1)) ?P"
    if g: "grown s r (fst acc) (fst acc1)" and skip: "skip = (isdir \<and> skipped name)"
      and here: "name = ''.'' \<or> skipped name \<or> (\<exists>e \<in> set (fst acc1). EPath e = name)" for skip acc1
  proof (intro returning_if returning_return)
    assume "skip \<or> \<not> isdir"
    have "covers s r ps (fst acc1)" if ps: "name = name_of ps" "isdir = is_dir_at (trees s r) ps" for ps
    proof (rule covers_visited)
      show "name_of ps = ''.'' \<or> skipped (name_of ps) \<or> (\<exists>e \<in> set (fst acc1). EPath e = name_of ps)"
        using here ps by simp
    next
      fix a z n assume n: "validPath n = Inr ()" "components n = ps @ a # z" "present s r n"
      have "is_dir_at (trees s r) ps"
        using present_below [OF n(3,2)] by (auto simp: is_dir_at_def)
      with valid_prefix(3) [OF n(1,2)] \<open>skip \<or> \<not> isdir\<close> skip ps show "n \<in> EPath ` set (fst acc1)" by simp
    qed
    with g show "?P acc1" by blast
  next
    assume go: "\<not> (skip \<or> \<not> isdir)"
    show "returning (at_state s d) (case fuel of 0 \<Rightarrow> throw (Errorf ''walk too deep'' [])
        | Suc n \<Rightarrow> bind (Root_ReadDir r (components name)) (\<lambda>dirs. walk_list n r name dirs acc1)) ?P"
    proof (cases fuel)
      case 0
      then show ?thesis by (simp add: returning_throw)
    next
      case (Suc k)
      show ?thesis unfolding Suc nat.case
      proof (rule returning_bind [OF read_dir_returns], elim exE conjE)
        fix dirs m es
        assume es: "lookup_node (trees s r) (components name) = Inr (Dir m es)" "dirs = dir_entries es"
        have acc1: "\<forall>e \<in> set (fst acc1). shows_entry s r e" using g by (simp add: grown_def)
        show "returning (at_state s d) (walk_list k r name dirs acc1) ?P"
        proof (rule returning_weaken [OF 1(1) [OF go Suc acc1]])
          fix acc' assume wl: "grown s r (fst acc1) (fst acc') \<and>
            (\<forall>ps a. name = name_of ps \<longrightarrow> name \<noteq> ''.'' \<or> ps = [] \<longrightarrow>
               (\<forall>(b, t) \<in> set dirs. (t = Directory) = is_dir_at (trees s r) (ps @ [b])) \<longrightarrow>
               a \<in> fst ` set dirs \<longrightarrow> covers s r (ps @ [a]) (fst acc'))"
          have g': "grown s r (fst acc) (fst acc')" by (rule grown_trans [OF g conjunct1 [OF wl]])
          have "covers s r ps (fst acc')" if ps: "name = name_of ps" for ps
          proof (rule covers_visited)
            show "name_of ps = ''.'' \<or> skipped (name_of ps) \<or> (\<exists>e \<in> set (fst acc'). EPath e = name_of ps)"
              using here ps wl by (auto simp: grown_def)
          next
            fix a z n assume n: "validPath n = Inr ()" "components n = ps @ a # z" "present s r n"
            note vp = valid_prefix [OF n(1,2)]
            have es': "lookup_node (trees s r) ps = Inr (Dir m es)" using es(1) vp(1) ps by simp
            obtain n' where "map_of es a = Some n'" using present_below [OF n(3,2)] es' by auto
            then have "a \<in> fst ` set dirs" using dir_entries_member es(2) by force
            moreover have "\<forall>(b, t) \<in> set dirs. (t = Directory) = is_dir_at (trees s r) (ps @ [b])"
              using dir_entries_types [OF es'] es(2) by blast
            ultimately have "covers s r (ps @ [a]) (fst acc')" using wl ps vp(2) by blast
            with n show "n \<in> EPath ` set (fst acc')" by (auto simp: covers_def)
          qed
          with g' show "?P acc'" by blast
        qed
      qed
    qed
  qed
  show ?case
    unfolding walk_dir.simps
  proof (rule returning_bind [OF scan_visit_returns [OF 1(2)]])
    fix x :: "bool \<times> scan_acc" assume x: "case x of (skip, acc') \<Rightarrow> (\<forall>e \<in> set (fst acc'). shows_entry s r e) \<and>
       set (fst acc) \<subseteq> set (fst acc') \<and> skip = (isdir \<and> skipped name) \<and>
       (name = ''.'' \<or> skipped name \<or> (\<exists>e \<in> set (fst acc'). EPath e = name))"
    obtain skip and acc1 :: scan_acc where eq: "x = (skip, acc1)" by (rule prod.exhaust)
    have a: "(\<forall>e \<in> set (fst acc1). shows_entry s r e)" "set (fst acc) \<subseteq> set (fst acc1)"
      "skip = (isdir \<and> skipped name)" "name = ''.'' \<or> skipped name \<or> (\<exists>e \<in> set (fst acc1). EPath e = name)"
      using x unfolding eq prod.case by blast+
    have "grown s r (fst acc) (fst acc1)" using a(1,2) by (simp add: grown_def)
    from body [OF this a(3,4)]
    show "returning (at_state s d) (case x of (skip, acc1) \<Rightarrow>
        if skip \<or> \<not> isdir then return acc1
        else case fuel of 0 \<Rightarrow> throw (Errorf ''walk too deep'' [])
         | Suc n \<Rightarrow> bind (Root_ReadDir r (components name)) (\<lambda>dirs. walk_list n r name dirs acc1)) ?P"
      unfolding eq prod.case .
  qed
next
  case (2 fuel r name acc)
  then show ?case unfolding walk_list.simps by (intro returning_return) (auto simp: grown_def)
next
  case (3 fuel r name d' ds acc)
  show ?case
    unfolding walk_list.simps
  proof (rule returning_bind [OF 3(1) [OF 3(3)]])
    fix acc1 :: scan_acc assume w: "grown s r (fst acc) (fst acc1) \<and>
          (\<forall>ps. path_Join name (fst d') = name_of ps \<longrightarrow> (snd d' = Directory) = is_dir_at (trees s r) ps \<longrightarrow>
             covers s r ps (fst acc1))"
    then have acc1: "\<forall>e \<in> set (fst acc1). shows_entry s r e" by (simp add: grown_def)
    show "returning (at_state s d) (walk_list fuel r name ds acc1)
       (\<lambda>acc'. grown s r (fst acc) (fst acc') \<and>
          (\<forall>ps a. name = name_of ps \<longrightarrow> name \<noteq> ''.'' \<or> ps = [] \<longrightarrow>
             (\<forall>(b, t) \<in> set (d' # ds). (t = Directory) = is_dir_at (trees s r) (ps @ [b])) \<longrightarrow>
             a \<in> fst ` set (d' # ds) \<longrightarrow> covers s r (ps @ [a]) (fst acc')))"
    proof (rule returning_weaken [OF 3(2) [OF acc1]], intro conjI allI impI)
      fix acc' :: scan_acc assume l: "grown s r (fst acc1) (fst acc') \<and>
          (\<forall>ps a. name = name_of ps \<longrightarrow> name \<noteq> ''.'' \<or> ps = [] \<longrightarrow>
             (\<forall>(b, t) \<in> set ds. (t = Directory) = is_dir_at (trees s r) (ps @ [b])) \<longrightarrow>
             a \<in> fst ` set ds \<longrightarrow> covers s r (ps @ [a]) (fst acc'))"
      show "grown s r (fst acc) (fst acc')" by (rule grown_trans [OF conjunct1 [OF w] conjunct1 [OF l]])
      fix ps a assume ps: "name = name_of ps" "name \<noteq> ''.'' \<or> ps = []"
        and types: "\<forall>(b, t) \<in> set (d' # ds). (t = Directory) = is_dir_at (trees s r) (ps @ [b])"
        and a: "a \<in> fst ` set (d' # ds)"
      show "covers s r (ps @ [a]) (fst acc')"
      proof (cases "a = fst d'")
        case True
        have "path_Join name a = name_of (ps @ [a])" using ps by (simp add: path_Join_name_of)
        moreover have "(snd d' = Directory) = is_dir_at (trees s r) (ps @ [a])"
          using types True by (cases d') auto
        ultimately have "covers s r (ps @ [a]) (fst acc1)" using w True by blast
        with l show ?thesis by (auto simp: grown_def intro: covers_mono)
      next
        case False
        then show ?thesis using l ps types a by auto
      qed
    qed
  qed
qed

text \<open>A scan of a calm machine is a snapshot of the folder.\<close>

lemma Scan_snapshot:
  assumes run: "Scan f root w = (Inr es, w')" and "calm w"
  obtains r where "mounts (wfs w) root = Some r" "\<forall>e \<in> set es. shows_entry (wfs w) r e"
    "covers (wfs w) r [] es"
proof -
  define s d where "s = wfs w" and "d = wdb w"
  have w: "at_state s d w" using assms(2) by (simp add: at_state_def s_def d_def)
  from run obtain r w1 info w2 acc w3 where
    op: "openFolder root f w = (Inr r, w1)" and
    ls: "Root_Lstat r [] w1 = (Inr info, w2)" and
    wk: "walk_dir walk_fuel r ''.'' (fi_type info = Directory) ([], 0) w2 = (Inr acc, w3)" and
    rest: "(case acc of (entries, manifestBytes) \<Rightarrow>
       bind (CheckFolder root f) (\<lambda>_. bind (checkMarker r f) (\<lambda>_.
       bind (sql_exec (replace_folder f entries)) (\<lambda>_. return entries)))) w3 = (Inr es, w')"
    unfolding Scan_def by (elim bind_eq_InrE)
  have es: "es = fst acc"
    using rest by (cases acc) (auto simp only: prod.case bind_eq_Inr run_return prod.inject sum.inject fst_conv)
  note c1 = returningD [OF returning_steady [OF steady.openFolder_within] op w]
  note c2 = returningD [OF lstat_returns ls conjunct1 [OF c1]]
  have isdir: "(fi_type info = Directory) = is_dir_at (trees s r) []"
  proof -
    obtain n where "trees s r = n" "info = node_info s n" using c2 by auto
    then show ?thesis by (cases n) (auto simp: is_dir_at_def node_info_def ino_info_def plain_info_def)
  qed
  have none: "\<forall>e \<in> set (fst ([] :: Entry list, 0 :: int)). shows_entry s r e" by simp
  note c3 = returningD [OF walk_grows(1) [OF none] wk conjunct1 [OF c2]]
  have "covers s r [] es" using c3 isdir by (simp add: es name_of_def)
  moreover have "\<forall>e \<in> set es. shows_entry s r e" using c3 by (simp add: es grown_def)
  moreover have "mounts s root = Some r" by (rule openFolder_Inr [OF op w])
  ultimately show thesis using that s_def by simp
qed

lemma Scan_index_ok:
  assumes run: "Scan f root w = (res, w')" and ok: "index_ok (wdb w)"
  shows "index_ok (wdb w')"
proof (cases res)
  case (Inl err)
  with commits_Inl [OF Scan_commits] run ok show ?thesis by metis
next
  case (Inr es)
  with run commits_Inr [OF Scan_commits] have "replace_folder f es (wdb w) = Inr (wdb w')" by metis
  with replace_folder_ok [OF ok] Scan_valid run Inr show ?thesis by metis
qed

end
