(* ===== verification/Folder.thy ===== *)
theory Folder
  imports Download Walk
begin

text \<open>
  The store's promises in terms of the bytes on the disk and the rows of the index: what names are
  accepted, what a fingerprint and a scan describe, what a listing and a block request return and
  what opening an old index does.
\<close>

section \<open>Names\<close>

theorem validPath_confined:
  assumes "validPath name = Inr ()"
  shows "0 < length name \<and> length name \<le> 4096 \<and> hd name \<noteq> slash \<and> last name \<noteq> slash
     \<and> list_all (\<lambda>p. p \<notin> {[], ''.'', ''..'', markerName} \<and> \<not> has_prefix p tempPrefix) (split_on slash name)
     \<and> \<not> contains_any name [bslash, CHR '':'', CHR 0x00]"
proof -
  have parts: "list_all (\<lambda>p. p \<notin> {[], ''.'', ''..'', markerName} \<and> \<not> has_prefix p tempPrefix) (split_on slash name)"
    using validPath_parts [OF assms] by (auto simp: list_all_iff)
  have ne: "name \<noteq> []" using assms by (auto simp: validPath_def fs_ValidPath_def)
  moreover have "hd name \<noteq> slash"
  proof
    assume "hd name = slash"
    with ne obtain t where "name = slash # t" by (cases name) auto
    then have "[] \<in> set (split_on slash name)" by simp
    with validPath_parts(1) [OF assms] show False by blast
  qed
  moreover have "last name \<noteq> slash"
  proof
    assume "last name = slash"
    with ne obtain t where "name = t @ [slash]" by (metis append_butlast_last_id)
    moreover have "split_on slash (t @ [slash]) = split_on slash t @ [[]]"
      by (induction t) (auto split: list.split)
    then have "[] \<in> set (split_on slash (t @ [slash]))" by simp
    ultimately show False using validPath_parts(1) [OF assms] by blast
  qed
  ultimately show ?thesis
    using parts assms validPath_facts(2) [OF assms] by (auto simp: validPath_def split: if_splits)
qed

theorem validPath_confined_witness:
  "hd ''a'' \<noteq> slash \<and> \<not> contains_any ''a'' [bslash, CHR '':'', CHR 0x00]"
  using validPath_confined [OF demo_valid(1)] by simp

text \<open>The metadata of a file determine it: whoever holds pieces with the announced sizes and hashes and
  a total with the announced hash holds a file of that entry.\<close>

text \<open>C11. Pieces that match the sizes and hashes of the blocks of a valid entry, and whose
  concatenation has its hash, are the file of that entry: cutting and hashing their concatenation
  gives the entry back.\<close>

theorem entry_determines_file:
  assumes "ValidateEntry e = Inr ()" "EKind e = ''file''" "list_all2 piece_ok (EBlocks e) ds"
    "hashBytes (concat ds) = EHash e"
  shows "entry_of (EPath e) (EMode e) (concat ds) = e \<and> int (length (concat ds)) = ESize e
     \<and> int (length (concat ds)) \<le> MaxFileSize"
proof -
  have "entry_of (EPath e) (EMode e) (concat ds) = e"
    using assembled_entry [OF assms(1) _ assms(3,4)] assms(2) by simp
  moreover from this have "int (length (concat ds)) = ESize e"
    by (auto simp: entry_of_def dest: arg_cong [where f = ESize])
  moreover have "ESize e \<le> MaxFileSize"
    using assms(1,2) by (auto simp: ValidateEntry_def split: sum.splits if_splits)
  ultimately show ?thesis by simp
qed

theorem entry_determines_file_witness:
  "entry_of ''a'' 420 (concat [''x'']) = entry_of ''a'' 420 ''x''"
proof -
  have v: "ValidateEntry (entry_of ''a'' 420 ''x'') = Inr ()"
    by (rule ValidateEntry_entry_of) (simp_all add: demo_valid MaxFileSize_def)
  show ?thesis
    using entry_determines_file [OF v, of "[''x'']"]
    by (simp add: entry_of_def blocks_from.simps BlockSize_def piece_ok_def)
qed

section \<open>Fingerprints\<close>

text \<open>C10. Whatever happens while it runs, a fingerprint that is returned is the entry of some byte
  string, passes ValidateEntry and survives being written to and read back from its JSON manifest.\<close>

theorem fingerprint_describes_bytes:
  assumes "fingerprint r name w = (Inr e, w')"
  shows "(\<exists>m c. e = entry_of name (m AND 511) c) \<and> ValidateEntry e = Inr ()
     \<and> json_Unmarshal (json_Marshal e) = Some e"
  using fingerprint_Inr [OF assms] fingerprint_valid(1) [OF assms] manifest.dec_enc [of e]
  by (metis valid_entry_def)

theorem fingerprint_describes_bytes_witness:
  "json_Unmarshal (json_Marshal (entry_of ''a'' 420 ''old'')) = Some (entry_of ''a'' 420 ''old'')"
  using fingerprint_describes_bytes [OF demo_fingerprint] by simp

text \<open>C9. A fingerprint taken while other processes edit the folder (every edit of a file moving its
  time stamp) is never a mixture of two versions: its size, hash and blocks are those of all the
  bytes the file held at one moment during the call, its permission bits those of a moment during
  the call not later than that.\<close>

theorem fingerprint_not_torn:
  assumes "fingerprint r name w = (Inr e, w')" "rely edits_show w"
  shows "\<exists>i j k. j \<le> k \<and> k \<le> elapsed w w' \<and> wfs w' = moment w (elapsed w w')
     \<and> file_ino (trees (wfs w') r) (components name) = Some i
     \<and> e = entry_of name (imode (inodes (moment w j) i) AND 511) (idata (inodes (moment w k) i))"
  using fingerprint_stable [OF assms] passes_moment by metis

theorem fingerprint_not_torn_witness:
  "\<exists>i j k. j \<le> k \<and> k \<le> elapsed demo_world demo_world \<and> wfs demo_world = moment demo_world (elapsed demo_world demo_world)
     \<and> file_ino (trees (wfs demo_world) 0) (components ''a'') = Some i
     \<and> entry_of ''a'' 420 ''old''
       = entry_of ''a'' (imode (inodes (moment demo_world j) i) AND 511) (idata (inodes (moment demo_world k) i))"
  by (rule fingerprint_not_torn [OF demo_fingerprint]) (simp add: rely_def demo_world_def)

section \<open>Scans\<close>

text \<open>C7. On an idle folder, Scan either fails and keeps the index, or returns valid entries that each
  describe the file or directory of that name exactly as it is on the disk (kind, permission bits,
  size, hash and blocks), and it misses no valid name.\<close>

theorem Scan_is_snapshot:
  assumes "calm w"
  shows "case Scan f root w of
      (Inl err, w') \<Rightarrow> wdb w' = wdb w
    | (Inr es, w') \<Rightarrow> \<exists>r. mounts (wfs w) root = Some r
        \<and> (\<forall>e \<in> set es. ValidateEntry e = Inr () \<and> shows_entry (wfs w) r e)
        \<and> (\<forall>n. validPath n = Inr () \<and> present (wfs w) r n \<longrightarrow> n \<in> EPath ` set es)"
proof -
  obtain res w' where run: "Scan f root w = (res, w')" by fastforce
  show ?thesis
  proof (cases res)
    case (Inl err)
    with run commits_Inl [OF Scan_commits] show ?thesis by fastforce
  next
    case (Inr es)
    with run Scan_snapshot [of f root w es w'] assms obtain r where
      "mounts (wfs w) root = Some r" "\<forall>e \<in> set es. shows_entry (wfs w) r e" "covers (wfs w) r [] es"
      by metis
    with run Inr Scan_valid [of f root w es w'] show ?thesis
      by (auto simp: covers_def valid_entry_def)
  qed
qed

theorem Scan_is_snapshot_witness:
  "case Scan ''f'' ''/r'' demo_world of
      (Inl err, w') \<Rightarrow> wdb w' = wdb demo_world
    | (Inr es, w') \<Rightarrow> \<exists>r. mounts (wfs demo_world) ''/r'' = Some r
        \<and> (\<forall>e \<in> set es. ValidateEntry e = Inr () \<and> shows_entry (wfs demo_world) r e)
        \<and> (\<forall>n. validPath n = Inr () \<and> present (wfs demo_world) r n \<longrightarrow> n \<in> EPath ` set es)"
  by (rule Scan_is_snapshot [OF demo_calm(1)])

text \<open>C8. On any schedule of failures and concurrent edits Scan either keeps the index or replaces
  exactly the rows of its folder by the entries it returns, and the index stays well formed.\<close>

theorem Scan_replaces_rows:
  assumes "index_ok (wdb w)"
  shows "case Scan f root w of
      (Inl err, w') \<Rightarrow> wdb w' = wdb w
    | (Inr es, w') \<Rightarrow> index_ok (wdb w') \<and>
        (\<forall>g q. select_manifest (wdb w') g q =
           (if g = f then map_option json_Marshal (find (\<lambda>e. EPath e = q) es)
            else select_manifest (wdb w) g q))"
proof -
  obtain res w' where run: "Scan f root w = (res, w')" by fastforce
  show ?thesis
  proof (cases res)
    case (Inl err)
    with run commits_Inl [OF Scan_commits] show ?thesis by fastforce
  next
    case (Inr es)
    have rep: "replace_folder f es (wdb w) = Inr (wdb w')"
      using commits_Inr [OF Scan_commits] run Inr by metis
    have "db_inv (wdb w)" using assms by (simp add: index_ok_def)
    with replace_folder_select [OF rep] Scan_index_ok [OF run assms] run Inr show ?thesis by simp
  qed
qed

theorem Scan_replaces_rows_witness:
  "case Scan ''f'' ''/r'' demo_world of
      (Inl err, w') \<Rightarrow> wdb w' = wdb demo_world
    | (Inr es, w') \<Rightarrow> index_ok (wdb w') \<and>
        (\<forall>g q. select_manifest (wdb w') g q =
           (if g = ''f'' then map_option json_Marshal (find (\<lambda>e. EPath e = q) es)
            else select_manifest (wdb demo_world) g q))"
  by (rule Scan_replaces_rows) (simp add: demo_world_def index_ok_empty)

section \<open>Listings\<close>

lemma zipped: "zip (map g es) (map h es) = map (\<lambda>e. (g e, h e)) es"
  by (induction es) auto

lemma listing_exact:
  assumes "index_ok db"
  obtains es where "list_rows (select_folder db f) [] 2 = Inr es" "sorted (map EPath es)" "distinct (map EPath es)"
    "\<And>e. e \<in> set es \<longleftrightarrow> valid_entry e \<and> select_manifest db f (EPath e) = Some (json_Marshal e)"
proof -
  obtain es where es: "select_folder db f = map json_Marshal es" "\<forall>e \<in> set es. valid_entry e"
    "map EPath es = map fst (sort_key fst (folder_rows db f))" using listing_of_rows [OF assms] .
  have keys: "keys_ok db" using assms by (simp add: index_ok_def db_inv_def)
  note dist = distinct_folder_rows [OF keys, of f]
  have zipped: "zip (map EPath es) (map json_Marshal es) = map (\<lambda>e. (EPath e, json_Marshal e)) es" for es
    by (induction es) auto
  have rows: "zip (map EPath es) (map json_Marshal es) = sort_key fst (folder_rows db f)"
    unfolding es(3) es(1) [symmetric] select_folder_def by (simp add: zip_map_fst_snd)
  have "e \<in> set es \<longleftrightarrow> valid_entry e \<and> select_manifest db f (EPath e) = Some (json_Marshal e)" for e
  proof
    assume e: "e \<in> set es"
    then have "(EPath e, json_Marshal e) \<in> set (zip (map EPath es) (map json_Marshal es))"
      by (simp add: zipped)
    then have "(EPath e, json_Marshal e) \<in> set (folder_rows db f)" by (simp add: rows)
    with dist e es(2) show "valid_entry e \<and> select_manifest db f (EPath e) = Some (json_Marshal e)"
      by (simp add: select_manifest_folder_rows [OF keys])
  next
    assume e: "valid_entry e \<and> select_manifest db f (EPath e) = Some (json_Marshal e)"
    then have "(EPath e, json_Marshal e) \<in> set (folder_rows db f)"
      by (auto simp: select_manifest_folder_rows [OF keys] dest: map_of_SomeD)
    then have "(EPath e, json_Marshal e) \<in> set (zip (map EPath es) (map json_Marshal es))" by (simp add: rows)
    then obtain e' where "e' \<in> set es" "json_Marshal e' = json_Marshal e"
      by (auto simp: zipped)
    with e es(2) manifest.enc_inject show "e \<in> set es" by blast
  qed
  moreover have "sorted (map EPath es)" "distinct (map EPath es)"
    using dist by (simp_all add: es(3) sorted_map_same distinct_map)
  ultimately show thesis using that list_rows_ok [OF assms es(1,2)] by blast
qed


theorem Store_List_exact:
  assumes "index_ok (wdb w)" "quiet w"
  shows "\<exists>es. Store_List f w = (Inr es, w) \<and> sorted (map EPath es) \<and> distinct (map EPath es)
     \<and> (\<forall>e. e \<in> set es \<longleftrightarrow> ValidateEntry e = Inr () \<and> select_manifest (wdb w) f (EPath e) = Some (json_Marshal e))"
proof -
  obtain es where es: "list_rows (select_folder (wdb w) f) [] 2 = Inr es" "sorted (map EPath es)" "distinct (map EPath es)"
    "\<And>e. e \<in> set es \<longleftrightarrow> valid_entry e \<and> select_manifest (wdb w) f (EPath e) = Some (json_Marshal e)"
    by (rule listing_exact [OF assms(1), of f]) (rule that)
  have "Store_List f w = (Inr es, w)"
    using es(1) assms(2) by (simp add: Store_List_def run_simps sql_query_quiet)
  with es(2-4) show ?thesis by (auto simp: valid_entry_def)
qed

theorem Store_List_exact_witness:
  "\<exists>es. Store_List ''f'' demo_world = (Inr es, demo_world) \<and> sorted (map EPath es) \<and> distinct (map EPath es)
     \<and> (\<forall>e. e \<in> set es \<longleftrightarrow> ValidateEntry e = Inr () \<and>
            select_manifest (wdb demo_world) ''f'' (EPath e) = Some (json_Marshal e))"
  by (rule Store_List_exact) (simp_all add: demo_calm(2), simp add: demo_world_def index_ok_empty)

text \<open>The budget.\<close>

text \<open>C13. The budget query of checkCapacity answers success exactly when the insertion of that entry
  would pass the CHECK constraints through the triggers.\<close>

theorem checkCapacity_exact:
  assumes "db_inv (wdb w)" "quiet w"
  shows "(fst (checkCapacity f e w) = Inr ()) = (\<exists>d. upsert_row f (EPath e) (json_Marshal e) (wdb w) = Inr d)"
  using upsert_row_capacity [OF assms(1), of f "EPath e" "json_Marshal e"] assms(2)
    capacity_after_nonneg [OF assms(1), of f "EPath e" "json_Marshal e"]
  by (auto simp: checkCapacity_def run_simps sql_query_quiet usage_check_def split: prod.splits)

theorem checkCapacity_exact_witness:
  "(fst (checkCapacity ''f'' (entry_of ''b'' 420 ''new'') demo_world) = Inr ()) =
   (\<exists>d. upsert_row ''f'' (EPath (entry_of ''b'' 420 ''new'')) (json_Marshal (entry_of ''b'' 420 ''new'')) (wdb demo_world) = Inr d)"
  by (rule checkCapacity_exact [OF _ demo_calm(2)]) (simp add: demo_world_def db_inv_empty)

section \<open>Blocks\<close>

text \<open>C12. ReadBlock never changes the index, and what it returns is a block of the file entry the index
  holds under that name and hash, with exactly the size and the hash the request names.\<close>

theorem ReadBlock_serves_indexed:
  "case Store_ReadBlock f root name h b w of
     (Inl err, w') \<Rightarrow> wdb w' = wdb w
   | (Inr data, w') \<Rightarrow> wdb w' = wdb w \<and> int (length data) = BSize b \<and> hashBytes data = BHash b
       \<and> (\<exists>raw e. select_manifest (wdb w) f name = Some raw \<and> json_Unmarshal raw = Some e
            \<and> ValidateEntry e = Inr () \<and> EKind e = ''file'' \<and> EHash e = h \<and> b \<in> set (EBlocks e))"
proof -
  have fr: "within same_index (Store_ReadBlock f root name h b)"
    unfolding Store_ReadBlock_def
    by (intro frame.reads frame.store_get_within frame.openFolder_within frame.checkComponents_within)
  obtain res w' where run: "Store_ReadBlock f root name h b w = (res, w')" by fastforce
  show ?thesis
  proof (cases res)
    case (Inl err)
    with run withinD [OF fr run] show ?thesis by simp
  next
    case (Inr data)
    obtain raw e where "select_manifest (wdb w) f name = Some raw" "json_Unmarshal raw = Some e"
      "valid_entry e" "EKind e = ''file''" "EHash e = h" "b \<in> set (EBlocks e)" "piece_ok b data"
      by (rule Store_ReadBlock_Inr [OF run [unfolded Inr]])
    moreover have "wdb w' = wdb w" using withinD [OF fr run] by simp
    ultimately show ?thesis using run Inr by (auto simp: piece_ok_def valid_entry_def)
  qed
qed

section \<open>Opening\<close>

lemma db_QueryRow_keeps: "db_QueryRow g w = (res, w') \<Longrightarrow> wdb w' = wdb w \<and> (\<forall>x. res = Inr x \<longrightarrow> g (wdb w) = Inr x)"
  by (auto simp: db_QueryRow_def split: prod.splits option.splits)

lemma db_Exec_commits: "commits (\<lambda>_. u) (db_Exec u)"
  by (auto simp: commits_def db_Exec_def split: prod.splits option.splits sum.splits)

text \<open>
  \<open>opened w res w'\<close>: what \<open>Open\<close> promises when it ends in \<open>w'\<close> with the outcome \<open>res\<close>. After a
  success a folder with rows has exactly their count and size as counters, within the limits; the
  counters of a folder without rows are the ones that were there, so that the whole index is well
  formed exactly if those were zero.
\<close>

definition opened :: "world \<Rightarrow> error + unit \<Rightarrow> world \<Rightarrow> bool" where
  "opened w res w' \<longleftrightarrow> entries_tbl (wdb w') = entries_tbl (wdb w)
     \<and> (db_inv (wdb w) \<longrightarrow> db_inv (wdb w'))
     \<and> (res = Inr () \<longrightarrow> user_version (wdb w) \<in> {0, 1} \<and> user_version (wdb w') = 1
          \<and> (\<forall>f. if folder_rows (wdb w) f = [] then map_of (folder_usage (wdb w')) f = map_of (folder_usage (wdb w)) f
                 else map_of (folder_usage (wdb w')) f = Some (usage_of (wdb w) f) \<and> usage_check (usage_of (wdb w) f))
          \<and> (db_inv (wdb w') \<longleftrightarrow> keys_ok (wdb w) \<and> nothing_stale (wdb w)))"

lemma opened_exec:
  assumes "bind (db_Exec recount_usage) (\<lambda>_. db_Exec (set_user_version 1)) w = (res, w')"
    "user_version (wdb w) \<in> {0, 1}"
  shows "opened w res w'"
proof -
  obtain r w1 where r: "db_Exec recount_usage w = (r, w1)" by fastforce
  show ?thesis
  proof (cases r)
    case (Inl err)
    with r assms(1) have "res = Inl err" "w' = w1" by (simp_all add: run_simps)
    with commits_Inl [OF db_Exec_commits r [unfolded Inl]] show ?thesis by (simp add: opened_def)
  next
    case (Inr u)
    have rec: "recount_usage (wdb w) = Inr (wdb w1)" using commits_Inr [OF db_Exec_commits r [unfolded Inr]] .
    note rows = recount_usage_Inr [OF rec] and inv = recount_usage_inv [OF rec] db_inv_nothing_stale [of "wdb w"]
    have last: "db_Exec (set_user_version 1) w1 = (res, w')" using assms(1) r Inr by (simp add: run_simps)
    show ?thesis
    proof (cases res)
      case (Inl err)
      with last rows(1) inv commits_Inl [OF db_Exec_commits last [unfolded Inl]] show ?thesis
        by (auto simp: opened_def)
    next
      case (Inr v)
      have "wdb w' = (wdb w1)\<lparr>user_version := 1\<rparr>"
        using commits_Inr [OF db_Exec_commits last [unfolded Inr]] by (simp add: set_user_version_def)
      with rows inv assms(2) show ?thesis by (auto simp: opened_def db_inv_version)
    qed
  qed
qed

lemma opened_bind:
  assumes "within same_index m" "bind m g w = (res, w')"
    "\<And>x w1. m w = (Inr x, w1) \<Longrightarrow> g x w1 = (res, w') \<Longrightarrow> wdb w1 = wdb w \<Longrightarrow> opened w1 res w'"
  shows "opened w res w'"
proof -
  obtain r w1 where r: "m w = (r, w1)" by fastforce
  have db: "wdb w1 = wdb w" using withinD [OF assms(1) r] by simp
  show ?thesis
  proof (cases r)
    case (Inl err)
    with r assms(2) db show ?thesis by (auto simp: opened_def run_simps)
  next
    case (Inr x)
    with assms(2) r have "g x w1 = (res, w')" by (simp add: run_simps)
    with assms(3) [OF r [unfolded Inr] _ db] have "opened w1 res w'" .
    then show ?thesis unfolding opened_def db .
  qed
qed

lemma Store_Open_opened: "opened w (fst (Store_Open dir w)) (snd (Store_Open dir w))"
proof -
  have q: "within same_index (db_QueryRow f)" for f :: "database \<Rightarrow> error + int"
    by (simp add: within_def db_QueryRow_keeps [OF surjective_pairing])
  show ?thesis unfolding Store_Open_def
  proof (rule opened_bind [OF within_sys_db surjective_pairing], elim opened_bind [OF within_sys_db] opened_bind [OF q])
    fix w1 w2 w3 w4 :: world and v res w'
    assume v: "db_QueryRow (\<lambda>db. Inr (user_version db)) w3 = (Inr v, w4)"
      and db: "wdb w1 = wdb w" "wdb w2 = wdb w1" "wdb w3 = wdb w2" "wdb w4 = wdb w3"
      and rest: "bind (fail_if (v \<noteq> 0 \<and> v \<noteq> 1) (Errorf ''unsupported database schema version %d'' [show_int v]))
        (\<lambda>_. bind (db_Exec recount_usage) (\<lambda>_. db_Exec (set_user_version 1))) w4 = (res, w')"
    have ver: "user_version (wdb w4) = v" using db_QueryRow_keeps [OF v] by simp
    show "opened w4 res w'"
    proof (rule opened_bind [OF within_fail_if [OF frame.pre] rest])
      fix u w5
      assume "fail_if (v \<noteq> 0 \<and> v \<noteq> 1) (Errorf ''unsupported database schema version %d'' [show_int v]) w4 = (Inr u, w5)"
        and exec: "bind (db_Exec recount_usage) (\<lambda>_. db_Exec (set_user_version 1)) w5 = (res, w')"
        and "wdb w5 = wdb w4"
      with ver db show "opened w5 res w'"
        by (intro opened_exec [OF exec]) (auto simp: fail_if_Inr)
    qed
  qed
qed

text \<open>C14. Opening an index never changes its entries and keeps a well-formed index well formed. When
  Open succeeds the schema version was 0 or 1 and is 1 afterwards, the counters of every folder that
  has entries are exact and within the limits, also for an index written before the counters
  existed, and the counters of folders without entries are left as they were: the index is then well
  formed exactly if no two entries had the same key and no counter of a folder without entries was
  other than zero.\<close>

theorem Store_Open_migrates: "opened w (fst (Store_Open dir w)) (snd (Store_Open dir w))"
  by (rule Store_Open_opened)

end
