(* ===== verification/Daemon.thy ===== *)
theory Daemon
  imports Enrolment Configured Folder
begin

text \<open>
  \<^verbatim>\<open>internal/daemon/daemon.go\<close>: the status of the folders, the scans of local folders, the replication
  of remote ones, and the answers to peers. The text of an error stands as the error itself.
\<close>

section \<open>State\<close>

record FolderStatus =
  Source :: string
  Entries :: int
  LastSuccess :: "int option"
  LastError :: "error option"
  TotalReceived :: int
  TotalReused :: int

record Status =
  Running :: bool
  DeviceID :: string
  StatusListen :: string
  Stage :: string
  Folders :: "string \<rightharpoonup> FolderStatus"

datatype log_line = Started string string | Paused string error | Recovered string | Synchronized string Stats

text \<open>The fields of the Go \<open>Daemon\<close>; the store is the machine it runs on.\<close>

record Daemon =
  dcfg :: Config
  did :: Identity
  dstatus :: Status
  dlog :: "log_line list"
  dworld :: world

abbreviation on_machine :: "(world, 'a) io \<Rightarrow> (Daemon, 'a) io" where
  "on_machine \<equiv> zoom dworld (\<lambda>w d. d\<lparr>dworld := w\<rparr>)"

interpretation machine_of: substate dworld "\<lambda>w d. d\<lparr>dworld := w\<rparr>"
  by unfold_locales simp_all

text \<open>The addition of two \<open>int64\<close>.\<close>

definition add64 :: "int \<Rightarrow> int \<Rightarrow> int" where
  "add64 a b = (a + b + 2 ^ 63) mod 2 ^ 64 - 2 ^ 63"

section \<open>Status\<close>

definition zero_status :: FolderStatus where
  "zero_status = \<lparr>Source = [], Entries = 0, LastSuccess = None, LastError = None, TotalReceived = 0, TotalReused = 0\<rparr>"

definition folder_status :: "Status \<Rightarrow> string \<Rightarrow> FolderStatus" where
  "folder_status st i = (case Folders st i of Some s \<Rightarrow> s | None \<Rightarrow> zero_status)"

text \<open>The new status of one folder at the time \<open>now\<close>.\<close>

definition updated :: "FolderStatus \<Rightarrow> int \<Rightarrow> Stats \<Rightarrow> error option \<Rightarrow> int \<Rightarrow> FolderStatus" where
  "updated s entries_n x err now =
     (case err of
        Some e \<Rightarrow> s\<lparr>LastError := Some e\<rparr>
      | None \<Rightarrow> s\<lparr>LastError := None, LastSuccess := Some now, Entries := entries_n,
                  TotalReceived := add64 (TotalReceived s) (BytesReceived x),
                  TotalReused := add64 (TotalReused s) (BytesReused x)\<rparr>)"

definition update_log :: "string \<Rightarrow> error option \<Rightarrow> Stats \<Rightarrow> error option \<Rightarrow> log_line list" where
  "update_log i previousError x err =
     (case err of
        Some e \<Rightarrow> (if previousError \<noteq> Some e then [Paused i e] else [])
      | None \<Rightarrow> (if previousError \<noteq> None then [Recovered i] else []) @ (if Stats.Files x > 0 then [Synchronized i x] else []))"

definition update :: "string \<Rightarrow> int \<Rightarrow> Stats \<Rightarrow> error option \<Rightarrow> (Daemon, unit) io" where
  "update i entries_n x err =
     bind (on_machine time_Now) (\<lambda>now.
     modify (\<lambda>d. let s = folder_status (dstatus d) i in
       d\<lparr>dstatus := (dstatus d)\<lparr>Folders := (Folders (dstatus d))(i \<mapsto> updated s entries_n x err now)\<rparr>,
         dlog := dlog d @ update_log i (LastError s) x err\<rparr>))"

section \<open>Scans\<close>

definition sortedFolders :: "(string \<times> config_Folder) list \<Rightarrow> string list" where
  "sortedFolders folders = sort (map fst folders)"

fun scan_folders :: "string list \<Rightarrow> (Daemon, unit) io" where
  "scan_folders [] = return ()"
| "scan_folders (i # ids) =
     bind get_state (\<lambda>d. let f = folder_named (dcfg d) i in
     if FSource f \<noteq> ''local'' then scan_folders ids
     else
       bind (attempt (on_machine (Scan i (FPath f)))) (\<lambda>res.
       bind (case res of
               Inl err \<Rightarrow> update i 0 zero_stats (Some err)
             | Inr entries \<Rightarrow> update i (int (length entries)) zero_stats None) (\<lambda>_.
       bind (attempt (on_machine ctx_Err)) (\<lambda>ended.
       case ended of Inl err \<Rightarrow> return () | Inr _ \<Rightarrow> scan_folders ids))))"

definition Daemon_scan :: "(Daemon, unit) io" where
  "Daemon_scan = bind get_state (\<lambda>d. scan_folders (sortedFolders (CFolders (dcfg d))))"

section \<open>Replication\<close>

definition add_stats :: "Stats \<Rightarrow> Stats \<Rightarrow> Stats" where
  "add_stats acc x = \<lparr>Files = add64 (Stats.Files acc) (Stats.Files x),
     BytesReceived = add64 (BytesReceived acc) (BytesReceived x),
     BytesReused = add64 (BytesReused acc) (BytesReused x)\<rparr>"

text \<open>The loop over the entries of a listing: the sum of the statistics, and the error that ended it.\<close>

fun apply_entries :: "config_Folder \<Rightarrow> Entry list \<Rightarrow> Stats \<Rightarrow> (world, Stats \<times> error option) io" where
  "apply_entries f [] acc = return (acc, None)"
| "apply_entries f (e # es) acc =
     bind (attempt (Apply (FID f) (FPath f) e (Some (client_ReadBlock (FID f) (EPath e) (EHash e))))) (\<lambda>res.
     bind get_state (\<lambda>w.
     case res of
       Inl err \<Rightarrow> return (acc, Some err)
     | Inr _ \<Rightarrow> apply_entries f es (add_stats acc (stats w))))"

text \<open>
  One folder in one round of \<open>replicate\<close>. \<open>client\<close> tells whether a connection is open, the result
  whether one is open afterwards, and what \<open>update\<close> gets.
\<close>

definition sync_folder :: "Identity \<Rightarrow> config_Peer \<Rightarrow> config_Folder \<Rightarrow> bool \<Rightarrow> (world, bool \<times> int \<times> Stats \<times> error option) io" where
  "sync_folder i peer f client =
     bind (attempt (CheckFolder (FPath f) (FID f))) (\<lambda>checked.
     case checked of
       Inl err \<Rightarrow> return (client, 0, zero_stats, Some err)
     | Inr _ \<Rightarrow>
         bind (attempt (if client then return () else client_Dial (Some (ClientTLS i (PDeviceID peer))))) (\<lambda>dialed.
         case dialed of
           Inl err \<Rightarrow> return (False, 0, zero_stats, Some err)
         | Inr _ \<Rightarrow>
             bind (attempt (client_List (FID f))) (\<lambda>listed.
             bind (case listed of
                     Inl err \<Rightarrow> return (0, zero_stats, Some err)
                   | Inr entries \<Rightarrow>
                       bind (apply_entries f (sort_key EPath entries) zero_stats) (\<lambda>(acc, err).
                       return (int (length entries), acc, err))) (\<lambda>(entries_n, acc, err).
             case err of
               Some e \<Rightarrow> bind Conn_Close (\<lambda>_. return (False, entries_n, acc, err))
             | None \<Rightarrow> return (True, entries_n, acc, err)))))"

fun replicate_folders :: "config_Peer \<Rightarrow> config_Folder list \<Rightarrow> bool \<Rightarrow> (Daemon, bool) io" where
  "replicate_folders peer [] client = return client"
| "replicate_folders peer (f # fs) client =
     bind get_state (\<lambda>d.
     bind (on_machine (sync_folder (did d) peer f client)) (\<lambda>(client', entries_n, acc, err).
     bind (update (FID f) entries_n acc err) (\<lambda>_.
     replicate_folders peer fs client')))"

text \<open>
  The loop of \<open>replicate\<close> for at most \<open>n\<close> rounds; between two rounds other processes may act. The
  result tells whether the context ended it.
\<close>

definition next_tick :: "(world, unit) io" where
  "next_tick = (\<lambda>w. (Inr (), snd (tick w)))"

fun replicate_rounds :: "nat \<Rightarrow> config_Peer \<Rightarrow> config_Folder list \<Rightarrow> bool \<Rightarrow> (Daemon, bool) io" where
  "replicate_rounds 0 peer fs client = return False"
| "replicate_rounds (Suc n) peer fs client =
     bind (attempt (on_machine ctx_Err)) (\<lambda>ended.
     case ended of
       Inl err \<Rightarrow> bind (do_if client (on_machine Conn_Close)) (\<lambda>_. return True)
     | Inr _ \<Rightarrow>
         bind (replicate_folders peer fs client) (\<lambda>client'.
         bind (on_machine next_tick) (\<lambda>_.
         replicate_rounds n peer fs client')))"

text \<open>The folders that \<open>Run\<close> gives to the worker of a peer.\<close>

definition folders_from :: "Config \<Rightarrow> string \<Rightarrow> config_Folder list" where
  "folders_from c name = filter (\<lambda>f. FSource f = name) (map (folder_named c) (sortedFolders (CFolders c)))"

section \<open>Requests of peers\<close>

definition access_denied :: error where
  "access_denied = Errorf ''folder access denied'' []"

definition authorize :: "Config \<Rightarrow> Status \<Rightarrow> string \<Rightarrow> string \<Rightarrow> (world, config_Folder) io" where
  "authorize c st peerID folderID =
     (case map_of (CFolders c) folderID of
        None \<Rightarrow> throw access_denied
      | Some f \<Rightarrow>
          bind (fail_if (\<not> list_ex (\<lambda>name. PDeviceID (peer_named c name) = peerID) (FPeers f)) access_denied) (\<lambda>_.
          bind (CheckFolder (FPath f) (FID f)) (\<lambda>_.
          bind (fail_if (FSource f = ''local''
                         \<and> (LastSuccess (folder_status st folderID) = None \<or> LastError (folder_status st folderID) \<noteq> None))
                  (Errorf ''source scan is not available'' [])) (\<lambda>_.
          return f))))"

definition Daemon_List :: "Config \<Rightarrow> Status \<Rightarrow> string \<Rightarrow> string \<Rightarrow> (world, Entry list) io" where
  "Daemon_List c st peerID folderID = bind (authorize c st peerID folderID) (\<lambda>_. Store_List folderID)"

definition Daemon_ReadBlock :: "Config \<Rightarrow> Status \<Rightarrow> string \<Rightarrow> string \<Rightarrow> string \<Rightarrow> string \<Rightarrow> Block \<Rightarrow> (world, bytes) io" where
  "Daemon_ReadBlock c st peerID folderID name entryHash b =
     bind (authorize c st peerID folderID) (\<lambda>f. Store_ReadBlock folderID (FPath f) name entryHash b)"

text \<open>The daemon as the backend of the transport, in the status at the time of the request.\<close>

definition daemon_backend :: "Config \<Rightarrow> Status \<Rightarrow> Backend" where
  "daemon_backend c st = \<lparr>backend_List = Daemon_List c st, backend_ReadBlock = Daemon_ReadBlock c st\<rparr>"

definition allowed_devices :: "Config \<Rightarrow> string list" where
  "allowed_devices c = map (\<lambda>(name, p). PDeviceID p) (CPeers c)"

end
