(* ===== verification/Locking.thy ===== *)
theory Locking
  imports Daemon
begin

text \<open>
  The start of a daemon: \<^verbatim>\<open>internal/daemon/lock_linux.go\<close>, \<^verbatim>\<open>internal/daemon/lock_other.go\<close>, and \<open>New\<close> and
  \<open>Close\<close> of \<^verbatim>\<open>internal/daemon/daemon.go\<close>. An advisory lock belongs to the inode of the lock file.
\<close>

section \<open>Advisory locks\<close>

text \<open>A machine with the inodes that some process holds locked.\<close>

record host =
  hworld :: world
  held :: "nat set"

abbreviation on_host :: "(world, 'a) io \<Rightarrow> (host, 'a) io" where
  "on_host \<equiv> zoom hworld (\<lambda>w h. h\<lparr>hworld := w\<rparr>)"

interpretation host_of: substate hworld "\<lambda>w h. h\<lparr>hworld := w\<rparr>"
  by unfold_locales simp_all

text \<open>\<open>os.OpenFile\<close> with \<open>O_CREATE|O_RDWR\<close>.\<close>

definition fs_open_create :: "nat \<Rightarrow> string list \<Rightarrow> 32 word \<Rightarrow> fsys \<Rightarrow> (error + handle) \<times> fsys" where
  "fs_open_create r p m s =
     (case lookup_node (trees s r) p of
        Inl e \<Rightarrow> (if e = NotExist then fs_create_excl r p m s else (Inl e, s))
      | Inr (File i) \<Rightarrow> (Inr (HFile i), s)
      | Inr (Dir m' es) \<Rightarrow> (Inl (IOError ''is a directory''), s)
      | Inr (Symlink t) \<Rightarrow> (Inl LinkInPath, s)
      | Inr Special \<Rightarrow> (Inl (IOError ''no such device or address''), s))"

definition locked_inode :: "handle \<Rightarrow> nat option" where
  "locked_inode f = (case f of HFile i \<Rightarrow> Some i | _ \<Rightarrow> None)"

text \<open>\<open>syscall.Flock(fd, LOCK_EX|LOCK_NB)\<close>, and the close of the file, which releases the lock.\<close>

definition Flock :: "handle \<Rightarrow> (host, unit) io" where
  "Flock f = bind get_state (\<lambda>h.
     case locked_inode f of
       None \<Rightarrow> throw (IOError ''bad file descriptor'')
     | Some i \<Rightarrow>
         (if i \<in> held h then throw (IOError ''resource temporarily unavailable'')
          else bind (on_host (sys (\<lambda>s. (Inr (), s)))) (\<lambda>_. modify (\<lambda>h. h\<lparr>held := insert i (held h)\<rparr>))))"

definition Unlock :: "handle \<Rightarrow> (host, unit) io" where
  "Unlock f = modify (\<lambda>h. h\<lparr>held := held h - set_option (locked_inode f)\<rparr>)"

definition LockState :: "string \<Rightarrow> (host, handle) io" where
  "LockState stateDir =
     bind (on_host (os_MkdirAll stateDir 448)) (\<lambda>_.
     bind (on_host (sys (in_dir stateDir (\<lambda>r. fs_open_create r [''daemon.lock''] 384)))) (\<lambda>f.
     bind (attempt (Flock f)) (\<lambda>locked.
     case locked of
       Inl err \<Rightarrow> throw (Wrap ''state directory is already in use'' err)
     | Inr _ \<Rightarrow> return f)))"

text \<open>Other systems than Linux.\<close>

definition LockState_other :: "string \<Rightarrow> (host, handle) io" where
  "LockState_other stateDir = throw (Errorf ''the stage-one daemon currently supports Linux only'' [])"

section \<open>New and Close\<close>

definition new_status :: "Config \<Rightarrow> Identity \<Rightarrow> Status" where
  "new_status c i = \<lparr>Running = False, DeviceID = ID i, StatusListen = [], Stage = ''single-writer-v1'',
     Folders = map_of (map (\<lambda>(name, f). (name, zero_status\<lparr>Source := FSource f\<rparr>)) (CFolders c))\<rparr>"

definition Daemon_New :: "crypto \<Rightarrow> paths \<Rightarrow> Config \<Rightarrow> (host, Identity \<times> Status \<times> handle) io" where
  "Daemon_New K os c =
     bind (lift_sum (Validate os c)) (\<lambda>_.
     bind (LockState (StateDir c)) (\<lambda>lock.
     bind (attempt (on_host (identity_Load K (StateDir c)))) (\<lambda>loaded.
     case loaded of
       Inl err \<Rightarrow> bind (Unlock lock) (\<lambda>_. throw (Wrap ''load identity (run backuply init first)'' err))
     | Inr i \<Rightarrow>
         bind (attempt (on_host (Store_Open (StateDir c)))) (\<lambda>opened.
         case opened of
           Inl err \<Rightarrow> bind (Unlock lock) (\<lambda>_. throw err)
         | Inr _ \<Rightarrow> return (i, new_status c i, lock)))))"

text \<open>The daemon that \<open>New\<close> returns, its store and its lock apart.\<close>

definition new_daemon :: "Config \<Rightarrow> Identity \<times> Status \<times> handle \<Rightarrow> world \<Rightarrow> Daemon" where
  "new_daemon c x w = (case x of (i, st, lock) \<Rightarrow> \<lparr>dcfg = c, did = i, dstatus = st, dlog = [], dworld = w\<rparr>)"

definition Daemon_Close :: "handle \<Rightarrow> (host, unit) io" where
  "Daemon_Close lock = Unlock lock"

section \<open>One process per state directory\<close>

text \<open>The inode of the lock file of a state directory.\<close>

definition lock_file :: "string \<Rightarrow> fsys \<Rightarrow> nat option" where
  "lock_file dir s = (case mounts s dir of None \<Rightarrow> None | Some r \<Rightarrow> file_ino (trees s r) [''daemon.lock''])"

text \<open>Nobody removes or replaces a lock file that exists.\<close>

definition lock_kept :: "string \<Rightarrow> fsys \<Rightarrow> fsys \<Rightarrow> bool" where
  "lock_kept dir s s' \<longleftrightarrow> (lock_file dir s \<noteq> None \<longrightarrow> lock_file dir s' = lock_file dir s)"

lemma lock_kept_simps: "lock_file dir s = Some n \<Longrightarrow> lock_kept dir s s' \<longleftrightarrow> lock_file dir s' = Some n"
  by (simp add: lock_kept_def)

lemma preorder_lock_kept [simp, intro]: "preorder_rel (lock_kept dir)"
  unfolding preorder_rel_def by (rule conjI) (auto intro!: reflpI transpI simp: lock_kept_def)

lemma make_root_lock_kept: "lock_kept dir s (snd (fs_make_root dir m s))"
  by (auto simp: lock_kept_def lock_file_def fs_make_root_def split: option.splits node.splits)

lemma open_create_keeps: "file_ino (trees s r) p = Some n \<Longrightarrow> fs_open_create r p m s = (Inr (HFile n), s)"
  by (auto simp: file_ino_def fs_open_create_def split: sum.splits node.splits)

lemma open_create_file:
  assumes "fs_open_create r [x] m s = (Inr f, s')"
  shows "\<exists>n. f = HFile n \<and> file_ino (trees s' r) [x] = Some n \<and> mounts s' = mounts s"
proof (cases "lookup_node (trees s r) [x]")
  case (Inl e)
  with assms have new: "fs_create_excl r [x] m s = (Inr f, s')" by (simp add: fs_open_create_def split: if_splits)
  then obtain s1 where l: "fs_link_new r [x] (File (next_inode s)) s = (Inr (), s1)" "f = HFile (next_inode s)"
      "trees s' = trees s1" "mounts s' = mounts s1"
    by (auto simp: fs_create_excl_def Let_def set_inode_def split: prod.splits sum.splits)
  from l(1) Inl obtain m' es where "trees s r = Dir m' es" "s1 = set_tree r (update_node (trees s r) [x] (Some (File (next_inode s)))) s"
    by (cases "trees s r") (auto simp: fs_link_new_def parent_of_def)
  then show ?thesis using l by (simp add: set_tree_def file_ino_def update_conv')
next
  case (Inr n)
  with assms show ?thesis by (cases n) (auto simp: fs_open_create_def file_ino_def)
qed

lemma open_lock:
  assumes "in_dir dir (\<lambda>r. fs_open_create r [''daemon.lock''] m) s = (Inr f, s')"
  shows "\<exists>n. f = HFile n \<and> lock_file dir s' = Some n"
  using assms open_create_file by (fastforce simp: in_dir_def lock_file_def split: option.splits)

lemma open_lock_kept: "lock_kept dir s (snd (in_dir dir (\<lambda>r. fs_open_create r [''daemon.lock''] m) s))"
  by (auto simp: lock_kept_def lock_file_def in_dir_def open_create_keeps split: option.splits)

text \<open>The identity and the index are opened without touching the lock file.\<close>

lemma identity_Load_within: "preorder_rel P \<Longrightarrow> within (fs_rel P) (identity_Load K dir)"
  unfolding identity_Load_def check_identity_file_def LoadX509KeyPair_def
  by (intro within_intros preorder_fs_rel within_sys_fs)
     (simp_all add: in_dir_keeps fs_lstat_keeps fs_read_file_keeps preorder_rel_refl)

lemma within_db_calls_fs: 
  assumes "preorder_rel P"
  shows "within (fs_rel P) (db_QueryRow g)" "within (fs_rel P) (db_Exec u)"
  by (rule within_tick_fs [OF assms], auto simp: db_QueryRow_def db_Exec_def split: prod.split option.split sum.split)+

lemma Store_Open_lock_kept: "within (fs_rel (lock_kept dir)) (Store_Open dir)"
  unfolding Store_Open_def
  by (intro within_intros preorder_fs_rel preorder_lock_kept within_sys_fs within_db_calls_fs make_root_lock_kept)
     simp_all

definition keeps_lock :: "string \<Rightarrow> host \<Rightarrow> host \<Rightarrow> bool" where
  "keeps_lock dir h h' \<longleftrightarrow> fs_rel (lock_kept dir) (hworld h) (hworld h') "

lemma preorder_keeps_lock [simp, intro]: "preorder_rel (keeps_lock dir)"
  unfolding keeps_lock_def [abs_def] preorder_rel_def
  using preorder_fs_rel [OF preorder_lock_kept, of dir] unfolding preorder_rel_def
  by (auto intro!: reflpI transpI dest: reflpD transpD)

lemma on_host_keeps_lock: "within (fs_rel (lock_kept dir)) m \<Longrightarrow> within (keeps_lock dir) (on_host m)"
  unfolding keeps_lock_def by (rule host_of.within_zoom)

lemma within_Flock: "within (keeps_lock dir) (Flock f)" "within (keeps_lock dir) (Unlock f)"
proof -
  have m: "within (keeps_lock dir) (modify (\<lambda>h. h\<lparr>held := X h\<rparr>))" for X
    by (simp add: within_def keeps_lock_def)
  have n: "within (keeps_lock dir) (on_host (sys (\<lambda>s. (Inr (), s))))"
    by (rule on_host_keeps_lock, rule within_sys_fs) simp_all
  show "within (keeps_lock dir) (Flock f)" unfolding Flock_def by (intro within_intros m n preorder_keeps_lock)
  show "within (keeps_lock dir) (Unlock f)" unfolding Unlock_def by (rule m)
qed

lemma LockState_keeps_lock: "within (keeps_lock dir) (LockState dir)"
  unfolding LockState_def
  by (intro within_intros preorder_keeps_lock on_host_keeps_lock within_sys_fs preorder_lock_kept
      make_root_lock_kept open_lock_kept within_Flock)

lemma keeps_lockD:
  assumes "within (keeps_lock dir) m" "m h = (res, h')" "rely (lock_kept dir) (hworld h)"
  shows "rely (lock_kept dir) (hworld h')" "lock_kept dir (wfs (hworld h)) (wfs (hworld h'))"
  using withinD [OF assms(1,2)] assms(3) consumes_rely by (auto simp: keeps_lock_def fs_rel_def)

lemma Flock_held: "n \<in> held h \<Longrightarrow> Flock (HFile n) h = (Inl (IOError ''resource temporarily unavailable''), h)"
  by (simp add: Flock_def locked_inode_def run_bind)

lemma Flock_Inr: "Flock (HFile n) h = (Inr (), h') \<Longrightarrow> n \<notin> held h \<and> held h' = insert n (held h)"
  by (auto simp: Flock_def locked_inode_def run_bind zoom_eq split: if_splits sum.splits prod.splits)

text \<open>Either the lock file cannot be opened, or \<open>Flock\<close> on it decides.\<close>

lemma LockState_opened:
  assumes "LockState dir h = (res, h')"
  obtains err where "res = Inl err" "held h' = held h"
  | n h2 r where "lock_file dir (wfs (hworld h2)) = Some n" "held h2 = held h" "Flock (HFile n) h2 = (r, h')"
      "res = (case r of Inl err \<Rightarrow> Inl (Wrap ''state directory is already in use'' err) | Inr _ \<Rightarrow> Inr (HFile n))"
      "rely (lock_kept dir) (hworld h) \<Longrightarrow> rely (lock_kept dir) (hworld h2) \<and> lock_kept dir (wfs (hworld h)) (wfs (hworld h2))"
proof -
  let ?mk = "on_host (os_MkdirAll dir 448)" and ?op = "on_host (sys (in_dir dir (\<lambda>r. fs_open_create r [''daemon.lock''] 384)))"
  obtain r2 h2 where run: "bind ?mk (\<lambda>_. ?op) h = (r2, h2)" by fastforce
  then have held: "held h2 = held h" by (auto simp: run_bind zoom_eq split: prod.splits sum.splits)
  have kept: "within (keeps_lock dir) (bind ?mk (\<lambda>_. ?op))"
    by (intro within_intros preorder_keeps_lock on_host_keeps_lock within_sys_fs preorder_lock_kept make_root_lock_kept open_lock_kept)
  have step: "LockState dir h = (case r2 of Inl err \<Rightarrow> (Inl err, h2) | Inr f \<Rightarrow>
      bind (attempt (Flock f)) (\<lambda>locked. case locked of
         Inl err \<Rightarrow> throw (Wrap ''state directory is already in use'' err) | Inr _ \<Rightarrow> return f) h2)"
    using run by (auto simp: LockState_def run_bind split: prod.splits sum.splits)
  show ?thesis
  proof (cases r2)
    case (Inl err)
    with step assms held that(1) show ?thesis by simp
  next
    case (Inr f)
    with run obtain h1 where "?op h1 = (Inr f, h2)" by (auto elim: bind_eq_InrE)
    then obtain n where n: "f = HFile n" "lock_file dir (wfs (hworld h2)) = Some n"
      using sys_Inr open_lock by (fastforce simp: zoom_eq)
    obtain r where fl: "Flock (HFile n) h2 = (r, h')" 
      and r: "res = (case r of Inl err \<Rightarrow> Inl (Wrap ''state directory is already in use'' err) | Inr _ \<Rightarrow> Inr (HFile n))"
      using step assms Inr n(1) by (auto simp: run_bind run_attempt split: prod.splits sum.splits)
    show ?thesis by (rule that(2) [OF n(2) held fl r]) (use keeps_lockD [OF kept run] in simp)
  qed
qed

lemma LockState_Inr:
  assumes "LockState dir h = (Inr f, h')"
  shows "\<exists>n. f = HFile n \<and> n \<notin> held h \<and> held h' = insert n (held h)
    \<and> (rely (lock_kept dir) (hworld h) \<longrightarrow> lock_file dir (wfs (hworld h')) = Some n)"
proof (rule LockState_opened [OF assms], simp)
  fix n h2 r
  assume n: "lock_file dir (wfs (hworld h2)) = Some n" "held h2 = held h"
    and fl: "Flock (HFile n) h2 = (r, h')"
    and r: "Inr f = (case r of Inl err \<Rightarrow> Inl (Wrap ''state directory is already in use'' err) | Inr _ \<Rightarrow> Inr (HFile n))"
    and kept: "rely (lock_kept dir) (hworld h) \<Longrightarrow> rely (lock_kept dir) (hworld h2) \<and> lock_kept dir (wfs (hworld h)) (wfs (hworld h2))"
  from r have "r = Inr ()" "f = HFile n" by (simp_all split: sum.splits)
  moreover have "lock_file dir (wfs (hworld h')) = Some n" if "rely (lock_kept dir) (hworld h)"
    using keeps_lockD(2) [OF within_Flock(1) fl] n(1) kept that by (simp add: lock_kept_def)
  ultimately show ?thesis using Flock_Inr [of n h2 h'] fl n(2) by auto
qed

lemma LockState_busy:
  assumes "rely (lock_kept dir) (hworld h)" "lock_file dir (wfs (hworld h)) = Some n" "n \<in> held h"
    "LockState dir h = (res, h')"
  shows "(\<exists>err. res = Inl err) \<and> held h' = held h"
proof (rule LockState_opened [OF assms(4)], simp)
  fix m h2 r
  assume *: "lock_file dir (wfs (hworld h2)) = Some m" "held h2 = held h" "Flock (HFile m) h2 = (r, h')"
    "res = (case r of Inl err \<Rightarrow> Inl (Wrap ''state directory is already in use'' err) | Inr _ \<Rightarrow> Inr (HFile m))"
    and kept: "rely (lock_kept dir) (hworld h) \<Longrightarrow> rely (lock_kept dir) (hworld h2) \<and> lock_kept dir (wfs (hworld h)) (wfs (hworld h2))"
  from kept [OF assms(1)] assms(2) *(1) have "m = n" by (simp add: lock_kept_def)
  then show ?thesis using * assms(3) Flock_held [of m h2] by auto
qed

text \<open>C36. While a daemon holds the lock of a state directory, no other call of New on that directory
  succeeds, whatever its configuration and however other processes use the machine, as long as the
  lock file itself is left in place; closing the daemon gives the lock back.\<close>

theorem single_instance:
  assumes "Daemon_New K os c h = (Inr (i, st, lock), h1)" "rely (lock_kept (StateDir c)) (hworld h)"
  shows "\<exists>n. lock = HFile n \<and> n \<notin> held h \<and> n \<in> held h1 \<and> lock_file (StateDir c) (wfs (hworld h1)) = Some n
    \<and> (\<forall>K' os' c' h2. StateDir c' = StateDir c \<longrightarrow> rely (lock_kept (StateDir c)) (hworld h2)
         \<longrightarrow> lock_file (StateDir c) (wfs (hworld h2)) = Some n \<longrightarrow> n \<in> held h2 \<longrightarrow>
         (\<exists>err h3. Daemon_New K' os' c' h2 = (Inl err, h3) \<and> held h3 = held h2))
    \<and> (\<forall>h2. Daemon_Close lock h2 = (Inr (), h2\<lparr>held := held h2 - {n}\<rparr>))"
proof -
  let ?d = "StateDir c"
  from assms(1) obtain h0 w1 w2 where v: "LockState ?d h = (Inr lock, h0)"
    and l: "on_host (identity_Load K ?d) h0 = (Inr i, w1)" and s: "on_host (Store_Open ?d) w1 = (Inr (), h1)"
    unfolding Daemon_New_def by (auto simp: run_simps Unlock_def split: sum.splits prod.splits)
  from LockState_Inr [OF v] assms(2) obtain n where n: "lock = HFile n" "n \<notin> held h" "held h0 = insert n (held h)"
      "lock_file ?d (wfs (hworld h0)) = Some n" by blast
  note r0 = keeps_lockD(1) [OF LockState_keeps_lock v assms(2)]
  note k1 = keeps_lockD [OF on_host_keeps_lock [OF identity_Load_within [OF preorder_lock_kept]] l r0]
  note k2 = keeps_lockD [OF on_host_keeps_lock [OF Store_Open_lock_kept] s k1(1)]
  have "lock_file ?d (wfs (hworld h1)) = Some n" using k1(2) k2(2) n(4) by (simp add: lock_kept_def)
  moreover have "n \<in> held h1" using l s n(3) by (auto simp: zoom_eq)
  moreover have "\<exists>err h3. Daemon_New K' os' c' h2 = (Inl err, h3) \<and> held h3 = held h2"
    if "StateDir c' = ?d" "rely (lock_kept ?d) (hworld h2)" "lock_file ?d (wfs (hworld h2)) = Some n" "n \<in> held h2" for K' os' c' h2
    using LockState_busy [OF that(2-4), of "fst (LockState ?d h2)" "snd (LockState ?d h2)"] that(1)
    by (cases "LockState ?d h2") (auto simp: Daemon_New_def run_simps split: sum.split)
  ultimately show ?thesis using n(1,2) by (auto simp: Daemon_Close_def Unlock_def locked_inode_def)
qed

section \<open>An initialised state directory\<close>

definition demo_leaf :: certificate where
  "demo_leaf = \<lparr>Raw = [], PublicKeyAlgorithm = Ed25519, NotBefore = 0, NotAfter = 10 ^ 20,
     KeyUsage = KeyUsageDigitalSignature, SelfSigned = True\<rparr>"

definition demo_crypto :: crypto where
  "demo_crypto = toy_crypto\<lparr>ParseCertificate := (\<lambda>d. Inr demo_leaf)\<rparr>"

definition demo_host :: host where
  "demo_host = \<lparr>hworld = demo_world\<lparr>wfs := demo_fs\<lparr>mounts := [''/s'' \<mapsto> 0],
      trees := (\<lambda>_. Dir 448 [(''cert.pem'', File 1), (''key.pem'', File 2), (''daemon.lock'', File 3)]),
      inodes := (\<lambda>_. \<lparr>idata = [], imode = 384, imtime = 0\<rparr>)\<rparr>\<rparr>, held = {}\<rparr>"

lemma demo_new: "\<exists>i st h1. Daemon_New demo_crypto demo_paths demo_config demo_host = (Inr (i, st, HFile 3), h1)"
proof -
  let ?w = "hworld demo_host"
  let ?h = "demo_host\<lparr>held := {3}\<rparr>"
  have q: "quiet ?w" by (simp add: demo_host_def demo_world_def quiet_def)
  have lock: "LockState ''/s'' demo_host = (Inr (HFile 3), ?h)"
    using q by (simp add: LockState_def Flock_def locked_inode_def run_simps zoom_def sys_quiet demo_host_def in_dir_def
        fs_make_root_def fs_open_create_def)
  have "identity_Load demo_crypto ''/s'' ?w = (Inr \<lparr>Leaf = demo_leaf, PrivateKey = Ed25519Key [], ID = fingerprint_id (Raw demo_leaf)\<rparr>, ?w)"
    by (rule identity_Load_quiet [where r = 0 and m = 448 and ic = 1 and ik = 2 and der = "[]", OF q])
       (auto simp: demo_host_def demo_crypto_def toy_crypto_def validateCertificate_Inr device_certificate_def demo_fs_def demo_world_def demo_leaf_def
         KeyUsageDigitalSignature_def)
  moreover have "fst (Store_Open ''/s'' ?w) = Inr ()"
    using q by (simp add: Store_Open_def run_simps sys_quiet db_QueryRow_def db_Exec_def fs_make_root_def demo_host_def demo_fs_def
        demo_world_def empty_database_def recount_usage_def set_user_version_def usage_check_def)
  ultimately show ?thesis
    using lock demo_valid_config
    by (auto simp: Daemon_New_def demo_config_def run_simps zoom_def split: prod.split)
qed

theorem single_instance_witness:
  "\<exists>i st h1. Daemon_New demo_crypto demo_paths demo_config demo_host = (Inr (i, st, HFile 3), h1)
    \<and> lock_file ''/s'' (wfs (hworld h1)) = Some 3 \<and> 3 \<in> held h1"
proof -
  obtain i st h1 where new: "Daemon_New demo_crypto demo_paths demo_config demo_host = (Inr (i, st, HFile 3), h1)"
    using demo_new by blast
  have "StateDir demo_config = ''/s''" by (simp add: demo_config_def)
  moreover have "rely (lock_kept d) (hworld demo_host)" for d by (simp add: rely_def demo_host_def demo_world_def)
  ultimately show ?thesis using new single_instance [OF new] by auto
qed

end
