(* ===== verification/Serving.thy ===== *)
theory Serving
  imports Locking
begin

text \<open>Whom the daemon answers, and with what.\<close>

section \<open>Access\<close>

definition shares :: "Config \<Rightarrow> string \<Rightarrow> string \<Rightarrow> bool" where
  "shares c peerID i = (case map_of (CFolders c) i of
       None \<Rightarrow> False
     | Some f \<Rightarrow> \<exists>name \<in> set (FPeers f). PDeviceID (peer_named c name) = peerID)"

text \<open>A local folder is served only while its last scan succeeded.\<close>

definition scan_available :: "Config \<Rightarrow> Status \<Rightarrow> string \<Rightarrow> bool" where
  "scan_available c st i \<longleftrightarrow> FSource (folder_named c i) \<noteq> ''local'' \<or>
     (LastSuccess (folder_status st i) \<noteq> None \<and> LastError (folder_status st i) = None)"

lemma authorize_Inr:
  "authorize c st peerID i w = (Inr f, w') \<longleftrightarrow>
     shares c peerID i \<and> f = folder_named c i \<and> scan_available c st i
     \<and> CheckFolder (FPath f) (FID f) w = (Inr (), w')"
  by (auto simp: authorize_def shares_def folder_named_def scan_available_def run_bind run_fail_if list_ex_iff
      split: option.splits prod.splits sum.splits if_splits)

lemma authorize_unshared: "\<not> shares c peerID i \<Longrightarrow> authorize c st peerID i = throw access_denied"
  by (auto simp: authorize_def shares_def fun_eq_iff run_bind run_fail_if list_ex_iff split: option.splits)

lemma authorize_index: "within same_index (authorize c st peerID i)"
  unfolding authorize_def by (intro within_intros frame.CheckFolder_within; simp)

lemma Store_ReadBlock_index: "within same_index (Store_ReadBlock folder root name h b)"
  unfolding Store_ReadBlock_def
  by (intro frame.reads frame.store_get_within frame.openFolder_within frame.checkComponents_within)

text \<open>C31. A listing or a block of a folder goes only to a device that the folder lists among its peers,
  only when the folder root carries its marker and, for a local folder, only when the last scan
  succeeded; a request never changes the index.\<close>

theorem authorised_only:
  "(case Daemon_List c st peerID i w of
      (Inl err, w') \<Rightarrow> wdb w' = wdb w
    | (Inr es, w') \<Rightarrow> shares c peerID i \<and> scan_available c st i \<and> wdb w' = wdb w
        \<and> (\<exists>w1. CheckFolder (FPath (folder_named c i)) (FID (folder_named c i)) w = (Inr (), w1)))
   \<and> (case Daemon_ReadBlock c st peerID i name h b w of
      (Inl err, w') \<Rightarrow> wdb w' = wdb w
    | (Inr data, w') \<Rightarrow> shares c peerID i \<and> scan_available c st i \<and> wdb w' = wdb w
        \<and> (\<exists>w1. CheckFolder (FPath (folder_named c i)) (FID (folder_named c i)) w = (Inr (), w1)))"
proof -
  have l: "within same_index (Daemon_List c st peerID i)"
    unfolding Daemon_List_def Store_List_def
    by (intro within_intros authorize_index frame.query_rows; simp)
  have r: "within same_index (Daemon_ReadBlock c st peerID i name h b)"
    unfolding Daemon_ReadBlock_def
    by (intro within_intros authorize_index Store_ReadBlock_index; simp)
  obtain rl wl rr wr where run: "Daemon_List c st peerID i w = (rl, wl)" "Daemon_ReadBlock c st peerID i name h b w = (rr, wr)"
    by fastforce
  have "wdb wl = wdb w" "wdb wr = wdb w" using withinD [OF l run(1)] withinD [OF r run(2)] by simp_all
  moreover have "shares c peerID i \<and> scan_available c st i
      \<and> (\<exists>w1. CheckFolder (FPath (folder_named c i)) (FID (folder_named c i)) w = (Inr (), w1))" if "rl = Inr es" for es
    using run(1) that by (auto simp: Daemon_List_def authorize_Inr elim!: bind_eq_InrE)
  moreover have "shares c peerID i \<and> scan_available c st i
      \<and> (\<exists>w1. CheckFolder (FPath (folder_named c i)) (FID (folder_named c i)) w = (Inr (), w1))" if "rr = Inr data" for data
    using run(2) that by (auto simp: Daemon_ReadBlock_def authorize_Inr elim!: bind_eq_InrE)
  ultimately show ?thesis by (simp add: run split: sum.split)
qed

section \<open>What a peer can tell\<close>

text \<open>The configuration without the folders that are not shared with a device.\<close>

definition visible_to :: "string \<Rightarrow> Config \<Rightarrow> Config" where
  "visible_to peerID c = c\<lparr>CFolders := filter (\<lambda>(i, f). shares c peerID i) (CFolders c)\<rparr>"

lemma map_of_filter_keys: "map_of (filter (\<lambda>(k, v). P k) xs) k = (if P k then map_of xs k else None)"
  by (induction xs) auto

lemma peer_named_visible [simp]: "peer_named (visible_to peerID c) = peer_named c"
  by (simp add: fun_eq_iff peer_named_def visible_to_def)

lemma folder_visible: "map_of (CFolders (visible_to peerID c)) i = (if shares c peerID i then map_of (CFolders c) i else None)"
  by (simp add: visible_to_def map_of_filter_keys)

lemma authorize_visible: "authorize (visible_to peerID c) st peerID i = authorize c st peerID i"
proof (cases "shares c peerID i")
  case True
  then show ?thesis by (simp add: authorize_def folder_visible split: option.split)
next
  case False
  then have "\<not> shares (visible_to peerID c) peerID i" by (simp add: shares_def folder_visible)
  with False show ?thesis by (simp add: authorize_unshared)
qed

text \<open>C32. A session with a peer runs, byte for byte, as if the configuration had only the folders that
  list this peer: other folders cannot be seen, not even their existence.\<close>

theorem sessions_confined:
  "serve_requests n (daemon_backend c st) peerID = serve_requests n (daemon_backend (visible_to peerID c) st) peerID"
proof (rule handleRequest_own_peer)
  show "backend_List (daemon_backend c st) peerID f = backend_List (daemon_backend (visible_to peerID c) st) peerID f" for f
    by (simp add: daemon_backend_def Daemon_List_def authorize_visible)
  show "backend_ReadBlock (daemon_backend c st) peerID f m h k = backend_ReadBlock (daemon_backend (visible_to peerID c) st) peerID f m h k" for f m h k
    by (simp add: daemon_backend_def Daemon_ReadBlock_def authorize_visible)
qed

section \<open>After a scan\<close>

text \<open>Reading in a world without events leaves it without events.\<close>

definition lonely :: "world \<Rightarrow> world \<Rightarrow> bool" where
  "lonely w w' \<longleftrightarrow> (pending w = [] \<longrightarrow> pending w' = [] \<and> ctx_done w' = ctx_done w)"

lemma within_lonely_sys: "within lonely (sys f)"
  by (simp add: within_def lonely_def sys_def tick_def split: prod.split)

lemma within_lonely_query: "within lonely (sql_query f)"
  by (simp add: within_def lonely_def sql_query_def tick_def)

lemma preorder_lonely [simp, intro]: "preorder_rel lonely"
  by (auto simp: preorder_rel_def lonely_def intro!: reflpI transpI)

lemma within_lonely_others: "within lonely (set_stats g)" "within lonely rand_Read"
  by (simp_all add: within_def lonely_def set_stats_def rand_Read_def split: list.split)

lemma within_lonely_exec: "within lonely (sql_exec f)"
  by (simp add: within_def lonely_def sql_exec_def tick_def split: sum.split)

interpretation lonely: reading lonely
  by unfold_locales (simp_all add: within_lonely_sys within_lonely_query within_lonely_others)

lemma quiet_unchanged:
  assumes "within lonely m" "within (fs_rel (\<lambda>s s'. s' = s)) m" "quiet w" "m w = (r, w')"
  shows "quiet w' \<and> wfs w' = wfs w"
  using withinD [OF assms(1,4)] fs_rel_calm(1) [OF assms(2) preorder_rel_frame quiet_calm [OF assms(3)] assms(4)] assms(3)
  by (simp add: lonely_def quiet_def)

text \<open>An operation that only looks at the files.\<close>

definition observing :: "(world, 'a) io \<Rightarrow> bool" where
  "observing m \<longleftrightarrow> (\<exists>g. \<forall>w. quiet w \<longrightarrow> m w = (g (wfs w), w))"

lemma observingI: "(\<And>w. quiet w \<Longrightarrow> m w = (g (wfs w), w)) \<Longrightarrow> observing m"
  unfolding observing_def by blast

lemma observing_bind:
  assumes "observing m" "\<And>x. observing (f x)"
  shows "observing (bind m f)"
proof -
  obtain g where g: "\<And>w. quiet w \<Longrightarrow> m w = (g (wfs w), w)" using assms(1) unfolding observing_def by blast
  obtain h where h: "\<And>x w. quiet w \<Longrightarrow> f x w = (h x (wfs w), w)" using assms(2) unfolding observing_def by metis
  show ?thesis
    by (rule observingI [where g = "\<lambda>s. case g s of Inl e \<Rightarrow> Inl e | Inr x \<Rightarrow> h x s"])
       (simp add: run_bind g h split: sum.split)
qed

lemma observing_basic: "observing (return x)" "observing (throw e)" "observing (fail_if b e)"
  by (rule observingI [where g = "\<lambda>_. Inr x"], simp)
     (rule observingI [where g = "\<lambda>_. Inl e"], simp,
      rule observingI [where g = "\<lambda>_. if b then Inl e else Inr ()"], simp add: run_fail_if)

lemma observing_attempt: "observing m \<Longrightarrow> observing (attempt m)"
proof -
  assume "observing m"
  then obtain g where g: "\<And>w. quiet w \<Longrightarrow> m w = (g (wfs w), w)" unfolding observing_def by blast
  show ?thesis by (rule observingI [where g = "\<lambda>s. Inr (g s)"]) (simp add: run_attempt g)
qed

lemma observing_case_sum: "(\<And>e. observing (f e)) \<Longrightarrow> (\<And>x. observing (g x)) \<Longrightarrow> observing (case r of Inl e \<Rightarrow> f e | Inr x \<Rightarrow> g x)"
  by (simp split: sum.split)

lemma observing_sys: "(\<And>s. snd (f s) = s) \<Longrightarrow> observing (sys f)"
  by (rule observingI [where g = "\<lambda>s. fst (f s)"]) (simp add: sys_quiet split_beta)

lemma CheckFolder_observing: "observing (CheckFolder p i)"
  unfolding CheckFolder_def checkMarker_def
  by (intro observing_bind observing_basic observing_attempt observing_case_sum observing_sys)
     (auto simp: fs_open_root_def fs_lstat_def fs_open_def fs_read_limited_def
       split: option.split node.split sum.split handle.split)

lemma Scan_quiet:
  assumes "quiet w" "Scan i p w = (res, w')"
  shows "quiet w'" "wfs w' = wfs w" "res = Inr es \<Longrightarrow> fst (CheckFolder p i w') = Inr ()"
proof -
  have l: "within lonely (Scan i p)"
    unfolding Scan_def
    by (intro within_intros lonely.openFolder_within lonely.walk_within lonely.CheckFolder_within lonely.checkMarker_within
        lonely.lstat within_lonely_exec; simp)
  have u: "within (fs_rel (\<lambda>s s'. s' = s)) (Scan i p)"
    unfolding Scan_def
    by (intro within_intros unchanged.openFolder_within unchanged.walk_within unchanged.CheckFolder_within
        unchanged.checkMarker_within unchanged.lstat within_exec_fs; simp)
  show q: "quiet w'" using withinD [OF l assms(2)] assms(1) by (simp add: lonely_def quiet_def)
  show fs: "wfs w' = wfs w"
    using fs_rel_calm(1) [OF u preorder_rel_frame quiet_calm [OF assms(1)] assms(2)] .
  assume "res = Inr es"
  with assms(2) obtain r w1 info w2 entries mb w3 w4 where
    s: "openFolder p i w = (Inr r, w1)" "Root_Lstat r [] w1 = (Inr info, w2)"
       "walk_dir walk_fuel r ''.'' (fi_type info = Directory) ([], 0) w2 = (Inr (entries, mb), w3)"
       "CheckFolder p i w3 = (Inr (), w4)"
    unfolding Scan_def by (auto elim!: bind_eq_InrE split: prod.splits)
  note reads = lonely.openFolder_within unchanged.openFolder_within lonely.lstat unchanged.lstat
    lonely.walk_within(1) unchanged.walk_within(1)
  have "quiet w1 \<and> wfs w1 = wfs w" by (rule quiet_unchanged [OF reads(1,2) assms(1) s(1)])
  moreover from this have "quiet w2 \<and> wfs w2 = wfs w1" using quiet_unchanged [OF reads(3,4) _ s(2)] by blast
  moreover from calculation have "quiet w3 \<and> wfs w3 = wfs w2" using quiet_unchanged [OF reads(5,6) _ s(3)] by blast
  ultimately have w3: "quiet w3" "wfs w3 = wfs w" by simp_all
  obtain g where g: "\<And>v. quiet v \<Longrightarrow> CheckFolder p i v = (g (wfs v), v)"
    using CheckFolder_observing [of p i] unfolding observing_def by blast
  with s(4) w3 q fs show "fst (CheckFolder p i w') = Inr ()" by simp
qed

section \<open>The entries of a scan\<close>

lemma insert_entries_distinct: "insert_entries f es db = Inr db' \<Longrightarrow> distinct (map EPath es)"
proof (induction es arbitrary: db)
  case (Cons e es)
  then obtain db1 where ins: "insert_row f (EPath e) (json_Marshal e) db = Inr db1"
    and rest: "insert_entries f es db1 = Inr db'" by (auto split: sum.splits)
  from insert_entries_new [OF rest] Cons.IH [OF rest] show ?case by (simp add: select_insert_row [OF ins])
qed simp

lemma Scan_distinct: "Scan i p w = (Inr es, w') \<Longrightarrow> distinct (map EPath es)"
  using commits_Inr [OF Scan_commits] by (fastforce simp: replace_folder_def split: sum.splits dest: insert_entries_distinct)

lemma find_unique: "distinct (map EPath es) \<Longrightarrow> e \<in> set es \<Longrightarrow> find (\<lambda>x. EPath x = EPath e) es = Some e"
  by (induction es) auto

definition demo_daemon :: Daemon where
  "demo_daemon = \<lparr>dcfg = demo_config, did = demo_identity,
     dstatus = \<lparr>Running = True, DeviceID = [], StatusListen = [], Stage = [], Folders = Map.empty\<rparr>, dlog = [], dworld = demo_world\<rparr>"

end
