(* ===== verification/Sessions.thy ===== *)
theory Sessions
  imports Peer
begin

text \<open>
  \<open>Serve\<close> of \<^verbatim>\<open>internal/transport/transport.go\<close> as a machine: the accept loop, the goroutine that waits
  for the cancellation and the handlers of the connections run interleaved.
\<close>

section \<open>The sessions of a server\<close>

text \<open>Where the function is: in its accept loop, in its deferred calls, or back at its caller.\<close>

datatype serve_phase = Accepting | Draining "error option" | Returned "error option"

record server =
  phase :: serve_phase
  cancelled :: bool
  listening :: bool
  stopped :: bool
  active :: "nat set"
  handlers :: "nat set"
  closed_conns :: "nat set"
  accepted :: nat

definition serve_begin :: server where
  "serve_begin = \<lparr>phase = Accepting, cancelled = False, listening = True, stopped = False,
     active = {}, handlers = {}, closed_conns = {}, accepted = 0\<rparr>"

text \<open>What \<open>Serve\<close> checks before it enters the loop; on an error it only closes the listener.\<close>

definition Serve_start :: "tls_Config option \<Rightarrow> Backend option \<Rightarrow> server" where
  "Serve_start config backend =
     (case validateTLS config True of
        Inl err \<Rightarrow> serve_begin\<lparr>phase := Returned (Some err), listening := False, stopped := True\<rparr>
      | Inr _ \<Rightarrow>
          (if backend = None
           then serve_begin\<lparr>phase := Returned (Some (Errorf ''backend is required'' [])), listening := False, stopped := True\<rparr>
           else serve_begin))"

text \<open>
  The steps of the accept loop, of the goroutine that waits for the context, of the handlers of the
  connections, and the cancellation of the context, in any order. A block under the mutex is one
  step.
\<close>

inductive serve_step :: "server \<Rightarrow> server \<Rightarrow> bool" where
  accept: "\<lbrakk> phase s = Accepting; listening s; card (active s) < maxSessions; \<not> cancelled s \<rbrakk> \<Longrightarrow>
     serve_step s (s\<lparr>accepted := Suc (accepted s), active := insert (accepted s) (active s),
                     handlers := insert (accepted s) (handlers s)\<rparr>)"
| refuse: "\<lbrakk> phase s = Accepting; card (active s) \<ge> maxSessions \<or> cancelled s \<rbrakk> \<Longrightarrow>
     serve_step s (s\<lparr>accepted := Suc (accepted s), closed_conns := insert (accepted s) (closed_conns s)\<rparr>)"
| accept_fails: "phase s = Accepting \<Longrightarrow>
     serve_step s (s\<lparr>phase := Draining (if cancelled s then None else Some err), cancelled := True\<rparr>)"
| interrupt: "serve_step s (s\<lparr>cancelled := True\<rparr>)"
| watch: "\<lbrakk> cancelled s; \<not> stopped s \<rbrakk> \<Longrightarrow>
     serve_step s (s\<lparr>stopped := True, listening := False, closed_conns := closed_conns s \<union> active s\<rparr>)"
| hang_up: "c \<in> active s \<Longrightarrow>
     serve_step s (s\<lparr>active := active s - {c}, closed_conns := insert c (closed_conns s)\<rparr>)"
| handler_done: "\<lbrakk> c \<in> handlers s; c \<notin> active s \<rbrakk> \<Longrightarrow> serve_step s (s\<lparr>handlers := handlers s - {c}\<rparr>)"
| come_back: "\<lbrakk> phase s = Draining r; stopped s; handlers s = {} \<rbrakk> \<Longrightarrow>
     serve_step s (s\<lparr>phase := Returned r, listening := False\<rparr>)"

inductive_cases serve_stepE: "serve_step s t"

definition sessions_ok :: "server \<Rightarrow> bool" where
  "sessions_ok s \<longleftrightarrow> finite (handlers s) \<and> active s \<subseteq> handlers s \<and> card (active s) \<le> maxSessions
     \<and> {..<accepted s} \<subseteq> closed_conns s \<union> active s \<and> active s \<subseteq> {..<accepted s}
     \<and> (stopped s \<longrightarrow> \<not> listening s \<and> active s \<subseteq> closed_conns s \<and> (phase s = Accepting \<longrightarrow> cancelled s))
     \<and> (\<forall>r. phase s = Draining r \<longrightarrow> cancelled s)
     \<and> (\<forall>r. phase s = Returned r \<longrightarrow> stopped s \<and> handlers s = {})"

lemma finite_active: "sessions_ok s \<Longrightarrow> finite (active s)"
  by (auto simp: sessions_ok_def intro: finite_subset)

lemma sessions_start: "sessions_ok (Serve_start config backend)"
  by (auto simp: sessions_ok_def Serve_start_def serve_begin_def split: sum.split)

lemma sessions_step:
  assumes "sessions_ok s" "serve_step s t"
  shows "sessions_ok t"
  using assms(2)
proof cases
  case accept
  have "accepted s \<notin> active s" using assms(1) by (auto simp: sessions_ok_def)
  with accept assms(1) finite_active [OF assms(1)] show ?thesis
    by (auto simp: sessions_ok_def lessThan_Suc)
next
  case (hang_up c)
  with assms(1) finite_active [OF assms(1)] show ?thesis
    by (auto simp: sessions_ok_def)
next
  case (come_back r)
  with assms(1) show ?thesis by (auto simp: sessions_ok_def)
qed (use assms(1) in \<open>auto simp: sessions_ok_def lessThan_Suc\<close>)

interpretation sessions: machine "\<lambda>s. \<exists>config backend. s = Serve_start config backend" serve_step sessions_ok
  by unfold_locales (auto simp: sessions_start sessions_step)

lemma demo_start: "Serve_start (Some demo_cfg) (Some demo_backend) = serve_begin"
  by (simp add: Serve_start_def validateTLS_def demo_cfg_def VersionTLS13_def)

lemma demo_accept: "serve_step serve_begin (serve_begin\<lparr>accepted := 1, active := {0}, handlers := {0}\<rparr>)"
  using serve_step.accept [of serve_begin] by (simp add: serve_begin_def maxSessions_def)

text \<open>C25. In every interleaving of the accept loop, the shutdown goroutine and the handlers at most 32
  sessions are active, no accepted connection is ever lost without being closed, and when Serve has
  returned every accepted connection is closed and every handler has ended.\<close>

theorem sessions_limited:
  assumes "serve_step\<^sup>*\<^sup>* (Serve_start config backend) s"
  shows "card (active s) \<le> 32 \<and> {..<accepted s} \<subseteq> closed_conns s \<union> active s
     \<and> (stopped s \<longrightarrow> \<not> listening s \<and> active s \<subseteq> closed_conns s)
     \<and> (\<forall>r. phase s = Returned r \<longrightarrow> {..<accepted s} \<subseteq> closed_conns s \<and> handlers s = {} \<and> \<not> listening s)"
proof -
  have "sessions_ok s" by (rule sessions.reachable_good [OF _ assms]) blast
  then show ?thesis by (auto simp: sessions_ok_def maxSessions_def)
qed

theorem sessions_limited_witness:
  "card (active (serve_begin\<lparr>accepted := 1, active := {0}, handlers := {0}\<rparr>)) \<le> 32"
  using sessions_limited [of "Some demo_cfg" "Some demo_backend" "serve_begin\<lparr>accepted := 1, active := {0}, handlers := {0}\<rparr>"] demo_accept
  by (simp add: demo_start r_into_rtranclp)

text \<open>From every reachable state a cancelled server can finish, whatever order its parts take.\<close>

lemma drain_handlers:
  assumes "sessions_ok s"
  shows "\<exists>t. serve_step\<^sup>*\<^sup>* s t \<and> sessions_ok t \<and> handlers t = {} \<and> phase t = phase s \<and> cancelled t = cancelled s \<and> stopped t = stopped s"
  using assms
proof (induction "card (handlers s) + card (active s)" arbitrary: s rule: less_induct)
  case less
  note fin = finite_active [OF less.prems]
  have finh: "finite (handlers s)" using less.prems by (simp add: sessions_ok_def)
  show ?case
  proof (cases "active s = {}")
    case False
    then obtain c where c: "c \<in> active s" by blast
    let ?t = "s\<lparr>active := active s - {c}, closed_conns := insert c (closed_conns s)\<rparr>"
    have st: "serve_step s ?t" using hang_up [OF c] .
    have "card (active s - {c}) < card (active s)" using fin c by (rule card_Diff1_less)
    with less.hyps [of ?t] sessions_step [OF less.prems st] obtain t where
      "serve_step\<^sup>*\<^sup>* ?t t" "sessions_ok t" "handlers t = {}" "phase t = phase s" "cancelled t = cancelled s" "stopped t = stopped s"
      by auto
    with st show ?thesis by (meson converse_rtranclp_into_rtranclp)
  next
    case True
    show ?thesis
    proof (cases "handlers s = {}")
      case True
      with less.prems show ?thesis by blast
    next
      case False
      then obtain c where c: "c \<in> handlers s" by blast
      let ?t = "s\<lparr>handlers := handlers s - {c}\<rparr>"
      have st: "serve_step s ?t" using handler_done [OF c] True by simp
      have "card (handlers s - {c}) < card (handlers s)" using finh c by (rule card_Diff1_less)
      with less.hyps [of ?t] sessions_step [OF less.prems st] obtain t where
        "serve_step\<^sup>*\<^sup>* ?t t" "sessions_ok t" "handlers t = {}" "phase t = phase s" "cancelled t = cancelled s" "stopped t = stopped s"
        by auto
      with st show ?thesis by (meson converse_rtranclp_into_rtranclp)
    qed
  qed
qed

lemma watched:
  assumes "sessions_ok s" "cancelled s"
  shows "\<exists>t. serve_step\<^sup>*\<^sup>* s t \<and> sessions_ok t \<and> stopped t \<and> phase t = phase s"
proof (cases "stopped s")
  case False
  from watch [OF assms(2) False] sessions_step [OF assms(1) watch [OF assms(2) False]] show ?thesis
    by (intro exI [of _ "s\<lparr>stopped := True, listening := False, closed_conns := closed_conns s \<union> active s\<rparr>"]) auto
qed (use assms(1) in blast)

lemma drained:
  assumes "sessions_ok s" "cancelled s" "phase s = Draining r"
  shows "\<exists>t. serve_step\<^sup>*\<^sup>* s t \<and> phase t = Returned r"
proof -
  from watched [OF assms(1,2)] obtain s1 where s1: "serve_step\<^sup>*\<^sup>* s s1" "sessions_ok s1" "stopped s1" "phase s1 = Draining r"
    using assms(3) by auto
  from drain_handlers [OF s1(2)] obtain s2 where s2: "serve_step\<^sup>*\<^sup>* s1 s2" "handlers s2 = {}" "phase s2 = Draining r" "stopped s2"
    using s1 by auto
  from come_back [OF s2(3,4,2)] have "serve_step s2 (s2\<lparr>phase := Returned r, listening := False\<rparr>)" .
  with s1(1) s2(1) have "serve_step\<^sup>*\<^sup>* s (s2\<lparr>phase := Returned r, listening := False\<rparr>)" by simp
  then show ?thesis by (rule exI [of _ "s2\<lparr>phase := Returned r, listening := False\<rparr>", OF conjI]) simp
qed

lemma server_can_return:
  assumes "sessions_ok s" "cancelled s"
  shows "\<exists>t r. serve_step\<^sup>*\<^sup>* s t \<and> phase t = Returned r \<and> (phase s = Accepting \<longrightarrow> r = None)"
proof (cases "phase s")
  case Accepting
  let ?t = "s\<lparr>phase := Draining None, cancelled := True\<rparr>"
  have st: "serve_step s ?t" using accept_fails [OF Accepting] assms(2) by simp
  from drained [OF sessions_step [OF assms(1) st]] obtain t where "serve_step\<^sup>*\<^sup>* ?t t" "phase t = Returned None" by auto
  with st have "serve_step\<^sup>*\<^sup>* s t \<and> phase t = Returned None" by (meson converse_rtranclp_into_rtranclp)
  then show ?thesis by blast
next
  case (Draining r)
  with drained [OF assms] show ?thesis by (metis serve_phase.distinct(1))
qed auto

theorem shutdown_possible:
  assumes "serve_step\<^sup>*\<^sup>* (Serve_start config backend) s" "cancelled s"
  shows "\<exists>t r. serve_step\<^sup>*\<^sup>* s t \<and> phase t = Returned r \<and> (phase s = Accepting \<longrightarrow> r = None)"
proof -
  have "sessions_ok s" by (rule sessions.reachable_good [OF _ assms(1)]) blast
  then show ?thesis using assms(2) by (rule server_can_return)
qed

theorem shutdown_possible_witness:
  "\<exists>t. serve_step\<^sup>*\<^sup>* (serve_begin\<lparr>cancelled := True\<rparr>) t \<and> phase t = Returned None"
proof -
  have "serve_step\<^sup>*\<^sup>* (Serve_start (Some demo_cfg) (Some demo_backend)) (serve_begin\<lparr>cancelled := True\<rparr>)"
    unfolding demo_start by (rule r_into_rtranclp, rule serve_step.interrupt)
  from shutdown_possible [OF this] show ?thesis by (auto simp: serve_begin_def)
qed

end
