(* ===== verification/Running.thy ===== *)
theory Running
  imports Serving Sessions
begin

text \<open>
  \<open>Run\<close> of \<^verbatim>\<open>internal/daemon/daemon.go\<close>: the start as a program, and from there the goroutines of the
  daemon as a machine. Its parts are the function \<open>Run\<close> itself, the transport server, the server of
  the control socket, the scanning worker, one worker for each peer that is the source of a folder,
  and the requests of peers. The scan of one folder, the synchronisation of one folder and the answer
  to one request are steps; between steps the machine may change in any way other processes can
  change it, and the context may be cancelled.
\<close>

section \<open>The state of Run\<close>

text \<open>
  \<open>Closing e b\<close>: the workers are being awaited; \<open>b\<close> tells whether a server has already returned, \<open>e\<close>
  is what it returned. \<open>Collecting e n\<close>: \<open>n\<close> more results of servers are awaited.
\<close>

datatype run_phase = Starting | Serving | Closing "error option" bool | Collecting "error option" nat | Finished "error option"

datatype scanner = ScanIdle | ScanTodo "string list" | ScanDone

text \<open>A worker that replicates is at the head of its loop or has folders left in this round; the flag
  tells whether its client is connected.\<close>

datatype replicator = RoundStart bool | RoundTodo bool "config_Folder list"

record run =
  rd :: Daemon
  rphase :: run_phase
  peers :: server
  served :: bool
  admin :: bool
  admin_served :: bool
  results :: "error option list"
  scanning :: scanner
  replicators :: "string \<rightharpoonup> replicator"

abbreviation on_daemon :: "(Daemon, 'a) io \<Rightarrow> (run, 'a) io" where
  "on_daemon \<equiv> zoom rd (\<lambda>d r. r\<lparr>rd := d\<rparr>)"

interpretation daemon_of: substate rd "\<lambda>d r. r\<lparr>rd := d\<rparr>"
  by unfold_locales simp_all

abbreviation rctx :: "run \<Rightarrow> bool" where "rctx r \<equiv> ctx_done (dworld (rd r))"
abbreviation rcfg :: "run \<Rightarrow> Config" where "rcfg r \<equiv> dcfg (rd r)"

text \<open>Before \<open>Run\<close> no goroutine exists.\<close>

definition not_serving :: server where
  "not_serving = serve_begin\<lparr>phase := Returned None, listening := False, stopped := True\<rparr>"

definition run_begin :: "Daemon \<Rightarrow> run" where
  "run_begin d = \<lparr>rd = d, rphase = Starting, peers = not_serving, served = True, admin = False, admin_served = True,
     results = [], scanning = ScanDone, replicators = Map.empty\<rparr>"

section \<open>The start\<close>

abbreviation "control_sock \<equiv> ''control.sock''"

text \<open>A socket of an earlier run is removed; a socket is the only special file expected here.\<close>

definition prepare_socket :: "string \<Rightarrow> (world, unit) io" where
  "prepare_socket stateDir =
     bind (attempt (os_Lstat stateDir control_sock)) (\<lambda>res.
     case res of
       Inr info \<Rightarrow>
         bind (fail_if (fi_type info \<noteq> Irregular)
                 (Errorf ''control path is not a socket: %s'' [filepath_Join stateDir control_sock])) (\<lambda>_.
         os_Remove stateDir control_sock)
     | Inl err \<Rightarrow> fail_if (\<not> errors_Is err NotExist) err)"

abbreviation "os_ListenUnix dir name \<equiv> sys (in_dir dir (\<lambda>r. fs_link_new r [name] Special))"

text \<open>Closing the listener of the control socket removes the socket, once.\<close>

definition close_admin :: "(run, unit) io" where
  "close_admin = bind get_state (\<lambda>r.
     do_if (admin r)
       (bind (attempt (on_daemon (on_machine (os_Remove (StateDir (rcfg r)) control_sock)))) (\<lambda>_.
        modify (\<lambda>r. r\<lparr>admin := False\<rparr>))))"

text \<open>\<open>defer\<close> of a call that matters only when the rest fails.\<close>

definition undoing :: "('s, 'b) io \<Rightarrow> ('s, 'a) io \<Rightarrow> ('s, 'a) io" where
  "undoing c m = (\<lambda>s. case m s of (Inl e, s') \<Rightarrow> (Inl e, snd (c s')) | (Inr x, s') \<Rightarrow> (Inr x, s'))"

text \<open>Until the goroutines start: \<open>False\<close> when the context ended the start. Opening the listener for
  peers and the mode of the socket have no effect on the files that are modelled.\<close>

definition Run_begin :: "(run, bool) io" where
  "Run_begin =
     bind (on_daemon Daemon_scan) (\<lambda>_.
     bind (attempt (on_daemon (on_machine ctx_Err))) (\<lambda>ended.
     case ended of
       Inl err \<Rightarrow> return False
     | Inr _ \<Rightarrow>
         bind (on_daemon (on_machine (sys (\<lambda>s. (Inr (), s))))) (\<lambda>_.
         bind get_state (\<lambda>r.
         bind (on_daemon (on_machine (prepare_socket (StateDir (rcfg r))))) (\<lambda>_.
         bind (on_daemon (on_machine (os_ListenUnix (StateDir (rcfg r)) control_sock))) (\<lambda>_.
         bind (modify (\<lambda>r. r\<lparr>admin := True\<rparr>)) (\<lambda>_.
         undoing close_admin
           (bind (on_daemon (on_machine (sys (\<lambda>s. (Inr (), s))))) (\<lambda>_. return True)))))))))"

text \<open>The goroutines: both servers, the scanning worker, a worker for each peer that is a source.\<close>

definition workers_of :: "Config \<Rightarrow> string \<rightharpoonup> replicator" where
  "workers_of c = map_of (map (\<lambda>(name, p). (name, RoundStart False)) (filter (\<lambda>(name, p). folders_from c name \<noteq> []) (CPeers c)))"

definition launch :: "string \<Rightarrow> run \<Rightarrow> run" where
  "launch addr r =
     (let d = rd r; c = dcfg d; st = (dstatus d)\<lparr>Running := True, StatusListen := addr\<rparr>
      in r\<lparr>rd := d\<lparr>dstatus := st, dlog := dlog d @ [Started (ID (did d)) addr]\<rparr>,
           rphase := Serving,
           peers := Serve_start (Some (ServerTLS (did d) (allowed_devices c))) (Some (daemon_backend c st)),
           served := False, admin_served := False,
           scanning := ScanIdle, replicators := workers_of c\<rparr>)"

section \<open>The end\<close>

definition http_ErrServerClosed :: error where
  "http_ErrServerClosed = Errorf ''http: Server closed'' []"

text \<open>\<open>cancel\<close> and the two \<open>Close\<close>.\<close>

definition shut_down :: "error option \<Rightarrow> bool \<Rightarrow> run \<Rightarrow> run" where
  "shut_down e b r =
     snd (close_admin (r\<lparr>rd := (rd r)\<lparr>dworld := (dworld (rd r))\<lparr>ctx_done := True\<rparr>\<rparr>,
       peers := (peers r)\<lparr>listening := False\<rparr>, rphase := Closing e b\<rparr>))"

definition run_error :: "error option \<Rightarrow> error option" where
  "run_error e = (case e of
       None \<Rightarrow> None
     | Some err \<Rightarrow> (if errors_Is err closed_error \<or> errors_Is err http_ErrServerClosed then None else Some err))"

definition run_finish :: "error option \<Rightarrow> run \<Rightarrow> run" where
  "run_finish e r = r\<lparr>rphase := Finished (run_error e), rd := (rd r)\<lparr>dstatus := (dstatus (rd r))\<lparr>Running := False\<rparr>\<rparr>\<rparr>"

section \<open>The machine\<close>

definition set_world :: "world \<Rightarrow> run \<Rightarrow> run" where
  "set_world w r = r\<lparr>rd := (rd r)\<lparr>dworld := w\<rparr>\<rparr>"

text \<open>What may happen between two steps of the daemon: new events, new bytes on connections, a
  cancelled context.\<close>

definition moved :: "world \<Rightarrow> world \<Rightarrow> bool" where
  "moved w w' \<longleftrightarrow> (\<exists>evs ns c ds b. w' = w\<lparr>pending := evs, nonces := ns, conn := c, dials := ds, ctx_done := ctx_done w \<or> b\<rparr>)"

inductive run_step :: "run \<Rightarrow> run \<Rightarrow> bool" where
  start_serving: "\<lbrakk> rphase r = Starting; Run_begin r = (Inr True, r') \<rbrakk> \<Longrightarrow> run_step r (launch addr r')"
| start_cancelled: "\<lbrakk> rphase r = Starting; Run_begin r = (Inr False, r') \<rbrakk> \<Longrightarrow> run_step r (r'\<lparr>rphase := Finished None\<rparr>)"
| start_fails: "\<lbrakk> rphase r = Starting; Run_begin r = (Inl err, r') \<rbrakk> \<Longrightarrow> run_step r (r'\<lparr>rphase := Finished (Some err)\<rparr>)"
| world_moves: "moved (dworld (rd r)) w \<Longrightarrow> run_step r (set_world w r)"
| serve: "\<lbrakk> serve_step (peers r) s; cancelled s \<Longrightarrow> cancelled (peers r) \<or> phase s \<noteq> phase (peers r) \<or> rctx r \<rbrakk> \<Longrightarrow>
     run_step r (r\<lparr>peers := s\<rparr>)"
| serve_returns: "\<lbrakk> phase (peers r) = Returned e; \<not> served r \<rbrakk> \<Longrightarrow>
     run_step r (r\<lparr>served := True, results := results r @ [e]\<rparr>)"
| admin_returns: "\<lbrakk> \<not> admin_served r; admin r \<or> err = http_ErrServerClosed \<rbrakk> \<Longrightarrow>
     run_step r (r\<lparr>admin_served := True, results := results r @ [Some err]\<rparr>)"
| scan_tick: "scanning r = ScanIdle \<Longrightarrow> run_step r (r\<lparr>scanning := ScanTodo (sortedFolders (CFolders (rcfg r)))\<rparr>)"
| scan_next: "\<lbrakk> scanning r = ScanTodo (i # ids); scan_folders [i] (rd r) = (res, d) \<rbrakk> \<Longrightarrow>
     run_step r (r\<lparr>rd := d, scanning :=
       (if FSource (folder_named (rcfg r) i) = ''local'' \<and> ctx_done (dworld d) then ScanIdle else ScanTodo ids)\<rparr>)"
| scan_over: "scanning r = ScanTodo [] \<Longrightarrow> run_step r (r\<lparr>scanning := ScanIdle\<rparr>)"
| scan_stops: "\<lbrakk> scanning r = ScanIdle; rctx r \<rbrakk> \<Longrightarrow> run_step r (r\<lparr>scanning := ScanDone\<rparr>)"
| round_begins: "\<lbrakk> replicators r name = Some (RoundStart client); \<not> rctx r \<rbrakk> \<Longrightarrow>
     run_step r (r\<lparr>replicators := (replicators r)(name \<mapsto> RoundTodo client (folders_from (rcfg r) name))\<rparr>)"
| round_next: "\<lbrakk> replicators r name = Some (RoundTodo client (f # fs));
     replicate_folders (peer_named (rcfg r) name) [f] client (rd r) = (Inr client', d) \<rbrakk> \<Longrightarrow>
     run_step r (r\<lparr>rd := d, replicators := (replicators r)(name \<mapsto> RoundTodo client' fs)\<rparr>)"
| round_over: "replicators r name = Some (RoundTodo client []) \<Longrightarrow>
     run_step r (r\<lparr>replicators := (replicators r)(name \<mapsto> RoundStart client)\<rparr>)"
| round_stops: "\<lbrakk> replicators r name = Some (RoundStart client) \<or> replicators r name = Some (RoundTodo client []); rctx r \<rbrakk> \<Longrightarrow>
     run_step r (set_world (snd (do_if client Conn_Close (dworld (rd r)))) (r\<lparr>replicators := (replicators r)(name := None)\<rparr>))"
| request: "\<lbrakk> c \<in> active (peers r); peerID \<in> set (allowed_devices (rcfg r)) \<rbrakk> \<Longrightarrow>
     run_step r (set_world (snd (handleRequest (daemon_backend (rcfg r) (dstatus (rd r))) peerID m (dworld (rd r)))) r)"
| stop_cancelled: "\<lbrakk> rphase r = Serving; rctx r \<rbrakk> \<Longrightarrow> run_step r (shut_down None False r)"
| stop_result: "\<lbrakk> rphase r = Serving; results r = e # es \<rbrakk> \<Longrightarrow> run_step r (shut_down e True (r\<lparr>results := es\<rparr>))"
| workers_gone: "\<lbrakk> rphase r = Closing e b; scanning r = ScanDone; replicators r = Map.empty \<rbrakk> \<Longrightarrow>
     run_step r (r\<lparr>rphase := Collecting e (if b then 1 else 2)\<rparr>)"
| collect: "\<lbrakk> rphase r = Collecting e (Suc n); results r = x # xs \<rbrakk> \<Longrightarrow>
     run_step r (r\<lparr>rphase := Collecting e n, results := xs\<rparr>)"
| finish: "rphase r = Collecting e 0 \<Longrightarrow> run_step r (run_finish e r)"

inductive_cases run_stepE: "run_step r t"

end
