(* ===== verification/Replication.thy ===== *)
theory Replication
  imports Serving
begin

text \<open>What replication may change on this machine, whatever a peer sends.\<close>

section \<open>The client leaves files and index alone\<close>

lemma list_loop_within:
  assumes "preorder_rel R" "\<And>f :: wire \<Rightarrow> (error + bytes) \<times> wire. within R (net f)"
  shows "within R (list_loop k acc spent)"
proof (induction k arbitrary: acc spent)
  case 0
  show ?case unfolding list_loop.simps by (intro within_intros assms)
next
  case (Suc k)
  show ?case unfolding list_loop.simps wire_read_def by (intro within_intros readFrame_within assms Suc)
qed

lemmas wire_frames = within_net_fs within_wire_fs within_write_fs within_flush_fs within_handshake_fs
  within_net_db within_wire_db within_write_db within_flush_db within_handshake_db

lemma net_Dial_steady: "within steady net_Dial"
proof (rule within_steady)
  show "within (fs_rel (\<lambda>s s'. s' = s)) net_Dial"
  proof (rule within_tick_fs)
    show "preorder_rel (\<lambda>s s' :: fsys. s' = s)" by (rule preorder_rel_frame)
    fix w :: world
    obtain e w1 where t: "tick w = (e, w1)" by fastforce
    then show "\<exists>r e w1 w2. tick w = (e, w1) \<and> net_Dial w = (r, w2) \<and> wfs w2 = wfs w1 \<and> pending w2 = pending w1"
      by (cases e; cases "dials w1") (auto simp: net_Dial_def)
  qed
  show "within same_index net_Dial"
    unfolding within_def
  proof
    fix w :: world
    obtain e w1 where t: "tick w = (e, w1)" by fastforce
    have "wdb w1 = wdb w" by (rule tick_fields(1) [OF t])
    with t show "wdb (snd (net_Dial w)) = wdb w" by (auto simp: net_Dial_def split: option.split list.split)
  qed
qed

lemma client_List_steady: "within steady (client_List folder)"
  unfolding client_List_def wire_send_def wire_write_def
  by (rule within_steady; intro within_intros client_operation_within writeFrame_within list_loop_within wire_frames; simp)

lemma client_Dial_steady: "within steady (client_Dial cfg)"
  unfolding client_Dial_def client_hello_def wire_send_def wire_write_def wire_read_def
  by (intro within_intros client_operation_within writeFrame_within readFrame_within net_Dial_steady
      within_steady [OF within_net_fs within_net_db] within_steady [OF within_wire_fs within_wire_db]
      within_steady [OF within_write_fs within_write_db] within_steady [OF within_flush_fs within_flush_db]
      within_steady [OF within_handshake_fs within_handshake_db] steady.pre; simp)

lemma Conn_Close_steady: "within steady Conn_Close"
  by (rule within_steady; intro wire_frames; simp)

lemma next_tick_steady: "within steady next_tick"
proof (rule within_steady)
  show "within (fs_rel (\<lambda>s s'. s' = s)) next_tick"
  proof (rule within_tick_fs)
    show "preorder_rel (\<lambda>s s' :: fsys. s' = s)" by (rule preorder_rel_frame)
    fix w :: world
    show "\<exists>r e w1 w2. tick w = (e, w1) \<and> next_tick w = (r, w2) \<and> wfs w2 = wfs w1 \<and> pending w2 = pending w1"
      by (cases "tick w") (simp add: next_tick_def)
  qed
  show "within same_index next_tick"
    unfolding within_def
  proof
    fix w :: world
    obtain e w1 where "tick w = (e, w1)" by fastforce
    then show "wdb (snd (next_tick w)) = wdb w" using tick_fields(1) by (simp add: next_tick_def)
  qed
qed

section \<open>One entry\<close>

lemma Apply_no_root:
  assumes "calm w" "mounts (wfs w) root = None" "Apply folder root e fetch w = (res, w')"
  shows "calm w' \<and> wfs w' = wfs w \<and> wdb w' = wdb w"
proof -
  have w: "at_state (wfs w) (wdb w) w" using assms(1) by (simp add: at_state_def)
  have none: "openFolder root folder v \<noteq> (Inr x, v')" if "at_state (wfs w) (wdb w) v" for v x v'
  proof
    assume "openFolder root folder v = (Inr x, v')"
    then obtain r v1 where "os_OpenRoot root v = (Inr r, v1)" unfolding openFolder_def by (auto elim!: bind_eq_InrE)
    with sys_calm [of v "fs_open_root root" r v1] that assms(2) show False by (auto simp: at_state_def fs_open_root_def)
  qed
  have "wp (Apply folder root e fetch) (\<lambda>_. at_state (wfs w) (wdb w)) (\<lambda>_. at_state (wfs w) (wdb w)) w"
    unfolding Apply_def
    by (rule wp_bind_steady [OF steady.counted w], assumption,
        rule wp_bind_steady [OF within_lift_sum [OF steady.pre]], assumption, assumption,
        rule wp_bind_steady [OF within_ctx_Err [OF steady.pre]], assumption, assumption,
        rule wp_bind_steady [OF steady.checkCapacity_within], assumption, assumption,
        rule wp_bind_steady [OF steady.openFolder_within], assumption, assumption)
       (use none in blast)
  then show ?thesis using assms(3) by (cases res) (auto simp: wp_def at_state_def)
qed

lemma Apply_calm_step:
  assumes "fetch_steady fetch" "calm w" "fs_wf (wfs w)" "Apply folder root e fetch w = (res, w')"
  shows "calm w' \<and> fs_wf (wfs w') \<and> mounts (wfs w') = mounts (wfs w)"
proof (cases "mounts (wfs w) root")
  case None
  from Apply_no_root [OF assms(2) None assms(4)] assms(3) show ?thesis by simp
next
  case (Some r)
  have w: "at_state (wfs w) (wdb w) w" using assms(2) by (simp add: at_state_def)
  note ap = Apply_wp [OF assms(1) w assms(3) Some, of folder e]
  have "outcome folder r e (wdb w) (wfs w) w'"
    using ap assms(4) by (cases res) (auto simp: wp_def apply_post_def)
  then show ?thesis using assms(3) by (auto simp: outcome_def untouched_def placed_def same_except_def)
qed

text \<open>A file that neither the index nor the announced entry describes: it was edited on this machine.\<close>

definition edited :: "string \<Rightarrow> nat \<Rightarrow> string \<Rightarrow> bytes \<Rightarrow> world \<Rightarrow> bool" where
  "edited folder r name old w \<longleftrightarrow> content (wfs w) r (components name) = Some old
     \<and> (\<forall>raw ix. select_manifest (wdb w) folder name = Some raw \<longrightarrow> json_Unmarshal raw = Some ix \<longrightarrow> EHash ix \<noteq> hashBytes old)"

lemma Apply_rows:
  assumes "fetch_steady fetch" "Apply folder root e fetch w = (res, w')"
  shows "select_manifest (wdb w') g q =
    (if g = folder \<and> q = EPath e \<and> res = Inr () then Some (json_Marshal e) else select_manifest (wdb w) g q)"
proof -
  have st: "stores folder e (Apply folder root e fetch)"
    by (rule stores_Apply) (use assms(1) in \<open>auto simp: fetch_steady_def\<close>)
  show ?thesis
  proof (cases res)
    case (Inl err)
    with assms(2) commits_Inl [OF st] show ?thesis by fastforce
  next
    case (Inr u)
    with assms(2) commits_Inr [OF st, of w u w'] show ?thesis by (auto simp: select_upsert_row)
  qed
qed

lemma Apply_edited:
  assumes "fetch_steady fetch" "calm w" "fs_wf (wfs w)" "mounts (wfs w) root = Some r"
    and ed: "edited folder r name old w" and valid: "validPath name = Inr ()"
    and ann: "EPath e = name \<Longrightarrow> EHash e \<noteq> hashBytes old"
    and ap: "Apply folder root e fetch w = (res, w')"
  shows "edited folder r name old w'"
proof -
  note oc = Apply_outcome(1) [OF assms(1-4) ap]
  have c: "content (wfs w') r (components name) = Some old"
  proof (cases "EPath e = name")
    case True
    have "\<not> approved folder r e (wdb w) (wfs w)"
      using ed content_lookup [of "wfs w" r "components name" old] True
      by (auto simp: approved_def edited_def split: option.splits)
    then have "untouched (wfs w) r (wfs w')" using oc by blast
    from untouched_content [OF this valid] ed show ?thesis by (simp add: edited_def)
  next
    case False
    then show ?thesis
      using oc untouched_content [OF _ valid] placed_content [OF _ valid valid_entry_path] ed
      by (auto simp: edited_def)
  qed
  have "EHash ix \<noteq> hashBytes old"
    if "select_manifest (wdb w') folder name = Some raw" "json_Unmarshal raw = Some ix" for raw ix
  proof (cases "name = EPath e \<and> res = Inr ()")
    case True
    then have "valid_entry e" using ap Apply_invalid [of e _ folder root fetch w] by (cases "ValidateEntry e") (auto simp: valid_entry_def)
    then show ?thesis using True that Apply_rows [OF assms(1) ap] ann manifest.dec_enc by auto
  next
    case False
    then show ?thesis using that Apply_rows [OF assms(1) ap] ed by (auto simp: edited_def split: if_splits)
  qed
  with c show ?thesis by (simp add: edited_def)
qed

section \<open>A whole listing\<close>

text \<open>C34. A file that was edited in a replica, so that it is neither the indexed version nor an
  announced one, survives the application of every listing a peer can send.\<close>

theorem replication_keeps_edits:
  assumes "calm w" "fs_wf (wfs w)" "mounts (wfs w) (FPath f) = Some r" "validPath name = Inr ()"
    "edited (FID f) r name old w" "\<And>e. e \<in> set es \<Longrightarrow> EPath e = name \<Longrightarrow> EHash e \<noteq> hashBytes old"
  shows "edited (FID f) r name old (snd (apply_entries f es acc w))"
  using assms
proof (induction es arbitrary: acc w)
  case (Cons e es)
  obtain res w1 where ap: "Apply (FID f) (FPath f) e (Some (client_ReadBlock (FID f) (EPath e) (EHash e))) w = (res, w1)"
    by fastforce
  note step = Apply_calm_step [OF client_fetch_steady Cons.prems(1,2) ap]
  have "edited (FID f) r name old w1"
    by (rule Apply_edited [OF client_fetch_steady Cons.prems(1-3) Cons.prems(5,4) _ ap]) (use Cons.prems(6) in auto)
  then show ?case
    using Cons.IH [of w1] step Cons.prems ap by (cases res) (auto simp: run_bind run_attempt)
qed simp

section \<open>Other folders\<close>

text \<open>Nothing that a tree outside \<open>roots\<close> shows changes.\<close>

definition spares :: "string set \<Rightarrow> world \<Rightarrow> world \<Rightarrow> bool" where
  "spares roots w w' \<longleftrightarrow> (calm w \<and> fs_wf (wfs w) \<longrightarrow> calm w' \<and> fs_wf (wfs w') \<and> mounts (wfs w') = mounts (wfs w)
     \<and> (\<forall>r q. Some r \<notin> mounts (wfs w) ` roots \<longrightarrow> content (wfs w') r q = content (wfs w) r q))"

lemma preorder_spares [simp, intro]: "preorder_rel (spares roots)"
  by (auto simp: preorder_rel_def spares_def intro!: reflpI transpI)

lemma steady_spares: "within steady m \<Longrightarrow> within (spares roots) m"
proof -
  assume m: "within steady m"
  show "within (spares roots) m"
    unfolding within_def
  proof
    fix w
    obtain r w' where run: "m w = (r, w')" by fastforce
    have "within (fs_rel (\<lambda>s s'. s' = s)) m" using m by (simp add: within_def steady_def)
    from fs_rel_calm [OF this preorder_rel_frame _ run] show "spares roots w (snd (m w))"
      by (auto simp: run spares_def)
  qed
qed

lemma Apply_spares:
  assumes "fetch_steady fetch" "root \<in> roots"
  shows "within (spares roots) (Apply folder root e fetch)"
  unfolding within_def
proof
  fix w
  obtain res w' where ap: "Apply folder root e fetch w = (res, w')" by fastforce
  have "content (wfs w') r q = content (wfs w) r q"
    if "calm w" "fs_wf (wfs w)" "Some r \<notin> mounts (wfs w) ` roots" for r q
  proof (cases "mounts (wfs w) root")
    case None
    from Apply_no_root [OF that(1) None ap] show ?thesis by simp
  next
    case (Some r')
    then have "r \<noteq> r'" using that(3) assms(2) by (metis imageI)
    with Apply_outcome(1) [OF assms(1) that(1,2) Some ap] show ?thesis
      using untouched_any_content placed_any_content by (auto simp: scratch_def scratch_or_def)
  qed
  with Apply_calm_step [OF assms(1) _ _ ap] show "spares roots w (snd (Apply folder root e fetch w))"
    by (simp add: spares_def ap)
qed

lemma apply_entries_spares: "FPath f \<in> roots \<Longrightarrow> within (spares roots) (apply_entries f es acc)"
proof (induction es arbitrary: acc)
  case (Cons e es)
  show ?case
    unfolding apply_entries.simps
    by (intro within_intros preorder_spares Apply_spares client_fetch_steady Cons)
qed (simp add: within_return)

lemma sync_folder_spares: "FPath f \<in> roots \<Longrightarrow> within (spares roots) (sync_folder i peer f client)"
  unfolding sync_folder_def
  by (intro within_intros preorder_spares apply_entries_spares steady_spares [OF steady.CheckFolder_within]
      steady_spares [OF client_Dial_steady] steady_spares [OF client_List_steady] steady_spares [OF Conn_Close_steady])

lemma within_update: "preorder_rel R \<Longrightarrow> within (\<lambda>d d'. R (dworld d) (dworld d')) (update i n x err)"
  by (simp add: within_def update_def run_bind zoom_def time_Now_def Let_def)

lemma preorder_machine: "preorder_rel R \<Longrightarrow> preorder_rel (\<lambda>d d'. R (dworld d) (dworld d'))"
  by (auto simp: preorder_rel_def reflp_def transp_def)

lemma replicate_folders_spares:
  "FPath ` set fs \<subseteq> roots \<Longrightarrow> within (\<lambda>d d'. spares roots (dworld d) (dworld d')) (replicate_folders peer fs client)"
proof (induction fs arbitrary: client)
  case (Cons f fs)
  show ?case
    unfolding replicate_folders.simps
    by (intro within_intros preorder_machine preorder_spares machine_of.within_zoom within_update sync_folder_spares Cons)
       (use Cons.prems in auto)
qed (simp add: within_return preorder_machine)

lemma replicate_rounds_spares:
  "FPath ` set fs \<subseteq> roots \<Longrightarrow> within (\<lambda>d d'. spares roots (dworld d) (dworld d')) (replicate_rounds n peer fs client)"
proof (induction n arbitrary: client)
  case (Suc n)
  show ?case
    unfolding replicate_rounds.simps
    by (intro within_intros preorder_machine preorder_spares machine_of.within_zoom replicate_folders_spares Suc
        steady_spares [OF next_tick_steady] steady_spares [OF Conn_Close_steady] steady_spares [OF within_ctx_Err [OF steady.pre]])
qed (simp add: within_return preorder_machine)

section \<open>Local sources\<close>

lemma apart_irrefl: "\<not> apart p p"
  by (simp add: apart_def containsPath_def filepath_Rel_def has_prefix_def)

lemma folder_roots_distinct:
  assumes "config_ok os c" "(i, f) \<in> set (CFolders c)" "(j, g) \<in> set (CFolders c)" "i \<noteq> j"
  shows "root_path os (FPath f) \<noteq> root_path os (FPath g)"
proof -
  let ?R = "\<lambda>p q. apart (the (root_path os p)) (the (root_path os q))"
  let ?xs = "StateDir c # map (FPath \<circ> snd) (CFolders c)"
  obtain ys zs where s: "CFolders c = ys @ (j, g) # zs" using assms(3) by (auto simp: in_set_conv_decomp)
  with assms(2,4) have "(i, f) \<in> set ys \<union> set zs" by auto
  then have "FPath f \<in># mset ?xs - {#FPath g#}" using s by force
  moreover have "FPath g \<in> set ?xs" using assms(3) by force
  moreover have "sorted_wrt ?R ?xs" using assms(1) by (simp add: config_ok_def roots_apart_pairs del: sorted_wrt.simps)
  ultimately have "?R (FPath g) (FPath f)"
    using iffD1 [OF sorted_wrt_symmetric [of ?R ?xs, OF apart_sym]] by (metis set_mset_mset)
  then show ?thesis using apart_irrefl by metis
qed

lemma folders_from_source:
  assumes "g \<in> set (folders_from c name)"
  shows "\<exists>j. (j, g) \<in> set (CFolders c) \<and> FSource g = name"
proof -
  from assms obtain j where j: "j \<in> fst ` set (CFolders c)" "g = folder_named c j" "FSource g = name"
    by (auto simp: folders_from_def sortedFolders_def)
  then obtain h where "map_of (CFolders c) j = Some h" by (metis map_of_eq_None_iff not_None_eq)
  with j show ?thesis by (auto simp: folder_named_def dest: map_of_SomeD)
qed

text \<open>C35. However long the replication from a peer runs on an otherwise idle machine and whatever the
  peer sends, every path below the root of a folder whose source is local shows the same bytes
  afterwards: the configuration is accepted, its folder ids are distinct, and paths that lead to the
  same directory have the same canonical path (what EvalSymlinks is for).\<close>

theorem local_sources_kept:
  assumes "calm (dworld d)" "fs_wf (wfs (dworld d))"
    "Validate os (dcfg d) = Inr ()" "(pn, peer) \<in> set (CPeers (dcfg d))"
    "(i, f) \<in> set (CFolders (dcfg d))" "distinct (map fst (CFolders (dcfg d)))" "FSource f = ''local''"
    "mounts (wfs (dworld d)) (FPath f) = Some r"
    "\<And>p q t. mounts (wfs (dworld d)) p = Some t \<Longrightarrow> mounts (wfs (dworld d)) q = Some t \<Longrightarrow> root_path os p = root_path os q"
  shows "content (wfs (dworld (snd (replicate_rounds n peer (folders_from (dcfg d) pn) client d)))) r q
    = content (wfs (dworld d)) r q"
proof -
  let ?fs = "folders_from (dcfg d) pn"
  have ok: "config_ok os (dcfg d)" using assms(3) by (simp add: Validate_Inr)
  have "pn \<noteq> ''local''" using ok assms(4) by (auto simp: config_ok_def peer_ok_def)
  have "mounts (wfs (dworld d)) (FPath g) \<noteq> Some r" if g: "g \<in> set ?fs" for g
  proof
    assume m: "mounts (wfs (dworld d)) (FPath g) = Some r"
    obtain j where j: "(j, g) \<in> set (CFolders (dcfg d))" "FSource g = pn" using folders_from_source [OF g] by blast
    have "i \<noteq> j"
    proof
      assume "i = j"
      with assms(5,6) j(1) have "f = g" by (metis map_of_is_SomeI option.inject)
      with j(2) assms(7) \<open>pn \<noteq> ''local''\<close> show False by simp
    qed
    from folder_roots_distinct [OF ok assms(5) j(1) this] assms(9) [OF assms(8) m] show False by simp
  qed
  then have "Some r \<notin> mounts (wfs (dworld d)) ` FPath ` set ?fs" by force
  then show ?thesis
    using replicate_rounds_spares [of ?fs "FPath ` set ?fs" n peer client] assms(1,2)
    by (simp add: within_def spares_def)
qed

section \<open>Examples\<close>

theorem replication_keeps_edits_witness:
  "edited ''f'' 0 ''a'' ''old'' (snd (apply_entries \<lparr>FID = ''f'', FPath = ''/r'', FSource = ''p'', FPeers = [''p'']\<rparr>
     [demo_remote ''a'', demo_remote ''b''] zero_stats demo_world))"
proof -
  have "edited ''f'' 0 ''a'' ''old'' demo_world"
    using demo_content by (simp add: edited_def demo_world_def empty_database_def select_manifest_def)
  moreover have "EHash e \<noteq> hashBytes ''old''" if "e \<in> set [demo_remote ''a'', demo_remote ''b'']" for e
    using that demo_remote_hash by (metis empty_iff empty_set set_ConsD)
  ultimately show ?thesis
    using replication_keeps_edits [OF demo_calm(1) demo_wf _ demo_valid(1),
      of "\<lparr>FID = ''f'', FPath = ''/r'', FSource = ''p'', FPeers = [''p'']\<rparr>" 0 "''old''"] demo_calm(3)
    by (simp del: apply_entries.simps list.set)
qed

definition demo_config_two :: Config where
  "demo_config_two = demo_config\<lparr>CFolders := CFolders demo_config @
     [(''g'', \<lparr>FID = ''g'', FPath = ''/q'', FSource = ''b'', FPeers = [''b'']\<rparr>)]\<rparr>"

lemma demo_two_valid: "Validate demo_paths demo_config_two = Inr ()"
  by code_simp

definition demo_two :: Daemon where
  "demo_two = demo_daemon\<lparr>dcfg := demo_config_two,
     dworld := demo_world\<lparr>wfs := demo_fs\<lparr>mounts := [''/r'' \<mapsto> 0, ''/q'' \<mapsto> 1]\<rparr>\<rparr>\<rparr>"

lemma demo_two_cfg: "dcfg demo_two = demo_config_two"
  by (simp add: demo_two_def)

theorem local_sources_kept_witness:
  "content (wfs (dworld (snd (replicate_rounds 3 \<lparr>PName = ''b'', PAddress = ''h:2'', PDeviceID = replicate 64 (CHR ''b'')\<rparr>
      (folders_from (dcfg demo_two) ''b'') False demo_two)))) 0 [''a'']
    = content (wfs (dworld demo_two)) 0 [''a'']"
  by (rule local_sources_kept [OF _ _ demo_two_valid [folded demo_two_cfg],
        where i = "''f''" and f = "\<lparr>FID = ''f'', FPath = ''/r'', FSource = ''local'', FPeers = [''a'']\<rparr>"])
     (auto simp: demo_two_cfg demo_config_two_def demo_config_def demo_two_def demo_daemon_def demo_world_def demo_fs_def
       calm_def fs_wf_def split: if_splits)

end
