(* ===== verification/Goroutines.thy ===== *)
theory Goroutines
  imports Running Replication
begin

text \<open>
  What the goroutines of \<open>Run\<close> leave alone, and the invariant of the machine: which of its parts are
  alive in which phase.
\<close>

section \<open>What the parts leave alone\<close>

text \<open>A context that is cancelled stays so.\<close>

definition ctx_kept :: "world \<Rightarrow> world \<Rightarrow> bool" where
  "ctx_kept w w' \<longleftrightarrow> (ctx_done w \<longrightarrow> ctx_done w')"

lemma preorder_ctx_kept [simp, intro]: "preorder_rel ctx_kept"
  by (auto simp: preorder_rel_def ctx_kept_def intro!: reflpI transpI)

lemma tick_ctx: "ctx_done w \<Longrightarrow> ctx_done (snd (tick w))"
  by (auto simp: tick_def split: list.splits)

lemma ctx_kept_calls:
  "within ctx_kept (sys f)" "within ctx_kept (sql_query q)" "within ctx_kept (sql_exec u)" "within ctx_kept ctx_Err"
  "within ctx_kept rand_Read" "within ctx_kept time_Now" "within ctx_kept (set_stats g)" "within ctx_kept (net n)"
  "within ctx_kept (set_wire s)" "within ctx_kept net_Dial" "within ctx_kept next_tick"
  using tick_ctx
  by (auto simp: within_def ctx_kept_def sys_def sql_query_def sql_exec_def ctx_Err_def rand_Read_def time_Now_def set_stats_def
      net_def set_wire_def net_Dial_def next_tick_def split: prod.splits option.splits list.splits sum.splits)
    (metis snd_conv)+

interpretation ctx: applying ctx_kept folder e for folder e
  by unfold_locales (simp_all add: ctx_kept_calls store_put_def)

lemma ctx_kept_writer: "within ctx_kept (Writer_Write p)" "within ctx_kept Writer_Flush"
  unfolding Writer_Write_def Writer_Flush_def put_or_send_def
  by (intro within_intros preorder_ctx_kept ctx_kept_calls)+

lemmas ctx_intros = within_intros preorder_ctx_kept ctx_kept_calls ctx_kept_writer client_operation_within writeFrame_within readFrame_within

lemma list_loop_ctx: "within ctx_kept (list_loop k acc spent)"
  by (rule list_loop_within) (intro ctx_intros)+

lemma client_ctx: "within ctx_kept (client_List folder)" "within ctx_kept (client_Dial cfg)" "within ctx_kept (client_ReadBlock folder name h b)"
  unfolding client_List_def client_Dial_def client_hello_def wire_send_def wire_write_def wire_read_def
  by (intro ctx_intros list_loop_ctx client_ReadBlock_within | (simp add: tls_Handshake_def, intro ctx_intros))+

lemma apply_entries_ctx: "within ctx_kept (apply_entries f es acc)"
  by (induction es arbitrary: acc) (auto intro!: ctx_intros ctx.Apply_within client_ctx)

lemma sync_ctx: "within ctx_kept (sync_folder i peer f client)"
  unfolding sync_folder_def by (intro ctx_intros ctx.CheckFolder_within client_ctx apply_entries_ctx)

lemma Scan_ctx: "within ctx_kept (Scan i p)"
  unfolding Scan_def by (intro ctx_intros ctx.reads ctx.openFolder_within ctx.CheckFolder_within ctx.checkMarker_within ctx.walk_within)

text \<open>Scans and replication change statuses of folders, the log and the machine, nothing else.\<close>

definition same_setup :: "Daemon \<Rightarrow> Daemon \<Rightarrow> bool" where
  "same_setup d d' \<longleftrightarrow> dcfg d' = dcfg d \<and> did d' = did d \<and> Running (dstatus d') = Running (dstatus d)
     \<and> ctx_kept (dworld d) (dworld d')"

lemma preorder_same_setup [simp, intro]: "preorder_rel same_setup"
  by (auto simp: preorder_rel_def same_setup_def ctx_kept_def intro!: reflpI transpI)

lemma on_machine_setup: "within ctx_kept m \<Longrightarrow> within same_setup (on_machine m)"
  by (auto simp: within_def zoom_def same_setup_def split: prod.split) (metis snd_conv)+

lemma update_setup: "within same_setup (update i n x err)"
  by (simp add: within_def update_def run_bind zoom_def time_Now_def Let_def same_setup_def ctx_kept_def)

lemma scan_folders_setup: "within same_setup (scan_folders ids)"
proof (induction ids)
  case (Cons i ids)
  show ?case unfolding scan_folders.simps
    by (intro within_intros preorder_same_setup on_machine_setup Scan_ctx update_setup ctx_kept_calls Cons)
qed (unfold scan_folders.simps, rule within_return, rule preorder_same_setup)

lemma Daemon_scan_setup: "within same_setup Daemon_scan"
  unfolding Daemon_scan_def by (intro within_intros preorder_same_setup scan_folders_setup)

lemma replicate_folders_setup: "within same_setup (replicate_folders peer fs client)"
  by (induction fs arbitrary: client) (auto intro!: within_intros on_machine_setup sync_ctx update_setup)


section \<open>The invariant of Run\<close>

lemma on_machine_rd: "on_daemon (on_machine m) r = (res, r') \<Longrightarrow> \<exists>w'. m (dworld (rd r)) = (res, w') \<and> r' = set_world w' r"
  by (auto simp: zoom_eq set_world_def)

definition run_frame :: "run \<Rightarrow> run \<Rightarrow> bool" where
  "run_frame r r' \<longleftrightarrow> same_setup (rd r) (rd r') \<and> r' = r\<lparr>rd := rd r', admin := admin r'\<rparr>"

lemma preorder_run_frame [simp, intro]: "preorder_rel run_frame"
proof -
  have "run_frame r r" for r by (simp add: run_frame_def)
  moreover have "run_frame r t" if "run_frame r s" "run_frame s t" for r s t
  proof -
    from that have "same_setup (rd r) (rd t)"
      by (auto simp: run_frame_def intro: preorder_rel_trans [OF preorder_same_setup])
    moreover have "t = s\<lparr>rd := rd t, admin := admin t\<rparr>" "s = r\<lparr>rd := rd s, admin := admin s\<rparr>" using that by (simp_all add: run_frame_def)
    ultimately show ?thesis unfolding run_frame_def by (metis (no_types, lifting) run.surjective run.update_convs(1,5))
  qed
  ultimately show ?thesis unfolding preorder_rel_def by (blast intro: reflpI transpI)
qed

lemma on_daemon_frame: "within same_setup m \<Longrightarrow> within run_frame (on_daemon m)"
  by (auto simp: within_def zoom_def run_frame_def split: prod.split) (metis snd_conv)+

lemma on_machine_frame: "within ctx_kept m \<Longrightarrow> within run_frame (on_daemon (on_machine m))"
  by (intro on_daemon_frame on_machine_setup)

lemma close_admin_frame: "within run_frame close_admin"
  unfolding close_admin_def
  by (intro within_intros preorder_run_frame on_machine_frame ctx_kept_calls) (simp add: within_def run_frame_def same_setup_def ctx_kept_def)

lemma close_admin_closed: "\<not> admin (snd (close_admin r))"
  by (simp add: close_admin_def run_simps split: prod.split)

lemma undoing_within: "preorder_rel R \<Longrightarrow> within R c \<Longrightarrow> within R m \<Longrightarrow> within R (undoing c m)"
  by (auto simp: within_def undoing_def split: prod.splits sum.splits) (metis preorder_rel_trans snd_conv)+

lemma Run_begin_frame: "within run_frame Run_begin"
  unfolding Run_begin_def prepare_socket_def
  by (intro within_intros undoing_within preorder_run_frame on_machine_frame on_daemon_frame Daemon_scan_setup close_admin_frame
      ctx_kept_calls preorder_ctx_kept) (simp add: within_def run_frame_def same_setup_def ctx_kept_def)

text \<open>The listener of the control socket is open after the start exactly if it succeeded.\<close>

lemma Run_begin_admin:
  assumes "Run_begin r = (res, r')" "\<not> admin r"
  shows "admin r' \<longleftrightarrow> res = Inr True"
  using assms close_admin_closed
  by (auto simp: Run_begin_def run_simps undoing_def zoom_def split: prod.splits sum.splits) (metis snd_conv)?

text \<open>How many servers have returned.\<close>

definition n_served :: "run \<Rightarrow> nat" where
  "n_served r = of_bool (served r) + of_bool (admin_served r)"

definition workers_done :: "run \<Rightarrow> bool" where
  "workers_done r \<longleftrightarrow> scanning r = ScanDone \<and> replicators r = Map.empty"

definition phase_ok :: "run \<Rightarrow> bool" where
  "phase_ok r = (case rphase r of
     Starting \<Rightarrow> served r \<and> admin_served r \<and> results r = [] \<and> workers_done r \<and> \<not> Running (dstatus (rd r))
   | Serving \<Rightarrow> length (results r) = n_served r
   | Closing e b \<Rightarrow> length (results r) + of_bool b = n_served r \<and> rctx r \<and> \<not> listening (peers r)
   | Collecting e n \<Rightarrow> n \<le> 2 \<and> length (results r) + 2 = n_served r + n \<and> workers_done r \<and> rctx r \<and> \<not> listening (peers r)
   | Finished e \<Rightarrow> served r \<and> admin_served r \<and> workers_done r \<and> \<not> Running (dstatus (rd r)))"

definition run_ok :: "run \<Rightarrow> bool" where
  "run_ok r \<longleftrightarrow> sessions_ok (peers r) \<and> (served r \<longrightarrow> (\<exists>e. phase (peers r) = Returned e))
     \<and> (admin r \<longleftrightarrow> rphase r = Serving) \<and> finite (dom (replicators r)) \<and> phase_ok r"

lemma run_ok_begin: "\<not> Running (dstatus d) \<Longrightarrow> run_ok (run_begin d)"
  by (simp add: run_ok_def run_begin_def phase_ok_def workers_done_def not_serving_def serve_begin_def sessions_ok_def)

lemma serve_step_returned: "serve_step s t \<Longrightarrow> phase s = Returned e \<Longrightarrow> phase t = Returned e"
  by (erule serve_stepE) auto

lemma serve_step_deaf: "serve_step s t \<Longrightarrow> \<not> listening s \<Longrightarrow> \<not> listening t"
  by (erule serve_stepE) auto

lemma run_frame_fields:
  assumes "run_frame r r'"
  shows "same_setup (rd r) (rd r')" "rphase r' = rphase r" "peers r' = peers r" "served r' = served r"
    "admin_served r' = admin_served r" "results r' = results r" "scanning r' = scanning r" "replicators r' = replicators r"
proof -
  show "same_setup (rd r) (rd r')" using assms by (simp add: run_frame_def)
  from assms have "r' = r\<lparr>rd := rd r', admin := admin r'\<rparr>" by (simp add: run_frame_def)
  then show "rphase r' = rphase r" "peers r' = peers r" "served r' = served r"
    "admin_served r' = admin_served r" "results r' = results r" "scanning r' = scanning r" "replicators r' = replicators r"
    by (metis run.ext_inject run.surjective run.update_convs(1,5))+
qed

lemma run_ok_rd: "run_ok r \<Longrightarrow> same_setup (rd r) d \<Longrightarrow> run_ok (r\<lparr>rd := d\<rparr>)"
  by (auto simp: run_ok_def phase_ok_def n_served_def workers_done_def same_setup_def ctx_kept_def split: run_phase.splits)

lemma run_ok_world: "run_ok r \<Longrightarrow> ctx_kept (dworld (rd r)) w \<Longrightarrow> run_ok (set_world w r)"
  unfolding set_world_def by (rule run_ok_rd) (simp_all add: same_setup_def)

lemma run_ok_scanning: "run_ok r \<Longrightarrow> scanning r \<noteq> ScanDone \<Longrightarrow> run_ok (r\<lparr>scanning := x\<rparr>)"
  by (auto simp: run_ok_def phase_ok_def n_served_def workers_done_def split: run_phase.splits)

lemma run_ok_replicators:
  "run_ok r \<Longrightarrow> replicators r \<noteq> Map.empty \<or> x = Map.empty \<Longrightarrow> finite (dom x) \<Longrightarrow> run_ok (r\<lparr>replicators := x\<rparr>)"
  by (auto simp: run_ok_def phase_ok_def n_served_def workers_done_def split: run_phase.splits)

lemma shut_down_eq:
  "\<exists>w. ctx_done w \<and> wdb w = wdb (dworld (rd r)) \<and> shut_down e b r = r\<lparr>rd := (rd r)\<lparr>dworld := w\<rparr>, peers := (peers r)\<lparr>listening := False\<rparr>, admin := False, rphase := Closing e b\<rparr>"
proof (cases "admin r")
  case True
  let ?w = "(dworld (rd r))\<lparr>ctx_done := True\<rparr>"
  obtain res w where w: "os_Remove (StateDir (rcfg r)) control_sock ?w = (res, w)" by fastforce
  have "ctx_done w" "wdb w = wdb (dworld (rd r))"
    using withinD [OF ctx_kept_calls(1) w] withinD [OF within_sys_db w] by (simp_all add: ctx_kept_def)
  then show ?thesis using w True
    by (intro exI [of _ w]) (simp add: shut_down_def close_admin_def run_simps zoom_def)
next
  case False
  then show ?thesis
    by (intro exI [of _ "(dworld (rd r))\<lparr>ctx_done := True\<rparr>"]) (simp add: shut_down_def close_admin_def run_simps)
qed

lemma run_ok_shut_down:
  assumes "sessions_ok (peers r)" "served r \<Longrightarrow> \<exists>e. phase (peers r) = Returned e" "length (results r) + of_bool b = n_served r"
    "finite (dom (replicators r))"
  shows "run_ok (shut_down e b r)"
proof -
  obtain w where "ctx_done w" "shut_down e b r = r\<lparr>rd := (rd r)\<lparr>dworld := w\<rparr>, peers := (peers r)\<lparr>listening := False\<rparr>, admin := False, rphase := Closing e b\<rparr>"
    using shut_down_eq by blast
  then show ?thesis using assms by (auto simp: run_ok_def phase_ok_def n_served_def sessions_ok_def)
qed

lemma handleRequest_within:
  assumes "preorder_rel R" "\<And>p. within R (Writer_Write p)" "within R Writer_Flush" "within R ctx_Err"
    "\<And>i. within R (backend_List b p i)" "\<And>i n h k. within R (backend_ReadBlock b p i n h k)"
  shows "within R (handleRequest b p m)"
proof -
  note w = within_intros writeFrame_within assms
  have "within R (send_entries es n)" for es n
    by (induction es arbitrary: n) (unfold send_entries.simps wire_write_def, (intro w; assumption)+)
  then show ?thesis
    unfolding handleRequest_def handle_list_def handle_block_def sendError_def wire_send_def wire_write_def by (intro w)
qed

context reading begin

lemma authorize_within: "within R (authorize c st peerID i)"
  unfolding authorize_def by (intro reads CheckFolder_within)

lemma Daemon_List_within: "within R (Daemon_List c st peerID i)"
  unfolding Daemon_List_def Store_List_def by (intro reads authorize_within)

lemma Daemon_ReadBlock_within:
  assumes "within R ctx_Err"
  shows "within R (Daemon_ReadBlock c st peerID i name h b)"
  unfolding Daemon_ReadBlock_def Store_ReadBlock_def store_get_def
  by (intro reads authorize_within openFolder_within checkComponents_within assms)

end

lemma handleRequest_daemon:
  assumes "reading R" "\<And>p. within R (Writer_Write p)" "within R Writer_Flush" "within R ctx_Err"
  shows "within R (handleRequest (daemon_backend c st) peerID m)"
  by (rule handleRequest_within)
     (simp_all add: assms daemon_backend_def reading.pre reading.Daemon_List_within reading.Daemon_ReadBlock_within)

lemma handleRequest_ctx: "within ctx_kept (handleRequest (daemon_backend c st) peerID m)"
  by (rule handleRequest_daemon) (simp_all add: ctx.reading_axioms ctx_kept_writer ctx_kept_calls)

lemma run_ok_step:
  assumes "run_ok r" "run_step r t"
  shows "run_ok t"
  using assms(2)
proof cases
  case (start_serving r' addr)
  note f = run_frame_fields [OF withinD [OF Run_begin_frame start_serving(3)]]
  have "admin r'" using Run_begin_admin [OF start_serving(3)] assms(1) start_serving(2) by (auto simp: run_ok_def)
  then show ?thesis using assms(1) start_serving(2) f sessions_start
    by (simp add: start_serving(1) run_ok_def launch_def phase_ok_def n_served_def Let_def workers_of_def finite_dom_map_of)
next
  case (start_cancelled r')
  note f = run_frame_fields [OF withinD [OF Run_begin_frame start_cancelled(3)]]
  have "\<not> admin r'" using Run_begin_admin [OF start_cancelled(3)] assms(1) start_cancelled(2) by (auto simp: run_ok_def)
  then show ?thesis using assms(1) start_cancelled(2) f
    by (simp add: start_cancelled(1) run_ok_def phase_ok_def workers_done_def same_setup_def)
next
  case (start_fails err r')
  note f = run_frame_fields [OF withinD [OF Run_begin_frame start_fails(3)]]
  have "\<not> admin r'" using Run_begin_admin [OF start_fails(3)] assms(1) start_fails(2) by (auto simp: run_ok_def)
  then show ?thesis using assms(1) start_fails(2) f
    by (simp add: start_fails(1) run_ok_def phase_ok_def workers_done_def same_setup_def)
next
  case (world_moves w)
  then show ?thesis using assms(1) by (auto intro!: run_ok_world simp: moved_def ctx_kept_def)
next
  case (serve s)
  have "sessions_ok s" using assms(1) serve(2) sessions_step by (auto simp: run_ok_def)
  then show ?thesis using assms(1) serve_step_returned [OF serve(2)] serve_step_deaf [OF serve(2)]
    by (auto simp: serve(1) run_ok_def phase_ok_def n_served_def workers_done_def split: run_phase.splits)
next
  case (scan_next i ids res d)
  have "run_ok (r\<lparr>rd := d\<rparr>)" using run_ok_rd [OF assms(1)] withinD [OF scan_folders_setup scan_next(3)] by blast
  then show ?thesis
    unfolding scan_next(1) by (rule run_ok_scanning) (simp add: scan_next(2))
next
  case (round_next name client f fs client' d)
  have "run_ok (r\<lparr>rd := d\<rparr>)" using run_ok_rd [OF assms(1)] withinD [OF replicate_folders_setup round_next(3)] by blast
  then show ?thesis
    unfolding round_next(1) by (rule run_ok_replicators) (use round_next(2) assms(1) in \<open>auto simp: run_ok_def\<close>)
next
  case (request c peerID m)
  show ?thesis unfolding request(1)
    by (rule run_ok_world [OF assms(1)]) (use handleRequest_ctx in \<open>simp add: within_def\<close>)
next
  case stop_cancelled
  then show ?thesis using assms(1) run_ok_shut_down [of r False None] by (simp add: run_ok_def phase_ok_def)
next
  case (stop_result e es)
  then show ?thesis using assms(1) run_ok_shut_down [of "r\<lparr>results := es\<rparr>" True e] by (simp add: run_ok_def phase_ok_def n_served_def)
next
  case (round_begins name client)
  show ?thesis unfolding round_begins(1) by (rule run_ok_replicators [OF assms(1)]) (use round_begins(2) assms(1) in \<open>auto simp: run_ok_def\<close>)
next
  case (round_over name client)
  show ?thesis unfolding round_over(1) by (rule run_ok_replicators [OF assms(1)]) (use round_over(2) assms(1) in \<open>auto simp: run_ok_def\<close>)
next
  case (round_stops name client)
  have "run_ok (r\<lparr>replicators := (replicators r)(name := None)\<rparr>)"
    by (rule run_ok_replicators [OF assms(1)]) (use round_stops(2) assms(1) in \<open>auto simp: run_ok_def\<close>)
  then show ?thesis unfolding round_stops(1)
    by (rule run_ok_world) (simp add: run_do_if set_wire_def ctx_kept_def)
next
  case (finish e)
  with assms(1) show ?thesis
    by (cases "served r"; cases "admin_served r") (auto simp: run_ok_def phase_ok_def n_served_def workers_done_def run_finish_def)
qed (use assms(1) in \<open>auto simp: run_ok_def phase_ok_def n_served_def workers_done_def split: run_phase.splits\<close>)

interpretation running: machine "\<lambda>r. \<exists>d. r = run_begin d \<and> \<not> Running (dstatus d)" run_step run_ok
  by unfold_locales (auto simp: run_ok_begin run_ok_step)

end
