(* ===== verification/Shutdown.thy ===== *)
theory Shutdown
  imports Goroutines
begin

text \<open>The end of \<open>Run\<close>: it can always be reached, and then nothing of the daemon is left running.\<close>

section \<open>The end can be reached\<close>

definition ends :: "run \<Rightarrow> bool" where
  "ends r \<longleftrightarrow> (\<exists>t e. run_step\<^sup>*\<^sup>* r t \<and> rphase t = Finished e)"

lemma ends_step: "run_step r t \<Longrightarrow> ends t \<Longrightarrow> ends r"
  unfolding ends_def by (meson converse_rtranclp_into_rtranclp)

lemma ends_steps: "run_step\<^sup>*\<^sup>* r t \<Longrightarrow> ends t \<Longrightarrow> ends r"
  unfolding ends_def by (meson rtranclp_trans)

lemma run_ok_steps: "run_step\<^sup>*\<^sup>* r t \<Longrightarrow> run_ok r \<Longrightarrow> run_ok t"
  by (rule running.run_good)

text \<open>Both servers have returned and the workers are gone: the results are read.\<close>

lemma ends_collecting: "rphase r = Collecting e n \<Longrightarrow> length (results r) = n \<Longrightarrow> ends r"
proof (induction n arbitrary: r)
  case 0
  have "run_step r (run_finish e r)" by (rule finish) (rule 0)
  moreover have "ends (run_finish e r)" unfolding ends_def run_finish_def by (auto intro: exI [of _ "r\<lparr>rphase := Finished (run_error e), rd := (rd r)\<lparr>dstatus := (dstatus (rd r))\<lparr>Running := False\<rparr>\<rparr>\<rparr>"])
  ultimately show ?case by (rule ends_step)
next
  case (Suc n)
  then obtain x xs where "results r = x # xs" by (cases "results r") auto
  from collect [OF Suc.prems(1) this] show ?case
    by (rule ends_step) (rule Suc.IH, use Suc.prems \<open>results r = _\<close> in simp_all)
qed

text \<open>The servers return once the context is cancelled.\<close>

lemma lift_serve:
  assumes "serve_step\<^sup>*\<^sup>* (peers r) s" "rctx r"
  shows "run_step\<^sup>*\<^sup>* r (r\<lparr>peers := s\<rparr>)"
  using assms(1)
proof (induction rule: rtranclp_induct)
  case (step s t)
  have "run_step (r\<lparr>peers := s\<rparr>) (r\<lparr>peers := s\<rparr>\<lparr>peers := t\<rparr>)" by (rule serve) (use step assms(2) in simp_all)
  with step.IH show ?case by simp
qed simp

lemma peers_return:
  assumes "run_ok r" "rctx r"
  shows "\<exists>s e. run_step\<^sup>*\<^sup>* r (r\<lparr>peers := s\<rparr>) \<and> phase s = Returned e"
proof -
  let ?s = "(peers r)\<lparr>cancelled := True\<rparr>"
  have st: "serve_step (peers r) ?s" by (rule interrupt)
  have "sessions_ok ?s" using assms(1) sessions_step [OF _ st] by (simp add: run_ok_def)
  from server_can_return [OF this] obtain t e where t: "serve_step\<^sup>*\<^sup>* ?s t" "phase t = Returned e" by auto
  with st have "serve_step\<^sup>*\<^sup>* (peers r) t" by (meson converse_rtranclp_into_rtranclp)
  from lift_serve [OF this assms(2)] t(2) show ?thesis by blast
qed

lemma servers_return:
  assumes "run_ok r" "rctx r" "rphase r = Collecting e n"
  shows "ends r"
proof -
  obtain s x where s: "run_step\<^sup>*\<^sup>* r (r\<lparr>peers := s\<rparr>)" "phase s = Returned x" using peers_return [OF assms(1,2)] by blast
  let ?r = "r\<lparr>peers := s\<rparr>"
  have ok: "run_ok ?r" by (rule run_ok_steps [OF s(1) assms(1)])
  define t where "t = (if served r then ?r else ?r\<lparr>served := True, results := results r @ [x]\<rparr>)"
  have t: "run_step\<^sup>*\<^sup>* ?r t" using serve_returns [of ?r x] s(2) by (auto simp: t_def)
  define u where "u = (if admin_served t then t else t\<lparr>admin_served := True, results := results t @ [Some http_ErrServerClosed]\<rparr>)"
  have u: "run_step\<^sup>*\<^sup>* t u" using admin_returns [of t http_ErrServerClosed] by (auto simp: u_def)
  have "run_ok u" by (rule run_ok_steps [OF u run_ok_steps [OF t ok]])
  moreover have u': "served u" "admin_served u" "rphase u = Collecting e n" using assms(3) by (simp_all add: u_def t_def)
  ultimately have "length (results u) = n" by (simp add: run_ok_def phase_ok_def n_served_def)
  from ends_collecting [OF u'(3) this] ends_steps [OF s(1) ends_steps [OF t ends_steps [OF u]]] show ?thesis by blast
qed

text \<open>The workers finish what they have begun and see the cancelled context.\<close>

lemma scanner_done:
  assumes "rctx r"
  shows "\<exists>t. run_step\<^sup>*\<^sup>* r t \<and> scanning t = ScanDone \<and> rphase t = rphase r \<and> replicators t = replicators r \<and> rctx t"
proof -
  have idle: "\<exists>t. run_step\<^sup>*\<^sup>* r t \<and> scanning t = ScanDone \<and> rphase t = rphase r \<and> replicators t = replicators r \<and> rctx t"
    if "scanning r = ScanIdle" "rctx r" for r
    using scan_stops [OF that] that(2) by (intro exI [of _ "r\<lparr>scanning := ScanDone\<rparr>"]) auto
  have todo: "\<exists>t. run_step\<^sup>*\<^sup>* r t \<and> scanning t = ScanIdle \<and> rphase t = rphase r \<and> replicators t = replicators r \<and> rctx t"
    if "scanning r = ScanTodo ids" "rctx r" for ids r
    using that
  proof (induction ids arbitrary: r)
    case Nil
    then show ?case using scan_over [OF Nil(1)] by (intro exI [of _ "r\<lparr>scanning := ScanIdle\<rparr>"]) auto
  next
    case (Cons i ids)
    obtain res d where d: "scan_folders [i] (rd r) = (res, d)" by fastforce
    then have c: "ctx_done (dworld d)" using withinD [OF scan_folders_setup d] Cons.prems(2) by (simp add: same_setup_def ctx_kept_def)
    let ?t = "r\<lparr>rd := d, scanning := (if FSource (folder_named (rcfg r) i) = ''local'' \<and> ctx_done (dworld d) then ScanIdle else ScanTodo ids)\<rparr>"
    have st: "run_step r ?t" by (rule scan_next [OF Cons.prems(1) d])
    show ?case
    proof (cases "FSource (folder_named (rcfg r) i) = ''local''")
      case True
      then show ?thesis using st c by (intro exI [of _ ?t]) auto
    next
      case False
      with Cons.IH [of ?t] c obtain t where "run_step\<^sup>*\<^sup>* ?t t" "scanning t = ScanIdle" "rphase t = rphase r" "replicators t = replicators r" "rctx t"
        by auto
      with st show ?thesis by (meson converse_rtranclp_into_rtranclp)
    qed
  qed
  show ?thesis
  proof (cases "scanning r")
    case (ScanTodo ids)
    from todo [OF this assms] obtain t where t: "run_step\<^sup>*\<^sup>* r t" "scanning t = ScanIdle" "rphase t = rphase r" "replicators t = replicators r" "rctx t"
      by blast
    with idle [OF t(2,5)] show ?thesis by (metis rtranclp_trans)
  qed (use idle assms in blast)+
qed

lemma returns_apply_entries: "\<exists>x w'. apply_entries f es acc w = (Inr x, w')"
  by (induction es arbitrary: acc w) (auto simp: run_simps split: sum.split prod.split)

lemma sync_folder_Inr: "\<exists>x w'. sync_folder i peer f client w = (Inr x, w')"
proof -
  note returns_apply_entries [of f]
  then show ?thesis
    by (auto simp: sync_folder_def run_simps set_wire_def split: sum.split prod.split option.split) (metis sum.distinct(1) prod.inject)+
qed

lemma replicate_folders_Inr: "\<exists>x d'. replicate_folders peer fs client d = (Inr x, d')"
proof (induction fs arbitrary: client d)
  case (Cons f fs)
  obtain res w where w: "sync_folder (did d) peer f client (dworld d) = (res, w)" by fastforce
  have "\<exists>x. res = Inr x" using w sync_folder_Inr by (metis prod.inject)
  then show ?case using w Cons.IH by (auto simp: run_simps zoom_def update_def time_Now_def Let_def)
qed simp

lemma replicator_done:
  assumes "rctx r" "replicators r name = Some j"
  shows "\<exists>t. run_step\<^sup>*\<^sup>* r t \<and> scanning t = scanning r \<and> rphase t = rphase r \<and> replicators t = (replicators r)(name := None) \<and> rctx t"
proof -
  have stop: "\<exists>t. run_step\<^sup>*\<^sup>* r t \<and> scanning t = scanning r \<and> rphase t = rphase r \<and> replicators t = (replicators r)(name := None) \<and> rctx t"
    if "replicators r name = Some (RoundStart c) \<or> replicators r name = Some (RoundTodo c [])" "rctx r" for r c
  proof (intro exI conjI)
    let ?t = "set_world (snd (do_if c Conn_Close (dworld (rd r)))) (r\<lparr>replicators := (replicators r)(name := None)\<rparr>)"
    show "run_step\<^sup>*\<^sup>* r ?t" using round_stops [OF that] by blast
    show "rctx ?t" using that(2) by (simp add: set_world_def run_do_if set_wire_def)
  qed (simp_all add: set_world_def)
  have todo: "\<exists>t. run_step\<^sup>*\<^sup>* r t \<and> scanning t = scanning r \<and> rphase t = rphase r \<and> replicators t = (replicators r)(name := None) \<and> rctx t"
    if "replicators r name = Some (RoundTodo c fs)" "rctx r" for r c fs
    using that
  proof (induction fs arbitrary: r c)
    case Nil
    then show ?case using stop by blast
  next
    case (Cons f fs)
    obtain c' d where d: "replicate_folders (peer_named (rcfg r) name) [f] c (rd r) = (Inr c', d)" using replicate_folders_Inr by blast
    let ?t = "r\<lparr>rd := d, replicators := (replicators r)(name \<mapsto> RoundTodo c' fs)\<rparr>"
    have st: "run_step r ?t" by (rule round_next [OF Cons.prems(1) d])
    have c: "ctx_done (dworld d)" using withinD [OF replicate_folders_setup d] Cons.prems(2) by (simp add: same_setup_def ctx_kept_def)
    have "\<exists>t. run_step\<^sup>*\<^sup>* ?t t \<and> scanning t = scanning ?t \<and> rphase t = rphase ?t \<and> replicators t = (replicators ?t)(name := None) \<and> rctx t"
      by (rule Cons.IH) (use c in simp_all)
    then obtain t where t: "run_step\<^sup>*\<^sup>* ?t t" "scanning t = scanning ?t" "rphase t = rphase ?t"
      "replicators t = (replicators ?t)(name := None)" "rctx t" by blast
    have "run_step\<^sup>*\<^sup>* r t" using st t(1) by (rule converse_rtranclp_into_rtranclp)
    moreover have "replicators t = (replicators r)(name := None)" unfolding t(4) by simp
    moreover have "scanning t = scanning r" "rphase t = rphase r" using t(2,3) by simp_all
    ultimately show ?case using t(5) by blast
  qed
  show ?thesis using stop todo assms by (cases j) blast+
qed

lemma workers_end:
  assumes "finite (dom (replicators r))" "rctx r"
  shows "\<exists>t. run_step\<^sup>*\<^sup>* r t \<and> scanning t = ScanDone \<and> rphase t = rphase r \<and> replicators t = Map.empty \<and> rctx t"
  using assms
proof (induction "card (dom (replicators r))" arbitrary: r)
  case 0
  then have "replicators r = Map.empty" by simp
  with scanner_done [OF 0(3)] show ?case by metis
next
  case (Suc n)
  then obtain name j where j: "replicators r name = Some j" by (metis card.empty domIff ex_in_conv nat.distinct(1) not_None_eq)
  from replicator_done [OF Suc.prems(2) j] obtain t where t: "run_step\<^sup>*\<^sup>* r t" "rphase t = rphase r" "replicators t = (replicators r)(name := None)" "rctx t"
    by blast
  have "dom (replicators t) = dom (replicators r) - {name}" by (simp add: t(3))
  then have "card (dom (replicators t)) = n" "finite (dom (replicators t))" using Suc.hyps(2) Suc.prems(1) domI [of "replicators r" name j, OF j] by (simp_all add: card_Diff_singleton)
  from Suc.hyps(1) [OF this(1)[symmetric] this(2) t(4)] t(1,2) show ?case by (metis rtranclp_trans)
qed

lemma ends_closing:
  assumes "run_ok r" "rphase r = Closing e b"
  shows "ends r"
proof -
  have c: "rctx r" "finite (dom (replicators r))" using assms by (simp_all add: run_ok_def phase_ok_def)
  from workers_end [OF c(2,1)] obtain t where t: "run_step\<^sup>*\<^sup>* r t" "scanning t = ScanDone" "rphase t = Closing e b" "replicators t = Map.empty" "rctx t"
    using assms(2) by auto
  have st: "run_step t (t\<lparr>rphase := Collecting e (if b then 1 else 2)\<rparr>)" by (rule workers_gone [OF t(3,2,4)])
  have "ends (t\<lparr>rphase := Collecting e (if b then 1 else 2)\<rparr>)"
    by (rule servers_return [OF run_ok_step [OF run_ok_steps [OF t(1) assms(1)] st]]) (simp_all add: t(5))
  then show ?thesis by (rule ends_steps [OF t(1) ends_step [OF st]])
qed

lemma ends_serving: "run_ok r \<Longrightarrow> rphase r = Serving \<Longrightarrow> rctx r \<Longrightarrow> ends r"
  by (rule ends_step [OF stop_cancelled], assumption+, rule ends_closing [OF run_ok_step [OF _ stop_cancelled]], assumption+)
     (use shut_down_eq [where e = None and b = False and r = r] in auto)

lemma ends_starting:
  assumes "run_ok r" "rphase r = Starting" "rctx r"
  shows "ends r"
proof -
  have fin: "ends (r'\<lparr>rphase := Finished e\<rparr>)" for r' e unfolding ends_def by (rule exI [of _ "r'\<lparr>rphase := Finished e\<rparr>"]) auto
  obtain res r' where b: "Run_begin r = (res, r')" by fastforce
  show ?thesis
  proof (cases res)
    case (Inl err)
    from start_fails [OF assms(2) b [unfolded Inl]] fin show ?thesis by (rule ends_step)
  next
    case (Inr x)
    show ?thesis
    proof (cases x)
      case False
      from start_cancelled [OF assms(2)] b Inr False fin show ?thesis by (auto intro: ends_step)
    next
      case True
      with start_serving [OF assms(2), of r' "[]"] b Inr have st: "run_step r (launch [] r')" by simp
      have "rctx r'" using run_frame_fields(1) [OF withinD [OF Run_begin_frame b]] assms(3) by (simp add: same_setup_def ctx_kept_def)
      then have "rctx (launch [] r')" "rphase (launch [] r') = Serving" by (simp_all add: launch_def Let_def)
      with ends_serving [OF run_ok_step [OF assms(1) st]] show ?thesis by (blast intro: ends_step [OF st])
    qed
  qed
qed

text \<open>Every daemon has a run that returns: one that starts to serve, if the start succeeds, and is told
  to stop then.\<close>

lemma run_finishes:
  assumes "\<not> Running (dstatus d)"
  shows "\<exists>r e. run_step\<^sup>*\<^sup>* (run_begin d) r \<and> rphase r = Finished e"
proof -
  let ?r = "run_begin d"
  obtain res s where b: "Run_begin ?r = (res, s)" by fastforce
  have start: "rphase ?r = Starting" by (simp add: run_begin_def)
  have st: "\<exists>t. run_step ?r t \<and> (rphase t = Serving \<or> (\<exists>e. rphase t = Finished e))"
  proof (cases res)
    case (Inl err)
    from start_fails [OF start b [unfolded Inl]] show ?thesis by force
  next
    case (Inr x)
    show ?thesis
      using start_serving [OF start, of s "[]"] start_cancelled [OF start, of s] b Inr
      by (cases x) (force simp: launch_def Let_def)+
  qed
  then obtain t where t: "run_step ?r t" "rphase t = Serving \<or> (\<exists>e. rphase t = Finished e)" by blast
  show ?thesis
  proof (cases "rphase t = Serving")
    case True
    let ?w = "(dworld (rd t))\<lparr>ctx_done := True\<rparr>"
    have "moved (dworld (rd t)) ?w"
      unfolding moved_def by (rule exI [of _ "pending (dworld (rd t))"], rule exI [of _ "nonces (dworld (rd t))"],
        rule exI [of _ "conn (dworld (rd t))"], rule exI [of _ "dials (dworld (rd t))"], rule exI [of _ True]) simp
    then have m: "run_step t (set_world ?w t)" by (rule world_moves)
    have "run_ok t" by (rule run_ok_step [OF run_ok_begin [OF assms] t(1)])
    then have "ends (set_world ?w t)"
      by (intro ends_serving run_ok_step [OF _ m]) (simp_all add: set_world_def True)
    then have "ends ?r" using ends_step [OF t(1) ends_step [OF m]] by blast
    then show ?thesis by (simp add: ends_def)
  qed (use t in blast)
qed

text \<open>What the path of the control socket shows.\<close>

definition socket_path :: "run \<Rightarrow> error + node" where
  "socket_path r = (case mounts (wfs (dworld (rd r))) (StateDir (rcfg r)) of
     None \<Rightarrow> Inl NotExist | Some root \<Rightarrow> lookup_node (trees (wfs (dworld (rd r))) root) [control_sock])"

lemma close_admin_removes:
  assumes "admin r" "pending (dworld (rd r)) = []" "socket_path r = Inr Special"
  shows "socket_path (snd (close_admin r)) = Inl NotExist"
proof -
  let ?s = "wfs (dworld (rd r))"
  obtain root where m: "mounts ?s (StateDir (rcfg r)) = Some root" "lookup_node (trees ?s root) [control_sock] = Inr Special"
    using assms(3) by (auto simp: socket_path_def split: option.splits)
  obtain p es where d: "trees ?s root = Dir p es"
    using m(2) by (cases "trees ?s root") auto
  have "tick (dworld (rd r)) = (None, dworld (rd r))" using assms(2) by (simp add: tick_def)
  then show ?thesis
    using assms(1) m d
    by (simp add: close_admin_def run_simps zoom_def sys_def in_dir_def fs_remove_def set_tree_def socket_path_def delete_conv'
        split: option.splits)
qed

lemma shut_down_removes:
  assumes "admin r" "pending (dworld (rd r)) = []" "socket_path r = Inr Special"
  shows "socket_path (shut_down e b r) = Inl NotExist"
  unfolding shut_down_def by (rule close_admin_removes) (use assms in \<open>simp_all add: socket_path_def cong: option.case_cong\<close>)

lemma serving_ends:
  assumes "run_step r s" "rphase r = Serving" "rphase s \<noteq> Serving"
  shows "\<exists>e b es. s = shut_down e b (r\<lparr>results := es\<rparr>)"
  using assms(1)
proof cases
  case stop_cancelled
  then show ?thesis by (intro exI [of _ None] exI [of _ False] exI [of _ "results r"]) simp
next
  case (stop_result e es)
  then show ?thesis by blast
qed (use assms(2,3) in \<open>simp_all add: set_world_def\<close>)

text \<open>C38. When Run has returned, the status no longer says running, every worker has ended, both
  servers have returned, no handler of a connection is left, the control listener and every accepted
  connection are closed: only then may the caller close the index. The step in which Run leaves its
  serving phase removes the control socket: if it is still in the state directory and no call fails
  or interferes there, no file of that name is left.\<close>

theorem run_leaves_nothing:
  assumes "run_step\<^sup>*\<^sup>* (run_begin d) r" "\<not> Running (dstatus d)"
  shows "(rphase r = Finished e \<longrightarrow>
      \<not> Running (dstatus (rd r)) \<and> scanning r = ScanDone \<and> replicators r = Map.empty \<and> \<not> admin r
      \<and> served r \<and> admin_served r \<and> \<not> listening (peers r) \<and> handlers (peers r) = {}
      \<and> {..<accepted (peers r)} \<subseteq> closed_conns (peers r))
    \<and> (rphase r = Serving \<and> run_step r s \<and> rphase s \<noteq> Serving
       \<and> pending (dworld (rd r)) = [] \<and> socket_path r = Inr Special \<longrightarrow> socket_path s = Inl NotExist)"
proof -
  have ok: "run_ok r" using running.reachable_good [OF _ assms(1)] assms(2) by blast
  have "socket_path s = Inl NotExist"
    if s: "rphase r = Serving" "run_step r s" "rphase s \<noteq> Serving" "pending (dworld (rd r)) = []" "socket_path r = Inr Special"
  proof -
    obtain x b es where s': "s = shut_down x b (r\<lparr>results := es\<rparr>)" using serving_ends [OF s(2,1,3)] by blast
    have "admin r" using ok s(1) by (simp add: run_ok_def)
    then show ?thesis unfolding s' by (intro shut_down_removes) (use s(4,5) in \<open>simp_all add: socket_path_def cong: option.case_cong\<close>)
  qed
  with ok show ?thesis by (auto simp: run_ok_def phase_ok_def workers_done_def sessions_ok_def)
qed

text \<open>C39. From every state that Run reaches, once the context is cancelled there is a sequence of steps
  that brings it to its return: the workers, the servers and Run itself never wait for each other in
  a circle.\<close>

theorem run_can_return:
  assumes "run_step\<^sup>*\<^sup>* (run_begin d) r" "\<not> Running (dstatus d)" "rctx r"
  shows "\<exists>t e. run_step\<^sup>*\<^sup>* r t \<and> rphase t = Finished e"
proof -
  have ok: "run_ok r" using running.reachable_good [OF _ assms(1)] assms(2) by blast
  have "ends r"
    using ok assms(3) ends_starting ends_serving ends_closing servers_return
    by (cases "rphase r") (auto simp: ends_def)
  then show ?thesis by (simp add: ends_def)
qed

section \<open>Run goes forward\<close>

text \<open>The phases in the order in which \<open>Run\<close> passes them.\<close>

fun stage :: "run_phase \<Rightarrow> nat" where
  "stage Starting = 0"
| "stage Serving = 1"
| "stage (Closing e b) = 2"
| "stage (Collecting e n) = 3"
| "stage (Finished e) = 4"

instantiation run_phase :: preorder
begin

definition less_eq_run_phase :: "run_phase \<Rightarrow> run_phase \<Rightarrow> bool" where
  "x \<le> y \<longleftrightarrow> stage x \<le> stage y"

definition less_run_phase :: "run_phase \<Rightarrow> run_phase \<Rightarrow> bool" where
  "x < y \<longleftrightarrow> stage x < stage y"

instance
  by standard (auto simp: less_eq_run_phase_def less_run_phase_def)

end

lemma Run_begin_rphase: "Run_begin r = (res, r') \<Longrightarrow> rphase r' = rphase r"
  using run_frame_fields(2) [OF withinD [OF Run_begin_frame]] by metis

lemma shut_down_rphase [simp]: "rphase (shut_down e b r) = Closing e b"
  using shut_down_eq [of r e b] by auto

lemma run_step_forward: "run_step r t \<Longrightarrow> rphase r \<le> rphase t"
  by (erule run_stepE)
     (auto simp: less_eq_run_phase_def launch_def Let_def set_world_def run_finish_def)

lemma run_forward: "run_step\<^sup>*\<^sup>* r t \<Longrightarrow> rphase r \<le> rphase t"
  by (induction rule: rtranclp_induct) (auto dest: run_step_forward order_trans)

lemma finished_for_good: "run_step\<^sup>*\<^sup>* r t \<Longrightarrow> rphase r = Finished e \<Longrightarrow> \<exists>e'. rphase t = Finished e'"
  using run_forward [of r t] by (cases "rphase t") (auto simp: less_eq_run_phase_def)

section \<open>A daemon that is told to stop\<close>

definition demo_off :: Daemon where
  "demo_off = demo_daemon\<lparr>dstatus := (dstatus demo_daemon)\<lparr>Running := False\<rparr>, dworld := demo_world\<lparr>ctx_done := True\<rparr>\<rparr>"

lemma demo_off: "\<not> Running (dstatus demo_off)" "rctx (run_begin demo_off)"
  by (simp_all add: demo_off_def demo_daemon_def run_begin_def)

text \<open>A daemon without folders starts on an idle machine, is told to stop and ends.\<close>

definition demo_bare :: Daemon where
  "demo_bare = demo_daemon\<lparr>dcfg := demo_config\<lparr>CFolders := [], StateDir := ''/r''\<rparr>,
     dstatus := (dstatus demo_daemon)\<lparr>Running := False\<rparr>\<rparr>"

lemma demo_bare_starts:
  "\<exists>r. Run_begin (run_begin demo_bare) = (Inr True, r) \<and> socket_path (launch addr r) = Inr Special
     \<and> pending (dworld (rd r)) = [] \<and> rctx (launch addr r) = False"
proof -
  have "mounts (wfs demo_world) ''/r'' = Some 0"
    "\<exists>es. trees (wfs demo_world) 0 = Dir 448 es \<and> map_of es control_sock = None" "pending demo_world = []" "\<not> ctx_done demo_world"
    by (simp_all add: demo_world_def demo_fs_def markerName_def)
  with demo_calm(2) show ?thesis
    by (auto simp: Run_begin_def Daemon_scan_def sortedFolders_def demo_bare_def demo_daemon_def run_begin_def run_simps
      undoing_def zoom_def prepare_socket_def sys_quiet ctx_Err_quiet in_dir_def fs_lstat_def fs_link_new_def parent_of_def
      demo_config_def launch_def socket_path_def Let_def set_tree_def update_conv')
qed

theorem run_leaves_nothing_witness:
  "\<exists>r s t e. run_step\<^sup>*\<^sup>* (run_begin demo_bare) r \<and> socket_path r = Inr Special \<and> run_step r s \<and> socket_path s = Inl NotExist
     \<and> run_step\<^sup>*\<^sup>* s t \<and> rphase t = Finished e \<and> scanning t = ScanDone \<and> \<not> admin t \<and> handlers (peers t) = {}"
proof -
  have off: "\<not> Running (dstatus demo_bare)" by (simp add: demo_bare_def)
  obtain r where r: "Run_begin (run_begin demo_bare) = (Inr True, r)" "socket_path (launch [] r) = Inr Special"
    "pending (dworld (rd r)) = []" using demo_bare_starts [of "[]"] by blast
  let ?r = "launch [] r"
  define w where "w = (dworld (rd ?r))\<lparr>ctx_done := True\<rparr>"
  let ?c = "set_world w ?r"
  have st: "run_step (run_begin demo_bare) ?r" by (rule start_serving [OF _ r(1)]) (simp add: run_begin_def)
  have "moved (dworld (rd ?r)) w"
    unfolding moved_def w_def by (rule exI [of _ "pending (dworld (rd ?r))"], rule exI [of _ "nonces (dworld (rd ?r))"],
      rule exI [of _ "conn (dworld (rd ?r))"], rule exI [of _ "dials (dworld (rd ?r))"], rule exI [of _ True]) simp
  then have c: "run_step\<^sup>*\<^sup>* (run_begin demo_bare) ?c" using st world_moves by (meson r_into_rtranclp rtranclp.rtrancl_into_rtrancl)
  have there: "socket_path ?c = Inr Special" "pending (dworld (rd ?c)) = []" "rphase ?c = Serving" "rctx ?c"
    using r(2,3) by (simp_all add: socket_path_def set_world_def w_def launch_def Let_def cong: option.case_cong)
  let ?s = "shut_down None False ?c"
  have s: "run_step ?c ?s" by (rule stop_cancelled) (fact there)+
  have "run_step\<^sup>*\<^sup>* (run_begin demo_bare) ?s" using c s by simp
  moreover have "rctx ?s" using shut_down_eq [of ?c None False] by auto
  ultimately have "ends ?s"
    using ends_closing [of ?s None False] running.reachable_good [of "run_begin demo_bare" ?s] off by auto
  then obtain t e where t: "run_step\<^sup>*\<^sup>* ?s t" "rphase t = Finished e" by (auto simp: ends_def)
  have "run_step\<^sup>*\<^sup>* (run_begin demo_bare) t" using c s t(1) by simp
  from run_leaves_nothing [OF this off, of e] t(2) have "scanning t = ScanDone" "\<not> admin t" "handlers (peers t) = {}" by simp_all
  moreover have "socket_path ?s = Inl NotExist"
    using run_leaves_nothing [OF c off, of _ ?s] s there by simp
  ultimately show ?thesis using c there(1) s t by blast
qed

theorem run_can_return_witness:
  "\<exists>t e. run_step\<^sup>*\<^sup>* (run_begin demo_off) t \<and> rphase t = Finished e"
  by (rule run_can_return [OF rtranclp.rtrancl_refl demo_off])

end
