(* ===== verification/Lifetime.thy ===== *)
theory Lifetime
  imports Shutdown
begin

text \<open>
  From \<open>New\<close> through every state of \<open>Run\<close>: the index stays well formed and the status has the shape its
  type promises.
\<close>

section \<open>The status and the index in every state\<close>

definition int64 :: "int \<Rightarrow> bool" where
  "int64 n \<longleftrightarrow> - (2 ^ 63) \<le> n \<and> n < 2 ^ 63"

lemma int64_add [simp]: "int64 (add64 a b)"
  by (simp add: int64_def add64_def)

lemma int64_0 [simp]: "int64 0"
  by (simp add: int64_def)

text \<open>A folder that was never synchronised shows zeros.\<close>

definition folder_status_ok :: "string \<Rightarrow> FolderStatus \<Rightarrow> bool" where
  "folder_status_ok src s \<longleftrightarrow> Source s = src \<and> 0 \<le> Entries s \<and> Entries s \<le> 100000
     \<and> int64 (TotalReceived s) \<and> int64 (TotalReused s)
     \<and> (LastSuccess s = None \<longrightarrow> Entries s = 0 \<and> TotalReceived s = 0 \<and> TotalReused s = 0)"

definition status_ok :: "Config \<Rightarrow> Status \<Rightarrow> bool" where
  "status_ok c st \<longleftrightarrow> dom (Folders st) = fst ` set (CFolders c)
     \<and> (\<forall>i s. Folders st i = Some s \<longrightarrow> folder_status_ok (FSource (folder_named c i)) s)"

definition named_folders :: "Config \<Rightarrow> bool" where
  "named_folders c \<longleftrightarrow> distinct (map fst (CFolders c)) \<and> (\<forall>(i, f) \<in> set (CFolders c). FID f = i)"

definition daemon_ok :: "Daemon \<Rightarrow> bool" where
  "daemon_ok d \<longleftrightarrow> named_folders (dcfg d) \<and> index_ok (wdb (dworld d)) \<and> status_ok (dcfg d) (dstatus d)"

lemma status_ok_new:
  assumes "named_folders c"
  shows "status_ok c (new_status c i)"
proof -
  have "folder_status_ok (FSource f) (zero_status\<lparr>Source := FSource f\<rparr>)" for f
    by (simp add: folder_status_ok_def zero_status_def)
  moreover have "Folders (new_status c i) n = map_option (\<lambda>f. zero_status\<lparr>Source := FSource f\<rparr>) (map_of (CFolders c) n)" for n
    by (simp add: new_status_def map_of_map)
  moreover from this have "dom (Folders (new_status c i)) = dom (map_of (CFolders c))" by (auto simp: dom_def)
  ultimately show ?thesis
    by (auto simp: status_ok_def folder_named_def dom_map_of_conv_image_fst simp del: domIff)
qed

text \<open>The status of a configured folder is updated with a count a listing can have.\<close>

lemma update_ok:
  assumes "daemon_ok d" "i \<in> fst ` set (CFolders (dcfg d))" "err = None \<Longrightarrow> 0 \<le> n \<and> n \<le> 100000" "update i n x err d = (res, d')"
  shows "daemon_ok d' \<and> dcfg d' = dcfg d"
proof -
  obtain s where s: "Folders (dstatus d) i = Some s" "folder_status_ok (FSource (folder_named (dcfg d) i)) s"
    using assms(1,2) unfolding daemon_ok_def status_ok_def by (metis domD)
  have "folder_status_ok (FSource (folder_named (dcfg d) i)) (updated s n x err now)" for now
    using s(2) assms(3) by (auto simp: folder_status_ok_def updated_def split: option.split)
  moreover obtain now where d': "d' = d\<lparr>dstatus := (dstatus d)\<lparr>Folders := (Folders (dstatus d))(i \<mapsto> updated s n x err now)\<rparr>,
      dlog := dlog d @ update_log i (LastError s) x err\<rparr>"
    using assms(4) s(1) by (auto simp: update_def run_simps zoom_def time_Now_def Let_def folder_status_def)
  moreover have "dom (Folders (dstatus d')) = dom (Folders (dstatus d))" using s(1) by (simp add: d' insert_absorb domI)
  ultimately show ?thesis using assms(1) by (simp add: daemon_ok_def status_ok_def)
qed

definition keeps_ok :: "Daemon \<Rightarrow> Daemon \<Rightarrow> bool" where
  "keeps_ok d d' \<longleftrightarrow> (daemon_ok d \<longrightarrow> daemon_ok d' \<and> dcfg d' = dcfg d)"

lemma preorder_keeps_ok [simp, intro]: "preorder_rel keeps_ok"
  by (auto simp: preorder_rel_def keeps_ok_def intro!: reflpI transpI)

lemma keeps_ok_world: "(index_ok (wdb (dworld d)) \<Longrightarrow> index_ok (wdb w)) \<Longrightarrow> keeps_ok d (d\<lparr>dworld := w\<rparr>)"
  by (simp add: keeps_ok_def daemon_ok_def)

lemma Scan_length: "Scan f root w = (Inr es, w') \<Longrightarrow> int (length es) \<le> 100000"
proof -
  assume run: "Scan f root w = (Inr es, w')"
  have "good_acc ([], 0)" by (simp add: good_acc_def MaxEntries_def MaxManifestBytes_def)
  then have walk: "returning any_world (walk_dir walk_fuel r ''.'' isdir ([], 0)) good_acc" for r isdir
    by (rule walk_good)
  have "returning any_world (Scan f root) (\<lambda>es. int (length es) \<le> 100000)"
    unfolding Scan_def
    by (intro returning_bind [OF returning_trivial] returning_bind [OF walk])
       (auto simp: good_acc_def MaxEntries_def intro!: returning_bind [OF returning_trivial] returning_return)
  with run show ?thesis by (auto dest: returningD)
qed

lemma scan_one_ok:
  assumes "i \<in> fst ` set (CFolders (dcfg d))" "scan_folders [i] d = (res, d')" "daemon_ok d"
  shows "daemon_ok d' \<and> dcfg d' = dcfg d"
proof (cases "FSource (folder_named (dcfg d) i) = ''local''")
  case True
  let ?f = "folder_named (dcfg d) i"
  obtain r w where sc: "Scan i (FPath ?f) (dworld d) = (r, w)" by fastforce
  let ?d = "d\<lparr>dworld := w\<rparr>"
  have ok: "daemon_ok ?d" using keeps_ok_world [of d w] Scan_index_ok [OF sc] assms(3) by (simp add: keeps_ok_def)
  define n where "n = (case r of Inl e \<Rightarrow> 0 | Inr es \<Rightarrow> int (length es))"
  define e where "e = (case r of Inl e \<Rightarrow> Some e | Inr es \<Rightarrow> None)"
  have n: "0 \<le> n \<and> n \<le> 100000" using Scan_length sc by (auto simp: n_def split: sum.split)
  obtain r2 d2 where u: "update i n zero_stats e ?d = (r2, d2)" by fastforce
  have "d' = d2"
    using assms(2) True sc u
    by (auto simp: n_def e_def run_simps zoom_def update_def Let_def time_Now_def ctx_Err_def split: sum.splits if_splits)
  with update_ok [OF ok _ _ u] n assms(1) show ?thesis by simp
next
  case False
  with assms show ?thesis by (simp add: run_simps)
qed

lemma client_length:
  assumes "sync_folder i peer f client w = (Inr (c, n, x, None), w')"
  shows "0 \<le> n \<and> n \<le> 100000"
proof -
  obtain es w1 w2 where "client_List (FID f) w1 = (Inr es, w2)" "n = int (length es)"
    using assms by (auto simp: sync_folder_def run_simps split: sum.splits prod.splits if_splits option.splits)
  with client_List_bounded show ?thesis by (fastforce simp: maxEntries_def)
qed

definition index_kept :: "world \<Rightarrow> world \<Rightarrow> bool" where
  "index_kept w w' \<longleftrightarrow> (index_ok (wdb w) \<longrightarrow> index_ok (wdb w'))"

lemma preorder_index_kept [simp, intro]: "preorder_rel index_kept"
  by (auto simp: preorder_rel_def index_kept_def intro!: reflpI transpI)

lemma steady_index_kept: "within steady m \<Longrightarrow> within index_kept m"
  by (auto simp: within_def index_kept_def steady_def)

lemma apply_entries_index: "within index_kept (apply_entries f es acc)"
proof (induction es arbitrary: acc)
  case (Cons e es)
  have "within index_kept (Apply (FID f) (FPath f) e (Some (client_ReadBlock (FID f) (EPath e) (EHash e))))"
    unfolding within_def index_kept_def
  proof (intro allI impI)
    fix w :: world assume ok: "index_ok (wdb w)"
    obtain res w' where ap: "Apply (FID f) (FPath f) e (Some (client_ReadBlock (FID f) (EPath e) (EHash e))) w = (res, w')" by fastforce
    have "within same_index (client_ReadBlock (FID f) (EPath e) (EHash e) b)" for b
      using client_fetch_steady [of "FID f" "EPath e" "EHash e"] by (simp add: fetch_steady_def)
    then have "index_ok (wdb w')" by (intro Apply_index_ok [OF ap ok]) auto
    with ap show "index_ok (wdb (snd (Apply (FID f) (FPath f) e (Some (client_ReadBlock (FID f) (EPath e) (EHash e))) w)))" by simp
  qed
  then show ?case unfolding apply_entries.simps by (intro within_intros preorder_index_kept Cons)
qed (simp add: within_return)

lemma sync_index_ok: "within index_kept (sync_folder i peer f client)"
  unfolding sync_folder_def
  by (intro within_intros preorder_index_kept apply_entries_index steady_index_kept [OF steady.CheckFolder_within]
      steady_index_kept [OF client_Dial_steady] steady_index_kept [OF client_List_steady] steady_index_kept [OF Conn_Close_steady])

lemma sync_one_ok:
  assumes "(i, f) \<in> set (CFolders (dcfg d))" "replicate_folders peer [f] client d = (res, d')" "daemon_ok d"
  shows "daemon_ok d' \<and> dcfg d' = dcfg d"
proof -
  obtain c n x err w where sy: "sync_folder (did d) peer f client (dworld d) = (Inr (c, n, x, err), w)"
    using sync_folder_Inr by (metis prod_cases3)
  let ?d = "d\<lparr>dworld := w\<rparr>"
  have "daemon_ok ?d" using keeps_ok_world [of d w] withinD [OF sync_index_ok sy] assms(3) by (simp add: keeps_ok_def index_kept_def)
  moreover have "FID f = i" using assms(1,3) by (auto simp: daemon_ok_def named_folders_def)
  moreover obtain r2 d2 where u: "update (FID f) n x err ?d = (r2, d2)" by fastforce
  moreover have "d' = d2" using assms(2) sy u by (auto simp: run_simps zoom_def update_def Let_def time_Now_def)
  moreover have "i \<in> fst ` set (CFolders (dcfg ?d))" using assms(1) by force
  moreover have "0 \<le> n \<and> n \<le> 100000" if "err = None" using client_length sy that by blast
  ultimately show ?thesis using update_ok [OF _ _ _ u] by simp
qed

section \<open>Every state of Run\<close>

definition running_ok :: "run \<Rightarrow> bool" where
  "running_ok r \<longleftrightarrow> daemon_ok (rd r)
     \<and> (\<forall>ids. scanning r = ScanTodo ids \<longrightarrow> set ids \<subseteq> fst ` set (CFolders (rcfg r)))
     \<and> (\<forall>name c fs. replicators r name = Some (RoundTodo c fs) \<longrightarrow> set fs \<subseteq> snd ` set (CFolders (rcfg r)))"

lemma scan_folders_first:
  assumes "scan_folders (i # ids) d = (res, d')"
  obtains r d1 where "scan_folders [i] d = (r, d1)" "d' = d1 \<or> scan_folders ids d1 = (res, d')"
proof -
  obtain r d1 where "scan_folders [i] d = (r, d1)" by fastforce
  with assms show ?thesis
    by (intro that [of r d1]) (auto simp: run_simps zoom_def Let_def split: if_splits sum.splits prod.splits)
qed

lemma scan_folders_ok:
  "set ids \<subseteq> fst ` set (CFolders (dcfg d)) \<Longrightarrow> daemon_ok d \<Longrightarrow> scan_folders ids d = (res, d') \<Longrightarrow> daemon_ok d' \<and> dcfg d' = dcfg d"
proof (induction ids arbitrary: d)
  case (Cons i ids)
  obtain r d1 where s: "scan_folders [i] d = (r, d1)" "d' = d1 \<or> scan_folders ids d1 = (res, d')"
    by (rule scan_folders_first [OF Cons.prems(3)])
  have "daemon_ok d1 \<and> dcfg d1 = dcfg d" by (rule scan_one_ok [OF _ s(1) Cons.prems(2)]) (use Cons.prems(1) in simp)
  then show ?case using s(2) Cons.IH [of d1] Cons.prems(1) by auto
qed simp

definition run_keeps_ok :: "run \<Rightarrow> run \<Rightarrow> bool" where
  "run_keeps_ok r r' \<longleftrightarrow> keeps_ok (rd r) (rd r')"

lemma preorder_run_keeps_ok [simp, intro]: "preorder_rel run_keeps_ok"
  unfolding run_keeps_ok_def [abs_def] preorder_rel_def
  using preorder_keeps_ok unfolding preorder_rel_def by (auto intro!: reflpI transpI dest: reflpD transpD)

lemma on_machine_keeps_ok: "within same_index m \<Longrightarrow> within run_keeps_ok (on_daemon (on_machine m))"
  unfolding within_def run_keeps_ok_def zoom_def
  by (auto split: prod.split intro!: keeps_ok_world) (metis snd_conv)

lemma Daemon_scan_keeps_ok: "within run_keeps_ok (on_daemon Daemon_scan)"
  unfolding within_def run_keeps_ok_def zoom_def Daemon_scan_def
  by (auto simp: run_bind keeps_ok_def split: prod.split dest!: scan_folders_ok [rotated 2] simp: sortedFolders_def)

lemma Run_begin_keeps_ok: "within run_keeps_ok Run_begin"
proof -
  have m: "within run_keeps_ok (modify (\<lambda>r. r\<lparr>admin := b\<rparr>))" for b
    by (simp add: within_def run_keeps_ok_def preorder_rel_refl [OF preorder_keeps_ok])
  have c: "within run_keeps_ok close_admin" unfolding close_admin_def
    by (intro within_intros preorder_run_keeps_ok on_machine_keeps_ok within_sys_db m)
  have e: "within same_index ctx_Err" by (simp add: within_def ctx_Err_def)
  show ?thesis unfolding Run_begin_def prepare_socket_def
    by (intro within_intros undoing_within preorder_run_keeps_ok on_machine_keeps_ok Daemon_scan_keeps_ok within_sys_db m c e) simp_all
qed

lemma running_ok_begin: "daemon_ok d \<Longrightarrow> running_ok (run_begin d)"
  by (simp add: running_ok_def run_begin_def)

lemma request_index: "within same_index (handleRequest (daemon_backend c st) peerID m)"
  by (rule handleRequest_daemon)
     (simp_all add: frame.reading_axioms within_write_db within_flush_db within_ctx_Err)

lemma running_ok_world: "running_ok r \<Longrightarrow> wdb w = wdb (dworld (rd r)) \<Longrightarrow> running_ok (set_world w r) \<and> rcfg (set_world w r) = rcfg r"
  by (simp add: running_ok_def set_world_def daemon_ok_def)

lemma folders_from_configured: "set (folders_from c name) \<subseteq> snd ` set (CFolders c)"
  using folders_from_source by force

lemma running_ok_started:
  assumes "running_ok r" "Run_begin r = (res, r')"
  shows "running_ok r' \<and> rcfg r' = rcfg r"
proof -
  note f = run_frame_fields [OF withinD [OF Run_begin_frame assms(2)]]
  have "daemon_ok (rd r') \<and> rcfg r' = rcfg r"
    using withinD [OF Run_begin_keeps_ok assms(2)] assms(1) by (simp add: run_keeps_ok_def keeps_ok_def running_ok_def)
  then show ?thesis using assms(1) by (simp add: running_ok_def f)
qed

lemma running_ok_phase [simp]: "running_ok (r\<lparr>rphase := x\<rparr>) = running_ok r"
  by (simp add: running_ok_def)

lemma running_ok_shut:
  assumes "running_ok r"
  shows "running_ok (shut_down e b r) \<and> rcfg (shut_down e b r) = rcfg r"
proof -
  obtain w where w: "wdb w = wdb (dworld (rd r))"
    "shut_down e b r = r\<lparr>rd := (rd r)\<lparr>dworld := w\<rparr>, peers := (peers r)\<lparr>listening := False\<rparr>, admin := False, rphase := Closing e b\<rparr>"
    using shut_down_eq by blast
  show ?thesis unfolding w(2) using assms w(1) by (simp add: running_ok_def daemon_ok_def)
qed

lemma workers_start: "workers_of c name = Some j \<Longrightarrow> j = RoundStart False"
  by (auto simp: workers_of_def dest!: map_of_SomeD)

lemma running_ok_step:
  assumes "running_ok r" "run_step r t"
  shows "running_ok t \<and> rcfg t = rcfg r"
  using assms(2)
proof cases
  case (start_serving r' addr)
  with running_ok_started [OF assms(1) start_serving(3)] workers_start show ?thesis
    by (fastforce simp: launch_def Let_def running_ok_def daemon_ok_def status_ok_def)
next
  case (start_cancelled r')
  with running_ok_started [OF assms(1) start_cancelled(3)] show ?thesis by simp
next
  case (start_fails err r')
  with running_ok_started [OF assms(1) start_fails(3)] show ?thesis by simp
next
  case (world_moves w)
  then show ?thesis using running_ok_world [OF assms(1)] by (auto simp: moved_def)
next
  case (scan_next i ids res d)
  have ids: "set (i # ids) \<subseteq> fst ` set (CFolders (rcfg r))" using assms(1) scan_next(2) unfolding running_ok_def by blast
  have "daemon_ok d \<and> dcfg d = rcfg r"
    by (rule scan_one_ok [OF _ scan_next(3)]) (use ids assms(1) in \<open>simp_all add: running_ok_def\<close>)
  then show ?thesis using assms(1) ids by (simp add: scan_next(1) running_ok_def)
next
  case (round_next name client f fs client' d)
  have fs: "set (f # fs) \<subseteq> snd ` set (CFolders (rcfg r))" using assms(1) round_next(2) unfolding running_ok_def by blast
  then obtain i where "(i, f) \<in> set (CFolders (rcfg r))" by force
  from sync_one_ok [OF this round_next(3)] assms(1) have "daemon_ok d \<and> dcfg d = rcfg r" by (simp add: running_ok_def)
  then show ?thesis using assms(1) fs by (simp add: round_next(1) running_ok_def)
next
  case (request c peerID m)
  then show ?thesis using running_ok_world [OF assms(1)] request_index by (auto simp: within_def)
next
  case stop_cancelled
  then show ?thesis using running_ok_shut [OF assms(1)] by simp
next
  case (stop_result e es)
  have "running_ok (r\<lparr>results := es\<rparr>)" using assms(1) by (simp add: running_ok_def)
  from running_ok_shut [OF this] show ?thesis by (simp add: stop_result(1))
next
  case (round_stops name client)
  have "running_ok (r\<lparr>replicators := (replicators r)(name := None)\<rparr>)" using assms(1) by (simp add: running_ok_def)
  from running_ok_world [OF this, of "snd (do_if client Conn_Close (dworld (rd r)))"]
  show ?thesis by (simp add: round_stops(1) run_do_if set_wire_def)
next
  case (finish e)
  with assms(1) show ?thesis by (simp add: run_finish_def running_ok_def daemon_ok_def status_ok_def)
next
  case (round_begins name client)
  with assms(1) folders_from_configured show ?thesis by (simp add: running_ok_def)
next
  case scan_tick
  with assms(1) show ?thesis by (simp add: running_ok_def sortedFolders_def)
qed (use assms(1) in \<open>simp_all add: running_ok_def\<close>)

interpretation running_state: machine "\<lambda>r. \<exists>d. r = run_begin d \<and> daemon_ok d \<and> dcfg d = c" run_step
    "\<lambda>r. running_ok r \<and> rcfg r = c" for c
  by unfold_locales (auto simp: running_ok_begin running_ok_step, simp add: run_begin_def)

lemma LockState_index: "within (\<lambda>h h'. wdb (hworld h') = wdb (hworld h)) (LockState dir)"
proof -
  let ?R = "\<lambda>h h'. wdb (hworld h') = wdb (hworld h)"
  have p: "preorder_rel ?R" by (rule preorder_rel_frame [where f = "\<lambda>h. wdb (hworld h)"])
  have m: "within ?R (modify (\<lambda>h. h\<lparr>held := X h\<rparr>))" for X by (simp add: within_def)
  have z: "within ?R (on_host (sys f))" for f by (rule host_of.within_zoom [OF within_sys_db])
  show ?thesis unfolding LockState_def Flock_def by (intro within_intros p z m)
qed

lemma identity_Load_index: "within same_index (identity_Load K dir)"
  unfolding identity_Load_def check_identity_file_def LoadX509KeyPair_def
  by (intro within_intros within_sys_db; simp add: within_def time_Now_def)

text \<open>What \<open>New\<close> returns, and what it does to the index whatever it returns.\<close>

lemma Daemon_New_Inr:
  "Daemon_New K os c h = (Inr x, h') \<Longrightarrow> Validate os c = Inr () \<and> (\<exists>i l. x = (i, new_status c i, l))"
  unfolding Daemon_New_def by (auto simp: run_simps Unlock_def split: sum.splits prod.splits)

lemma Store_Open_index: "within index_kept (Store_Open dir)"
  using Store_Open_opened [of _ dir]
  by (simp add: within_def index_kept_def opened_def index_ok_def rows_valid_def select_manifest_def)

lemma Daemon_New_index: "within (\<lambda>h h'. index_kept (hworld h) (hworld h')) (Daemon_New K os c)"
proof -
  let ?R = "\<lambda>h h'. index_kept (hworld h) (hworld h')"
  have p: "preorder_rel ?R" by (auto simp: preorder_rel_def index_kept_def intro!: reflpI transpI)
  have l: "within ?R (LockState dir)" for dir
    using LockState_index [of dir] by (simp add: within_def index_kept_def)
  have i: "within ?R (on_host (identity_Load K dir))" for dir
    by (rule host_of.within_zoom) (use identity_Load_index [of K dir] in \<open>simp add: within_def index_kept_def\<close>)
  have s: "within ?R (on_host (Store_Open dir))" for dir
    by (rule host_of.within_zoom [OF Store_Open_index])
  have u: "within ?R (Unlock l)" for l
    by (simp add: within_def Unlock_def index_kept_def)
  show ?thesis unfolding Daemon_New_def by (intro within_intros p l i s u)
qed

lemma Daemon_New_index_ok: "Daemon_New K os c h = (res, h') \<Longrightarrow> index_ok (wdb (hworld h)) \<Longrightarrow> index_ok (wdb (hworld h'))"
  using withinD [OF Daemon_New_index] by (simp add: index_kept_def)

lemma Daemon_New_ok:
  assumes "Daemon_New K os c h = (Inr x, h')" "index_ok (wdb (hworld h))" "distinct (map fst (CFolders c))"
  shows "daemon_ok (new_daemon c x (hworld h'))"
proof -
  obtain i l where x: "x = (i, new_status c i, l)" and v: "Validate os c = Inr ()"
    using Daemon_New_Inr [OF assms(1)] by blast
  have "named_folders c"
    using v assms(3) by (auto simp: Validate_Inr config_ok_def folder_ok_def named_folders_def)
  then show ?thesis
    using Daemon_New_index_ok [OF assms(1,2)] status_ok_new by (simp add: new_daemon_def x daemon_ok_def)
qed

lemma running_from_New:
  assumes "Daemon_New K os c h = (Inr x, h')" "index_ok (wdb (hworld h))" "distinct (map fst (CFolders c))"
    "run_step\<^sup>*\<^sup>* (run_begin (new_daemon c x (hworld h'))) r"
  shows "running_ok r \<and> rcfg r = c"
  by (rule running_state.reachable_good [OF _ assms(4)])
     (use Daemon_New_ok [OF assms(1-3)] in \<open>auto simp: new_daemon_def split: prod.splits\<close>)

text \<open>
  The states of an index file that only daemons have written: created empty, opened by \<open>New\<close>, whether
  it succeeds or not, and left by a run in any state, be it that the process was killed there.
\<close>

inductive index_history :: "database \<Rightarrow> bool" where
  created: "index_history empty_database"
| opening_failed: "\<lbrakk> index_history (wdb (hworld h)); Daemon_New K os c h = (Inl err, h') \<rbrakk> \<Longrightarrow> index_history (wdb (hworld h'))"
| left_by_run: "\<lbrakk> index_history (wdb (hworld h)); Daemon_New K os c h = (Inr x, h'); distinct (map fst (CFolders c));
     run_step\<^sup>*\<^sup>* (run_begin (new_daemon c x (hworld h'))) r \<rbrakk> \<Longrightarrow> index_history (wdb (dworld (rd r)))"

lemma index_history_ok: "index_history db \<Longrightarrow> index_ok db"
proof (induction rule: index_history.induct)
  case created
  show ?case by (rule index_ok_empty)
next
  case (opening_failed h K os c err h')
  then show ?case using Daemon_New_index_ok by blast
next
  case (left_by_run h K os c x h' r)
  then show ?case using running_from_New by (auto simp: running_ok_def daemon_ok_def)
qed

text \<open>C37. From the daemon that New returns to the end of Run, after any steps of any goroutine: the
  index is well formed (rows are valid entries under their own paths, the usage counters are exact
  and within the limits) and the status lists exactly the configured folders, each with its source,
  counters of 64 bits and a number of entries between 0 and 100000. The index New opens is an empty
  one or one that earlier daemons left, at any point of their New or Run; the folders of the
  configuration are a map, with distinct ids.\<close>

theorem daemon_state_typed:
  assumes "index_history (wdb (hworld h))" "Daemon_New K os c h = (Inr x, h')"
    "distinct (map fst (CFolders c))" "run_step\<^sup>*\<^sup>* (run_begin (new_daemon c x (hworld h'))) r"
  shows "index_ok (wdb (dworld (rd r))) \<and> status_ok c (dstatus (rd r)) \<and> rcfg r = c"
  using running_from_New [OF assms(2) index_history_ok [OF assms(1)] assms(3,4)]
  by (auto simp: running_ok_def daemon_ok_def)

text \<open>A daemon is created on a new index, scans, serves, is told to stop and ends.\<close>

theorem daemon_state_typed_witness:
  "\<exists>x h' r e. Daemon_New demo_crypto demo_paths demo_config demo_host = (Inr x, h')
     \<and> run_step\<^sup>*\<^sup>* (run_begin (new_daemon demo_config x (hworld h'))) r \<and> rphase r = Finished e
     \<and> index_ok (wdb (dworld (rd r))) \<and> status_ok demo_config (dstatus (rd r))"
proof -
  obtain x h' where new: "Daemon_New demo_crypto demo_paths demo_config demo_host = (Inr x, h')" using demo_new by blast
  let ?r = "run_begin (new_daemon demo_config x (hworld h'))"
  obtain i l where x: "x = (i, new_status demo_config i, l)" using Daemon_New_Inr [OF new] by blast
  have off: "\<not> Running (dstatus (new_daemon demo_config x (hworld h')))" by (simp add: x new_daemon_def new_status_def)
  obtain r e where r: "run_step\<^sup>*\<^sup>* ?r r" "rphase r = Finished e" using run_finishes [OF off] by blast
  have "index_history (wdb (hworld demo_host))"
    using created by (simp add: demo_host_def demo_world_def)
  moreover have "distinct (map fst (CFolders demo_config))" by (simp add: demo_config_def)
  ultimately show ?thesis using daemon_state_typed [OF _ new _ r(1)] new r by blast
qed

end
