(* ===== verification/Command.thy ===== *)
theory Command
  imports Lifetime
begin

text \<open>
  \<^verbatim>\<open>cmd/backuply/main.go\<close>: the commands. What the program gets from outside is a record of the
  environment; what it prints to the standard output is a list, what it prints to the standard error
  is not modelled.
\<close>

section \<open>The process\<close>

datatype printed = UsageText | Line string | StatusJSON Status

record process =
  phost :: host
  pout :: "printed list"

abbreviation on_process :: "(host, 'a) io \<Rightarrow> (process, 'a) io" where
  "on_process \<equiv> zoom phost (\<lambda>h p. p\<lparr>phost := h\<rparr>)"

interpretation process_of: substate phost "\<lambda>h p. p\<lparr>phost := h\<rparr>"
  by unfold_locales simp_all

text \<open>
  \<open>env_http\<close> is the answer to \<open>GET /status\<close> over a socket, the code, the status line and the body; \<open>env_decode\<close> the JSON
  decoder for a status on a reader, its bytes and its error; \<open>env_run\<close> one execution of \<open>Run\<close>.
\<close>

record environment =
  env_crypto :: crypto
  env_paths :: paths
  env_version :: string
  env_http :: "string \<Rightarrow> error + (int \<times> string \<times> bytes)"
  env_decode :: "bytes \<times> error option \<Rightarrow> error + Status"
  env_run :: "Daemon \<Rightarrow> error option \<times> Daemon"

definition println :: "printed \<Rightarrow> (process, unit) io" where
  "println x = modify (\<lambda>p. p\<lparr>pout := pout p @ [x]\<rparr>)"

section \<open>Package flag\<close>

definition ErrHelp :: error where
  "ErrHelp = Errorf ''flag: help requested'' []"

text \<open>One argument that begins with a minus: the name of the flag and the value behind an equals sign.\<close>

definition flag_name :: "string \<Rightarrow> error + (string \<times> string option)" where
  "flag_name s =
     (let body = (if has_prefix s ''--'' then drop 2 s else drop 1 s) in
      if body = [] \<or> has_prefix body ''-'' \<or> has_prefix body ''='' then Inl (Errorf ''bad flag syntax: %s'' [s])
      else case Gostrings.cut (CHR ''='') body of
          Some (name, v) \<Rightarrow> Inr (name, Some v)
        | None \<Rightarrow> Inr (body, None))"

text \<open>\<open>FlagSet.Parse\<close> for flags that all take a string: the flags that were set and the arguments after
  them.\<close>

function flag_Parse :: "string list \<Rightarrow> (string \<rightharpoonup> string) \<Rightarrow> string list \<Rightarrow> error + ((string \<rightharpoonup> string) \<times> string list)" where
  "flag_Parse flags actual [] = Inr (actual, [])"
| "flag_Parse flags actual (s # args) =
     (if length s < 2 \<or> \<not> has_prefix s ''-'' then Inr (actual, s # args)
      else if s = ''--'' then Inr (actual, args)
      else case flag_name s of
          Inl err \<Rightarrow> Inl err
        | Inr (name, v) \<Rightarrow>
            (if \<not> List.member flags name
             then (if name = ''help'' \<or> name = ''h'' then Inl ErrHelp
                   else Inl (Errorf ''flag provided but not defined: -%s'' [name]))
             else case v of
                 Some x \<Rightarrow> flag_Parse flags (actual(name \<mapsto> x)) args
               | None \<Rightarrow>
                   (case args of
                      [] \<Rightarrow> Inl (Errorf ''flag needs an argument: -%s'' [name])
                    | x # rest \<Rightarrow> flag_Parse flags (actual(name \<mapsto> x)) rest)))"
  by pat_completeness auto
termination
  by (relation "measure (\<lambda>(flags, actual, args). length args)") auto

declare flag_Parse.simps(2) [simp del]

section \<open>Commands\<close>

text \<open>\<open>http.MaxBytesReader\<close>: the bytes up to the limit, then an error.\<close>

definition limited :: "bytes \<Rightarrow> bytes \<times> error option" where
  "limited body = (if length body \<le> 1024 * 1024 then (body, None)
     else (take (1024 * 1024) body, Some (Errorf ''http: request body too large'' [])))"

text \<open>\<open>QueryStatus\<close> of \<^verbatim>\<open>internal/daemon/daemon.go\<close>.\<close>

definition QueryStatus :: "environment \<Rightarrow> string \<Rightarrow> error + Status" where
  "QueryStatus env stateDir =
     (case env_http env (filepath_Join stateDir control_sock) of
        Inl err \<Rightarrow> Inl (Wrap ''daemon unavailable'' err)
      | Inr (code, status, body) \<Rightarrow>
          (if code \<noteq> 200 then Inl (Errorf ''daemon status: %s'' [status])
           else env_decode env (limited body)))"

fun init_folders :: "(string \<times> config_Folder) list \<Rightarrow> (process, unit) io" where
  "init_folders [] = return ()"
| "init_folders ((i, f) # fs) =
     bind (attempt (on_process (on_host (InitFolder (FPath f) (FID f))))) (\<lambda>res.
     case res of
       Inl err \<Rightarrow> throw (Wrap (''initialize folder '' @ FID f) err)
     | Inr _ \<Rightarrow> init_folders fs)"

definition command_init :: "environment \<Rightarrow> Config \<Rightarrow> (process, unit) io" where
  "command_init env cfg =
     bind (on_process (LockState (StateDir cfg))) (\<lambda>lock.
     deferring (on_process (Unlock lock))
       (bind (on_process (on_host (LoadOrCreate (env_crypto env) (StateDir cfg)))) (\<lambda>i.
        bind (init_folders (CFolders cfg)) (\<lambda>_.
        println (Line (ID i))))))"

definition command_id :: "environment \<Rightarrow> Config \<Rightarrow> (process, unit) io" where
  "command_id env cfg =
     bind (on_process (on_host (identity_Load (env_crypto env) (StateDir cfg)))) (\<lambda>i. println (Line (ID i)))"

definition command_status :: "environment \<Rightarrow> Config \<Rightarrow> (process, unit) io" where
  "command_status env cfg =
     bind (lift_sum (QueryStatus env (StateDir cfg))) (\<lambda>st.
     bind (fail_if (\<not> Running st) (Errorf ''daemon is not running'' [])) (\<lambda>_.
     println (StatusJSON st)))"

definition command_run :: "environment \<Rightarrow> Config \<Rightarrow> (process, unit) io" where
  "command_run env cfg =
     bind (on_process (Daemon_New (env_crypto env) (env_paths env) cfg)) (\<lambda>x.
     deferring (on_process (Daemon_Close (snd (snd x))))
       (bind get_state (\<lambda>p.
        case env_run env (new_daemon cfg x (hworld (phost p))) of (err, d) \<Rightarrow>
          bind (modify (\<lambda>p. p\<lparr>phost := (phost p)\<lparr>hworld := dworld d\<rparr>\<rparr>)) (\<lambda>_.
          case err of None \<Rightarrow> return () | Some e \<Rightarrow> throw e))))"

definition run_command :: "environment \<Rightarrow> string \<Rightarrow> Config \<Rightarrow> (process, unit) io" where
  "run_command env command cfg =
     (if command = ''check'' then println (Line ''configuration OK'')
      else if command = ''init'' then command_init env cfg
      else if command = ''id'' then command_id env cfg
      else if command = ''status'' then command_status env cfg
      else if command = ''run'' then command_run env cfg
      else return ())"

definition zero_config :: Config where
  "zero_config = \<lparr>Listen = [], StateDir = [], ScanInterval = 0, CPeers = [], CFolders = []\<rparr>"

text \<open>The configuration that the flags name: a state directory alone, or a file.\<close>

definition flag_config :: "environment \<Rightarrow> (string \<rightharpoonup> string) \<Rightarrow> error + Config" where
  "flag_config env actual =
     (let stateDir = (case actual ''state-dir'' of Some v \<Rightarrow> v | None \<Rightarrow> []);
          configPath = (case actual ''config'' of Some v \<Rightarrow> v | None \<Rightarrow> ''/etc/backuply/backuply.conf'')
      in if stateDir \<noteq> [] then
           (if \<not> IsAbs stateDir then Inl (Errorf ''state-dir must be absolute'' [])
            else if actual ''config'' \<noteq> None then Inl (Errorf ''choose either -config or -state-dir'' [])
            else Inr (zero_config\<lparr>StateDir := filepath_Clean stateDir\<rparr>))
         else config_Load (env_paths env) configPath)"

definition execute :: "environment \<Rightarrow> string list \<Rightarrow> (process, unit) io" where
  "execute env args =
     (case args of
        [] \<Rightarrow> bind (println UsageText) (\<lambda>_. throw (Errorf ''a command is required'' []))
      | command # rest \<Rightarrow>
          if command = ''help'' \<or> command = ''-h'' \<or> command = ''--help'' then println UsageText
          else if command = ''version'' then println (Line (''backuply '' @ env_version env @ '' (single-writer-v1)''))
          else if \<not> List.member [''run'', ''init'', ''id'', ''check'', ''status''] command
          then throw (Errorf ''unknown command %q'' [command])
          else
            (case flag_Parse (if command = ''init'' \<or> command = ''id'' then [''config'', ''state-dir''] else [''config'']) Map.empty rest of
               Inl err \<Rightarrow> (if errors_Is err ErrHelp then return () else throw err)
             | Inr (actual, positional) \<Rightarrow>
                 bind (fail_if (positional \<noteq> []) (Errorf ''unexpected positional arguments'' [])) (\<lambda>_.
                 bind (lift_sum (flag_config env actual)) (\<lambda>cfg.
                 run_command env command cfg))))"

text \<open>The exit code.\<close>

definition backuply_main :: "environment \<Rightarrow> string list \<Rightarrow> process \<Rightarrow> int \<times> process" where
  "backuply_main env args p = (case execute env args p of (Inl err, p') \<Rightarrow> (1, p') | (Inr _, p') \<Rightarrow> (0, p'))"

end
