(* ===== verification/Initialising.thy ===== *)
theory Initialising
  imports Command
begin

text \<open>
  \<open>backuply init\<close> from the command line to the next start of the daemon: the directories it makes, the
  identity it writes, the markers of the folders, and that \<open>New\<close> then accepts all of it.
\<close>

section \<open>Directories that are set up side by side\<close>

text \<open>Configured directories that exist are different trees.\<close>

definition mounts_ok :: "string set \<Rightarrow> fsys \<Rightarrow> bool" where
  "mounts_ok D s \<longleftrightarrow> (\<forall>d \<in> D. \<forall>r. mounts s d = Some r \<longrightarrow> r < next_tree s \<and> (\<forall>e \<in> D. mounts s e = Some r \<longrightarrow> e = d))"

text \<open>A directory is missing, or it has none of the names that are about to be made.\<close>

definition fresh_dir :: "string list \<Rightarrow> string \<Rightarrow> fsys \<Rightarrow> bool" where
  "fresh_dir N d s \<longleftrightarrow> (\<forall>r. mounts s d = Some r \<longrightarrow> (\<exists>m es. trees s r = Dir m es \<and> (\<forall>n \<in> set N. map_of es n = None)))"

text \<open>What a directory looks like is the same in both states.\<close>

definition same_dir :: "string \<Rightarrow> fsys \<Rightarrow> fsys \<Rightarrow> bool" where
  "same_dir d s s' \<longleftrightarrow> mounts s' d = mounts s d \<and> (\<forall>r. mounts s d = Some r \<longrightarrow> trees s' r = trees s r)
     \<and> (\<forall>i < next_inode s. inodes s' i = inodes s i) \<and> next_inode s \<le> next_inode s'"

lemma same_dir_trans: "same_dir d s t \<Longrightarrow> same_dir d t u \<Longrightarrow> same_dir d s u"
  by (auto simp: same_dir_def)

lemma same_dir_fresh: "same_dir d s s' \<Longrightarrow> fresh_dir N d s \<Longrightarrow> fresh_dir N d s'"
  by (auto simp: same_dir_def fresh_dir_def)

text \<open>\<open>sets_up D d k s s'\<close>: a step that works in \<open>d\<close> leaves the other directories of \<open>D\<close> alone.\<close>

definition sets_up :: "string set \<Rightarrow> string \<Rightarrow> nat \<Rightarrow> fsys \<Rightarrow> fsys \<Rightarrow> bool" where
  "sets_up D d k s s' \<longleftrightarrow> (mounts_ok D s \<longrightarrow> mounts_ok D s' \<and> (\<forall>e \<in> D. e \<noteq> d \<longrightarrow> same_dir e s s'))
     \<and> clock s \<le> clock s' \<and> clock s' \<le> clock s + k"

lemma sets_up_trans:
  assumes "sets_up D d k s t" "sets_up D d j t u"
  shows "sets_up D d (k + j) s u"
proof -
  have "mounts_ok D u \<and> (\<forall>e \<in> D. e \<noteq> d \<longrightarrow> same_dir e s u)" if "mounts_ok D s"
  proof (intro conjI ballI impI)
    from assms(1) that have t: "mounts_ok D t" "\<And>e. e \<in> D \<Longrightarrow> e \<noteq> d \<Longrightarrow> same_dir e s t" by (simp_all add: sets_up_def)
    with assms(2) have u: "mounts_ok D u" "\<And>e. e \<in> D \<Longrightarrow> e \<noteq> d \<Longrightarrow> same_dir e t u" by (simp_all add: sets_up_def)
    show "mounts_ok D u" by (rule u(1))
    show "same_dir e s u" if "e \<in> D" "e \<noteq> d" for e by (rule same_dir_trans [OF t(2) u(2)]) (rule that)+
  qed
  then show ?thesis using assms by (simp add: sets_up_def)
qed

lemma sets_up_only_in:
  assumes "only_in k r s s'" "mounts s d = Some r" "d \<in> D"
  shows "sets_up D d k s s'"
proof -
  have m: "mounts s' = mounts s" "next_tree s' = next_tree s" using assms(1) by (simp_all add: only_in_def)
  have "same_dir e s s'" if "mounts_ok D s" "e \<in> D" "e \<noteq> d" for e
  proof -
    have "mounts s e \<noteq> Some r" using that assms(2,3) unfolding mounts_ok_def by blast
    then have "trees s' q = trees s q" if "mounts s e = Some q" for q using assms(1) that by (simp add: only_in_def)
    then show ?thesis using assms(1) m by (simp add: same_dir_def only_in_def)
  qed
  moreover have "mounts_ok D s' = mounts_ok D s" by (simp add: mounts_ok_def m)
  ultimately show ?thesis using assms(1) by (simp add: sets_up_def only_in_def)
qed

lemma make_root_sets_up:
  assumes "fresh_dir N d s" "mounts_ok D s" "d \<in> D"
  shows "\<exists>r m es s'. fs_make_root d p s = (Inr (), s') \<and> mounts s' d = Some r \<and> trees s' r = Dir m es \<and> (\<forall>n \<in> set N. map_of es n = None)
    \<and> sets_up D d 0 s s'"
proof (cases "mounts s d")
  case None
  then have "sets_up D d 0 s (snd (fs_make_root d p s))"
    using assms(2,3) by (auto simp: sets_up_def fs_make_root_def mounts_ok_def same_dir_def less_Suc_eq)
  with None show ?thesis by (simp add: fs_make_root_def)
next
  case (Some r)
  with assms(1) show ?thesis by (auto simp: fresh_dir_def fs_make_root_def sets_up_def same_dir_def)
qed

lemma create_new:
  assumes "trees s r = Dir m es" "map_of es n = None"
  shows "\<exists>s'. fs_create_excl r [n] p s = (Inr (HFile (next_inode s)), s') \<and> only_in 1 r s s'
    \<and> next_inode s' = Suc (next_inode s) \<and> trees s' r = Dir m (AList.update n (File (next_inode s)) es)
    \<and> idata (inodes s' (next_inode s)) = []"
  using assms by (auto simp: fs_create_excl_def fs_link_new_def parent_of_def set_tree_def set_inode_def Let_def only_in_def)

section \<open>Markers\<close>

definition marked :: "string \<Rightarrow> string \<Rightarrow> fsys \<Rightarrow> bool" where
  "marked root folderID s \<longleftrightarrow> (\<exists>r m es i. mounts s root = Some r \<and> trees s r = Dir m es \<and> map_of es markerName = Some (File i)
     \<and> i < next_inode s \<and> idata (inodes s i) = folderID @ [CHR 0x0A])"

lemma same_dir_marked: "same_dir root s s' \<Longrightarrow> marked root f s \<Longrightarrow> marked root f s'"
  unfolding same_dir_def marked_def by (metis order_less_le_trans)

lemma marked_CheckFolder:
  assumes "quiet w" "marked root f (wfs w)" "length f \<le> 256"
  shows "CheckFolder root f w = (Inr (), w)"
  using assms
  by (auto simp: marked_def CheckFolder_def checkMarker_def run_simps sys_quiet fs_open_root_def fs_lstat_def node_info_def
      ino_info_def fs_open_def fs_read_limited_def)

lemma InitFolder_quiet:
  assumes "quiet w" "fresh_dir [markerName] root (wfs w)" "mounts_ok D (wfs w)" "root \<in> D"
    "f \<noteq> []" "length f \<le> 256" "\<not> contains_any f [CHR 0x0D, CHR 0x0A, CHR 0x00]"
  shows "\<exists>s. InitFolder root f w = (Inr (), w\<lparr>wfs := s\<rparr>) \<and> marked root f s \<and> sets_up D root 2 (wfs w) s"
proof -
  obtain r m es s1 where s1: "fs_make_root root 448 (wfs w) = (Inr (), s1)" "mounts s1 root = Some r" "trees s1 r = Dir m es"
    "map_of es markerName = None" "sets_up D root 0 (wfs w) s1"
    using make_root_sets_up [OF assms(2-4), of 448] by auto
  obtain s2 where s2: "fs_create_excl r [markerName] 384 s1 = (Inr (HFile (next_inode s1)), s2)" "only_in 1 r s1 s2"
    "next_inode s2 = Suc (next_inode s1)" "trees s2 r = Dir m (AList.update markerName (File (next_inode s1)) es)"
    "idata (inodes s2 (next_inode s1)) = []"
    using create_new [OF s1(3,4)] by blast
  let ?data = "f @ [CHR 0x0A]"
  obtain s3 where s3: "fs_write (HFile (next_inode s1)) 0 ?data s2 = (Inr (), s3)" "only_in 1 r s1 s3 \<or> only_in 2 r s1 s3"
    "trees s3 r = trees s2 r" "mounts s3 = mounts s2" "next_inode s3 = next_inode s2" "idata (inodes s3 (next_inode s1)) = ?data"
    using s2 by (auto simp: fs_write_def set_inode_def overwrite_def only_in_def)
  have m: "mounts s2 root = Some r" "mounts s3 root = Some r" using s1(2) s2(2) s3(4) by (simp_all add: only_in_def)
  have "InitFolder root f w = (Inr (), w\<lparr>wfs := s3\<rparr>)"
    using assms(1,5-7) s1(1-3) s2(1,4) s3(1,3) m
    by (simp add: InitFolder_def run_simps sys_quiet fs_open_root_def fs_sync_def syncDir_def components_def fs_open_def)
  moreover have "marked root f s3"
    using m s2(3,4) s3(3,5,6) by (auto simp: marked_def update_conv')
  moreover have "sets_up D root (0 + 2) (wfs w) s3"
  proof (rule sets_up_trans [OF s1(5)])
    have "only_in 2 r s1 s3" using s3(2) by (auto simp: only_in_def)
    then show "sets_up D root 2 s1 s3" by (rule sets_up_only_in) (rule s1(2), rule assms(4))
  qed
  ultimately show ?thesis by (intro exI [of _ s3]) (simp add: numeral_2_eq_2)
qed

definition set_fs :: "fsys \<Rightarrow> process \<Rightarrow> process" where
  "set_fs s p = p\<lparr>phost := (phost p)\<lparr>hworld := (hworld (phost p))\<lparr>wfs := s\<rparr>\<rparr>\<rparr>"

abbreviation pfs :: "process \<Rightarrow> fsys" where "pfs p \<equiv> wfs (hworld (phost p))"

text \<open>Nothing but the directory \<open>d\<close> is worked in, so the directories in \<open>E\<close> stay.\<close>

lemma init_folders_quiet:
  assumes "quiet (hworld (phost p))" "mounts_ok D (pfs p)" "distinct (map (FPath \<circ> snd) fs)" "(FPath \<circ> snd) ` set fs \<subseteq> D"
    "\<And>i f. (i, f) \<in> set fs \<Longrightarrow> FID f = i \<and> i \<noteq> [] \<and> length i \<le> 256 \<and> \<not> contains_any i [CHR 0x0D, CHR 0x0A, CHR 0x00]
       \<and> fresh_dir [markerName] (FPath f) (pfs p)"
  shows "\<exists>s. init_folders fs p = (Inr (), set_fs s p) \<and> mounts_ok D s \<and> (\<forall>(i, f) \<in> set fs. marked (FPath f) i s)
    \<and> (\<forall>e \<in> D. e \<notin> (FPath \<circ> snd) ` set fs \<longrightarrow> same_dir e (pfs p) s) \<and> clock (pfs p) \<le> clock s \<and> clock s \<le> clock (pfs p) + 2 * length fs"
  using assms
proof (induction fs arbitrary: p)
  case Nil
  then show ?case by (intro exI [of _ "pfs p"]) (simp add: set_fs_def same_dir_def)
next
  case (Cons x fs)
  obtain i f where x: "x = (i, f)" by (cases x)
  let ?w = "hworld (phost p)"
  have i: "FID f = i" "i \<noteq> []" "length i \<le> 256" "\<not> contains_any i [CHR 0x0D, CHR 0x0A, CHR 0x00]" "fresh_dir [markerName] (FPath f) (pfs p)"
    using Cons.prems(5) [of i f] x by simp_all
  have root: "FPath f \<in> D" using Cons.prems(4) x by simp
  obtain s1 where s1: "InitFolder (FPath f) i ?w = (Inr (), ?w\<lparr>wfs := s1\<rparr>)" "marked (FPath f) i s1" "sets_up D (FPath f) 2 (pfs p) s1"
    using InitFolder_quiet [OF Cons.prems(1) i(5) Cons.prems(2) root i(2-4)] by blast
  let ?p = "set_fs s1 p"
  have same: "same_dir e (pfs p) s1" if "e \<in> D" "e \<noteq> FPath f" for e using s1(3) Cons.prems(2) that by (simp add: sets_up_def)
  have ok: "mounts_ok D s1" using s1(3) Cons.prems(2) by (simp add: sets_up_def)
  have "\<exists>s. init_folders fs ?p = (Inr (), set_fs s ?p) \<and> mounts_ok D s \<and> (\<forall>(i, f) \<in> set fs. marked (FPath f) i s)
    \<and> (\<forall>e \<in> D. e \<notin> (FPath \<circ> snd) ` set fs \<longrightarrow> same_dir e (pfs ?p) s) \<and> clock (pfs ?p) \<le> clock s \<and> clock s \<le> clock (pfs ?p) + 2 * length fs"
  proof (rule Cons.IH)
    fix j g assume g: "(j, g) \<in> set fs"
    then have "FPath g \<in> D" "FPath g \<noteq> FPath f" using Cons.prems(3,4) x by (force simp: image_iff)+
    then have "same_dir (FPath g) (pfs p) s1" by (rule same)
    then show "FID g = j \<and> j \<noteq> [] \<and> length j \<le> 256 \<and> \<not> contains_any j [CHR 0x0D, CHR 0x0A, CHR 0x00] \<and> fresh_dir [markerName] (FPath g) (pfs ?p)"
      using Cons.prems(5) [of j g] g same_dir_fresh [of "FPath g" "pfs p" s1 "[markerName]"] by (simp add: set_fs_def)
  qed (use Cons.prems ok in \<open>simp_all add: set_fs_def\<close>)
  then obtain s where s: "init_folders fs ?p = (Inr (), set_fs s ?p)" "mounts_ok D s" "\<forall>(i, f) \<in> set fs. marked (FPath f) i s"
    "\<forall>e \<in> D. e \<notin> (FPath \<circ> snd) ` set fs \<longrightarrow> same_dir e s1 s" "clock s1 \<le> clock s" "clock s \<le> clock s1 + 2 * length fs"
    by (auto simp: set_fs_def)
  have "init_folders (x # fs) p = (Inr (), set_fs s p)"
    using s1(1) s(1) by (simp add: x i(1) run_simps zoom_def set_fs_def)
  moreover have "marked (FPath f) i s"
    using s(4) s1(2) same_dir_marked Cons.prems(3,4) x by auto
  moreover have "same_dir e (pfs p) s" if "e \<in> D" "e \<notin> (FPath \<circ> snd) ` set (x # fs)" for e
    using same_dir_trans [OF same] s(4) that x by auto
  moreover have "clock (pfs p) \<le> clock s \<and> clock s \<le> clock (pfs p) + 2 * length (x # fs)"
    using s(5,6) s1(3) by (simp add: sets_up_def)
  ultimately show ?case using s(2,3) x by (intro exI [of _ s]) auto
qed

section \<open>The state directory\<close>

definition state_names :: "string list" where
  "state_names = [''daemon.lock'', ''cert.pem'', ''key.pem'', temp_candidate 0]"

lemma state_names_distinct: "''daemon.lock'' \<noteq> ''cert.pem''" "''daemon.lock'' \<noteq> ''key.pem''" "''daemon.lock'' \<noteq> temp_candidate 0"
  by (simp_all add: temp_candidate_def)

lemma LockState_fresh:
  assumes "quiet (hworld h)" "held h = {}" "fresh_dir state_names dir (wfs (hworld h))" "mounts_ok D (wfs (hworld h))" "dir \<in> D"
  shows "\<exists>r m es n s. LockState dir h = (Inr (HFile n), h\<lparr>hworld := (hworld h)\<lparr>wfs := s\<rparr>, held := {n}\<rparr>) \<and> mounts s dir = Some r
    \<and> trees s r = Dir m es \<and> map_of es ''daemon.lock'' = Some (File n) \<and> map_of es ''cert.pem'' = None \<and> map_of es ''key.pem'' = None
    \<and> map_of es (temp_candidate 0) = None \<and> sets_up D dir 1 (wfs (hworld h)) s"
proof -
  obtain r m es s1 where s1: "fs_make_root dir 448 (wfs (hworld h)) = (Inr (), s1)" "mounts s1 dir = Some r" "trees s1 r = Dir m es"
    "\<forall>n \<in> set state_names. map_of es n = None" "sets_up D dir 0 (wfs (hworld h)) s1"
    using make_root_sets_up [OF assms(3-5), of 448] by blast
  have lk: "map_of es ''daemon.lock'' = None" using s1(4) by (simp add: state_names_def)
  obtain s2 where s2: "fs_create_excl r [''daemon.lock''] 384 s1 = (Inr (HFile (next_inode s1)), s2)" "only_in 1 r s1 s2"
    "trees s2 r = Dir m (AList.update ''daemon.lock'' (File (next_inode s1)) es)"
    using create_new [OF s1(3) lk, of 384] by blast
  have "sets_up D dir (0 + 1) (wfs (hworld h)) s2"
    by (rule sets_up_trans [OF s1(5) sets_up_only_in [OF s2(2) s1(2) assms(5)]])
  moreover have "mounts s2 dir = Some r" using s1(2) s2(2) by (simp add: only_in_def)
  moreover have "LockState dir h = (Inr (HFile (next_inode s1)), h\<lparr>hworld := (hworld h)\<lparr>wfs := s2\<rparr>, held := {next_inode s1}\<rparr>)"
    using assms(1,2) s1(1-3) s2(1) lk
    by (simp add: LockState_def Flock_def locked_inode_def run_simps zoom_def sys_quiet in_dir_def fs_open_create_def)
  ultimately show ?thesis using s1(4) s2(3) state_names_distinct
    by (intro exI [of _ r] exI [of _ m] exI [of _ "AList.update ''daemon.lock'' (File (next_inode s1)) es"] exI [of _ "next_inode s1"] exI [of _ s2])
       (simp add: update_conv' state_names_def)
qed

lemma LockState_again:
  assumes "quiet (hworld h)" "mounts (wfs (hworld h)) dir = Some r" "trees (wfs (hworld h)) r = Dir m es"
    "map_of es ''daemon.lock'' = Some (File n)" "n \<notin> held h"
  shows "LockState dir h = (Inr (HFile n), h\<lparr>held := insert n (held h)\<rparr>)"
  using assms
  by (simp add: LockState_def Flock_def locked_inode_def run_simps zoom_def sys_quiet in_dir_def fs_open_create_def fs_make_root_def)

lemma Store_Open_empty:
  assumes "quiet w" "mounts (wfs w) dir = Some r" "trees (wfs w) r = Dir m es" "wdb w = empty_database"
  shows "Store_Open dir w = (Inr (), w\<lparr>wdb := empty_database\<lparr>user_version := 1\<rparr>\<rparr>)"
  using assms
  by (simp add: Store_Open_def run_simps sys_quiet db_QueryRow_def db_Exec_def fs_make_root_def empty_database_def recount_usage_def
      set_user_version_def)

lemma same_dir_enrolled:
  assumes "same_dir dir s s'" "mounts s dir = Some r" "enrolled K T r s i" "clock s \<le> clock s'"
  shows "enrolled K T r s' i"
proof -
  have sm: "trees s' r = trees s r" "\<And>j. j < next_inode s \<Longrightarrow> inodes s' j = inodes s j" "next_inode s \<le> next_inode s'"
    using assms(1,2) by (simp_all add: same_dir_def)
  from assms(3) obtain m es ic ik der k cert where e: "trees s r = Dir m es"
    "map_of es ''cert.pem'' = Some (File ic)" "map_of es ''key.pem'' = Some (File ik)" "ic < next_inode s" "ik < next_inode s"
    "imode (inodes s ic) AND 63 = 0" "imode (inodes s ik) AND 63 = 0"
    "X509KeyPair K (idata (inodes s ic)) (idata (inodes s ik)) = Inr ([der], Ed25519Key k)" "ParseCertificate K der = Inr cert"
    "i = \<lparr>Leaf = cert, PrivateKey = Ed25519Key k, ID = fingerprint_id (Raw cert)\<rparr>"
    "\<forall>t. int (clock s) \<le> t \<longrightarrow> t \<le> T \<longrightarrow> validateCertificate t cert = Inr ()"
    unfolding enrolled_def by blast
  show ?thesis unfolding enrolled_def
    by (rule exI [of _ m], rule exI [of _ es], rule exI [of _ ic], rule exI [of _ ik], rule exI [of _ der], rule exI [of _ k], rule exI [of _ cert])
       (use e sm assms(4) in simp)
qed

section \<open>First init, then run\<close>

lemma apart_distinct: "sorted_wrt R xs \<Longrightarrow> (\<And>x. \<not> R x x) \<Longrightarrow> distinct xs"
  by (induction xs) auto

lemma config_ok_distinct: "config_ok os c \<Longrightarrow> distinct (StateDir c # map (FPath \<circ> snd) (CFolders c))"
  by (rule apart_distinct [where R = "\<lambda>p q. apart (the (root_path os p)) (the (root_path os q))"])
     (simp_all add: config_ok_def roots_apart_pairs apart_irrefl del: sorted_wrt.simps)

lemma namePattern_plain: "namePattern i \<Longrightarrow> i \<noteq> [] \<and> \<not> contains_any i [CHR 0x0D, CHR 0x0A, CHR 0x00]"
  by (cases i) (auto simp: namePattern_def contains_any_def is_alnum_def list_all_iff list_ex_iff Let_def)

lemma command_init_quiet:
  assumes "crypto_sound (env_crypto env)" "quiet (hworld h)" "held h = {}" "wdb (hworld h) = empty_database"
    "nonces (hworld h) = seed # serial # ns" "length serial \<le> 16" "int (clock (wfs (hworld h))) + 1 < 2 ^ 63" "Validate os c = Inr ()" "\<forall>(i, f) \<in> set (CFolders c). length i \<le> 256 \<and> fresh_dir [markerName] (FPath f) (wfs (hworld h))"
    "mounts_ok (insert (StateDir c) ((FPath \<circ> snd) ` set (CFolders c))) (wfs (hworld h))"
    "fresh_dir state_names (StateDir c) (wfs (hworld h))"
  shows "\<exists>i h' st lock h''. command_init env c \<lparr>phost = h, pout = out\<rparr> = (Inr (), \<lparr>phost = h', pout = out @ [Line (ID i)]\<rparr>)
    \<and> held h' = {} \<and> Daemon_New (env_crypto env) os c h' = (Inr (i, st, lock), h'')
    \<and> (\<forall>(n, f) \<in> set (CFolders c). CheckFolder (FPath f) n (hworld h') = (Inr (), hworld h'))"
proof -
  let ?K = "env_crypto env" and ?d = "StateDir c" and ?D = "insert (StateDir c) ((FPath \<circ> snd) ` set (CFolders c))"
  have ok: "config_ok os c" using assms(8) by (simp add: Validate_Inr)
  from LockState_fresh [OF assms(2,3,11,10)] obtain r m es n s1 where
    l: "LockState ?d h = (Inr (HFile n), h\<lparr>hworld := (hworld h)\<lparr>wfs := s1\<rparr>, held := {n}\<rparr>)" "mounts s1 ?d = Some r"
    "trees s1 r = Dir m es" "map_of es ''daemon.lock'' = Some (File n)" "map_of es ''cert.pem'' = None" "map_of es ''key.pem'' = None"
    "map_of es (temp_candidate 0) = None" "sets_up ?D ?d 1 (wfs (hworld h)) s1" by blast
  let ?w1 = "(hworld h)\<lparr>wfs := s1\<rparr>"
  have young: "int (clock s1) < 2 ^ 63" using l(8) assms(7) by (simp add: sets_up_def)
  define T where "T = int (clock s1) + 9 * 365 * 24 * 3600 * 10 ^ 9"
  obtain i s2 es2 where i: "LoadOrCreate ?K ?d ?w1 = (Inr i, ?w1\<lparr>nonces := ns, wfs := s2\<rparr>)" "enrolled ?K T r s2 i" "only_in 4 r s1 s2"
    "trees s2 r = Dir m es2" "map_of es2 ''daemon.lock'' = Some (File n)"
    using LoadOrCreate_quiet [OF assms(1), of ?w1 ?d r m es seed serial ns] assms(2,5,6) young l(2-7) state_names_distinct
    by (auto simp: T_def)
  have up: "sets_up ?D ?d (1 + 4) (wfs (hworld h)) s2"
    by (rule sets_up_trans [OF l(8) sets_up_only_in [OF i(3) l(2)]]) simp
  let ?p2 = "\<lparr>phost = \<lparr>hworld = ?w1\<lparr>nonces := ns, wfs := s2\<rparr>, held = {n}\<rparr>, pout = out\<rparr>"
  have dist: "distinct (?d # map (FPath \<circ> snd) (CFolders c))" by (rule config_ok_distinct [OF ok])
  have "\<exists>s. init_folders (CFolders c) ?p2 = (Inr (), set_fs s ?p2) \<and> mounts_ok ?D s \<and> (\<forall>(i, f) \<in> set (CFolders c). marked (FPath f) i s)
    \<and> (\<forall>e \<in> ?D. e \<notin> (FPath \<circ> snd) ` set (CFolders c) \<longrightarrow> same_dir e (pfs ?p2) s) \<and> clock (pfs ?p2) \<le> clock s
    \<and> clock s \<le> clock (pfs ?p2) + 2 * length (CFolders c)"
  proof (rule init_folders_quiet)
    fix j f assume f: "(j, f) \<in> set (CFolders c)"
    then have "FPath f \<in> ?D" "FPath f \<noteq> ?d" using dist by force+
    then have "same_dir (FPath f) (wfs (hworld h)) s2" using up assms(10) unfolding sets_up_def by blast
    then have "fresh_dir [markerName] (FPath f) s2" using assms(9) f same_dir_fresh by fast
    moreover have "FID f = j" "namePattern j" using ok f by (auto simp: config_ok_def folder_ok_def)
    ultimately show "FID f = j \<and> j \<noteq> [] \<and> length j \<le> 256 \<and> \<not> contains_any j [CHR 0x0D, CHR 0x0A, CHR 0x00] \<and> fresh_dir [markerName] (FPath f) (pfs ?p2)"
      using assms(9) f namePattern_plain [of j] by auto
  qed (use assms(2,10) up dist in \<open>auto simp: sets_up_def\<close>)
  then obtain s3 where s3: "init_folders (CFolders c) ?p2 = (Inr (), set_fs s3 ?p2)" "\<forall>(i, f) \<in> set (CFolders c). marked (FPath f) i s3"
    "same_dir ?d s2 s3" "clock s2 \<le> clock s3" "clock s3 \<le> clock s2 + 2 * length (CFolders c)"
    using dist by auto
  let ?w = "(hworld h)\<lparr>nonces := ns, wfs := s3\<rparr>" and ?h' = "\<lparr>hworld = (hworld h)\<lparr>nonces := ns, wfs := s3\<rparr>, held = {}\<rparr>"
  have q: "quiet ?w" using assms(2) by simp
  have m2: "mounts s2 ?d = Some r" using i(3) l(2) by (simp add: only_in_def)
  have m3: "mounts s3 ?d = Some r" "trees s3 r = Dir m es2" using s3(3) m2 i(4) by (simp_all add: same_dir_def)
  have h: "h\<lparr>hworld := x, held := {n}\<rparr> = \<lparr>hworld = x, held = {n}\<rparr>" for x by (cases h) simp
  have init: "command_init env c \<lparr>phost = h, pout = out\<rparr> = (Inr (), \<lparr>phost = ?h', pout = out @ [Line (ID i)]\<rparr>)"
    using l(1) [unfolded h] i(1) s3(1)
    by (simp add: command_init_def run_simps zoom_def set_fs_def println_def Unlock_def locked_inode_def)
  have "int (clock s3) \<le> T"
  proof -
    have "clock s3 \<le> clock s1 + 4 + 2 * length (CFolders c)" using s3(5) i(3) by (simp add: only_in_def)
    moreover have "length (CFolders c) \<le> 128" using ok by (simp add: config_ok_def)
    ultimately have "int (clock s3) \<le> int (clock s1) + 260" by linarith
    then show ?thesis by (simp add: T_def)
  qed
  then have load: "identity_Load ?K ?d ?w = (Inr i, ?w)"
    using enrolled_load [OF q, of ?d r ?K T i] m3(1) same_dir_enrolled [OF s3(3) m2 i(2) s3(4)] by simp
  have "Daemon_New ?K os c ?h' = (Inr (i, new_status c i, HFile n), \<lparr>hworld = ?w\<lparr>wdb := empty_database\<lparr>user_version := 1\<rparr>\<rparr>, held = {n}\<rparr>)"
    using assms(8) LockState_again [of ?h' ?d r m es2 n] q m3 i(5) load Store_Open_empty [OF q, of ?d r m es2] assms(4)
    by (simp add: Daemon_New_def run_simps zoom_def)
  moreover have "\<forall>(k, f) \<in> set (CFolders c). CheckFolder (FPath f) k ?w = (Inr (), ?w)"
    using s3(2) assms(9) marked_CheckFolder [OF q] by fastforce
  ultimately show ?thesis using init by (intro exI [of _ i] exI [of _ ?h']) auto
qed

lemma config_Load_valid: "config_Load os p = Inr c \<Longrightarrow> Validate os c = Inr ()"
  by (auto simp: config_Load_def Parse_def split: sum.splits prod.splits option.splits)

lemma flags_config: "flag_Parse (''config'' # fs) Map.empty [''-config'', v] = Inr ([''config'' \<mapsto> v], [])"
  by (simp add: flag_Parse.simps flag_name_def has_prefix_def Gostrings.cut_def)

text \<open>C40. The command init prints the device id of a new identity, and after it the daemon starts with
  exactly this identity and every configured folder passes the check of its marker: for an accepted
  configuration whose folder ids have at most 256 bytes, on a machine with an empty index where no
  call fails, no daemon holds the lock and the clock is before the year 2262, whose configured
  directories are missing or without the names that are about to be made and do not share trees, and
  with a library that signs, encodes and decodes device certificates as documented.\<close>

theorem init_then_run:
  assumes "crypto_sound (env_crypto env)" "quiet (hworld h)" "held h = {}" "wdb (hworld h) = empty_database"
    "nonces (hworld h) = seed # serial # ns" "length serial \<le> 16" "int (clock (wfs (hworld h))) + 1 < 2 ^ 63"
    "config_Load (env_paths env) file = Inr c"
    "\<forall>(i, f) \<in> set (CFolders c). length i \<le> 256 \<and> fresh_dir [markerName] (FPath f) (wfs (hworld h))"
    "mounts_ok (insert (StateDir c) ((FPath \<circ> snd) ` set (CFolders c))) (wfs (hworld h))"
    "fresh_dir state_names (StateDir c) (wfs (hworld h))"
  shows "\<exists>i h' st lock h''.
    backuply_main env [''init'', ''-config'', file] \<lparr>phost = h, pout = []\<rparr> = (0, \<lparr>phost = h', pout = [Line (ID i)]\<rparr>)
    \<and> Daemon_New (env_crypto env) (env_paths env) c h' = (Inr (i, st, lock), h'')
    \<and> (\<forall>(n, f) \<in> set (CFolders c). CheckFolder (FPath f) n (hworld h') = (Inr (), hworld h'))"
proof -
  from command_init_quiet [OF assms(1-7) config_Load_valid [OF assms(8)] assms(9-11), where out = "[]"]
  obtain i h' st lock h'' where i: "command_init env c \<lparr>phost = h, pout = []\<rparr> = (Inr (), \<lparr>phost = h', pout = [] @ [Line (ID i)]\<rparr>)"
    "Daemon_New (env_crypto env) (env_paths env) c h' = (Inr (i, st, lock), h'')"
    "\<forall>(n, f) \<in> set (CFolders c). CheckFolder (FPath f) n (hworld h') = (Inr (), hworld h')" by blast
  have "execute env [''init'', ''-config'', file] \<lparr>phost = h, pout = []\<rparr> = (Inr (), \<lparr>phost = h', pout = [Line (ID i)]\<rparr>)"
    using i(1) assms(8) by (simp add: execute_def flags_config flag_config_def run_command_def run_simps)
  with i(2,3) show ?thesis by (auto simp: backuply_main_def)
qed

definition demo_file :: bytes where
  "demo_file = join_with (CHR 0x0A) [''[service]'', ''state_dir = /s'', ''[folder '' @ [quote_char] @ ''f'' @ [quote_char] @ '']'', ''path = /r'', ''source = local'']"

definition demo_folder_config :: Config where
  "demo_folder_config = \<lparr>Listen = ''127.0.0.1:24800'', StateDir = ''/s'', ScanInterval = 5 * 10 ^ 9, CPeers = [],
     CFolders = [(''f'', \<lparr>FID = ''f'', FPath = ''/r'', FSource = ''local'', FPeers = []\<rparr>)]\<rparr>"

definition demo_lines :: "string list" where
  "demo_lines = [''[service]'', ''state_dir = /s'', ''[folder '' @ [quote_char] @ ''f'' @ [quote_char] @ '']'', ''path = /r'', ''source = local'']"

definition demo_parser :: "string list \<Rightarrow> string list \<Rightarrow> string \<Rightarrow> string \<Rightarrow> string \<Rightarrow> (string \<times> config_Folder) list \<Rightarrow> parser" where
  "demo_parser secs keys kind name dir fs = \<lparr>p_cfg = \<lparr>Listen = ''127.0.0.1:24800'', StateDir = dir, ScanInterval = 5 * 10 ^ 9, CPeers = [], CFolders = fs\<rparr>,
     p_sections = secs, p_keys = keys, p_kind = kind, p_name = name\<rparr>"

abbreviation demo_section :: string where
  "demo_section \<equiv> ''folder '' @ [quote_char] @ ''f'' @ [quote_char]"

abbreviation demo_parsing :: "string list \<Rightarrow> string \<Rightarrow> string \<Rightarrow> parser" where
  "demo_parsing keys path source \<equiv> demo_parser [demo_section, ''service''] keys ''folder'' ''f'' ''/s''
     [(''f'', \<lparr>FID = ''f'', FPath = path, FSource = source, FPeers = []\<rparr>)]"

lemma demo_step_a:
  "parse_line n ''[service]'' parse_begin = Inr (demo_parser [''service''] [] ''service'' [] [] [])"
  by code_simp

lemma demo_step_b:
  "parse_line n ''state_dir = /s'' (demo_parser [''service''] [] ''service'' [] [] [])
     = Inr (demo_parser [''service''] [''service//state_dir''] ''service'' [] ''/s'' [])"
  by code_simp

lemma demo_step_c:
  "parse_line n (''[folder '' @ [quote_char] @ ''f'' @ [quote_char] @ '']'')
     (demo_parser [''service''] [''service//state_dir''] ''service'' [] ''/s'' [])
     = Inr (demo_parsing [''service//state_dir''] [] [])"
  by code_simp

lemma demo_step_d:
  "parse_line n ''path = /r'' (demo_parsing [''service//state_dir''] [] [])
     = Inr (demo_parsing [''folder/f/path'', ''service//state_dir''] ''/r'' [])"
  by code_simp

lemma demo_step_e:
  "parse_line n ''source = local'' (demo_parsing [''folder/f/path'', ''service//state_dir''] ''/r'' [])
     = Inr (demo_parsing [''folder/f/source'', ''folder/f/path'', ''service//state_dir''] ''/r'' ''local'')"
  by code_simp

lemmas demo_steps = demo_step_a demo_step_b demo_step_c demo_step_d demo_step_e

abbreviation demo_env_paths :: paths where
  "demo_env_paths \<equiv> demo_paths\<lparr>os_Open := (\<lambda>_. Inr (demo_file, None))\<rparr>"

lemma demo_scanned: "scan_lines maxLine (demo_file, None) = (demo_lines, None)"
  by code_simp

lemma demo_validated: "Validate demo_env_paths demo_folder_config = Inr ()"
  by code_simp

lemma demo_loaded: "config_Load demo_env_paths ''c'' = Inr demo_folder_config"
proof -
  have "parse_lines 0 demo_lines parse_begin = Inr (demo_parsing [''folder/f/source'', ''folder/f/path'', ''service//state_dir''] ''/r'' ''local'')"
    unfolding demo_lines_def by (simp only: parse_lines.simps demo_steps sum.case)
  moreover have "p_cfg (demo_parsing [''folder/f/source'', ''folder/f/path'', ''service//state_dir''] ''/r'' ''local'') = demo_folder_config"
    by (simp add: demo_parser_def demo_folder_config_def)
  ultimately show ?thesis using demo_validated by (simp add: config_Load_def Parse_def demo_scanned)
qed

definition demo_environment :: environment where
  "demo_environment = \<lparr>env_crypto = toy_crypto, env_paths = demo_env_paths, env_version = ''0'', env_http = (\<lambda>_. Inl NotExist),
     env_decode = (\<lambda>_. Inl NotExist), env_run = (\<lambda>d. (None, d))\<rparr>"

definition demo_empty_host :: host where
  "demo_empty_host = \<lparr>hworld = demo_world\<lparr>wfs := demo_fs\<lparr>mounts := Map.empty\<rparr>, nonces := [''seed'', ''serial'']\<rparr>, held = {}\<rparr>"

theorem init_then_run_witness:
  "\<exists>i h' st lock h''.
    backuply_main demo_environment [''init'', ''-config'', ''c''] \<lparr>phost = demo_empty_host, pout = []\<rparr>
      = (0, \<lparr>phost = h', pout = [Line (ID i)]\<rparr>)
    \<and> Daemon_New toy_crypto demo_env_paths demo_folder_config h' = (Inr (i, st, lock), h'')
    \<and> CheckFolder ''/r'' ''f'' (hworld h') = (Inr (), hworld h')"
  using init_then_run [of demo_environment demo_empty_host "''seed''" "''serial''" "[]" "''c''" demo_folder_config]
    demo_loaded toy_sound
  by (simp add: demo_environment_def demo_empty_host_def demo_world_def demo_fs_def quiet_def fresh_dir_def mounts_ok_def
      demo_folder_config_def)

end
