(* ===== verification/Listing.thy ===== *)
theory Listing
  imports Replication
begin

text \<open>
  A whole tree as a listing: its entries, the blocks of its files, and what a client and a server say
  to each other when the tree is fetched.
\<close>

section \<open>A tree as a listing\<close>

text \<open>
  A listing that describes a whole tree whose files have the bytes \<open>D\<close>: valid entries, each path once,
  each entry in the root or in a directory of the listing.
\<close>

definition tree_listing :: "(string \<Rightarrow> bytes) \<Rightarrow> Entry list \<Rightarrow> bool" where
  "tree_listing D es \<longleftrightarrow> distinct (map EPath es) \<and> (\<forall>e \<in> set es. ValidateEntry e = Inr ()
     \<and> (EKind e = ''file'' \<longrightarrow> entry_of (EPath e) (EMode e) (D (EPath e)) = e)
     \<and> (path_Dir (EPath e) = ''.'' \<or> (\<exists>d \<in> set es. EKind d = ''directory'' \<and> EPath d = path_Dir (EPath e))))"

lemma ValidateEntry_kinds:
  assumes "ValidateEntry e = Inr ()"
  shows "EKind e = ''directory'' \<and> e = dir_entry (EPath e) (EMode e) \<or> EKind e = ''file''"
    and "validPath (EPath e) = Inr ()" and "EMode e AND NOT 511 = 0" and "EKind e = ''file'' \<Longrightarrow> ESize e \<le> MaxFileSize"
  using assms by (auto simp: ValidateEntry_def dir_entry_def split: sum.splits if_splits)

lemma path_Dir_cases:
  assumes "validPath name = Inr ()" "components (path_Dir name) \<noteq> []"
  shows "path_Dir name \<noteq> ''.''"
  using assms by (auto simp: components_def)

lemma path_Dir_prefix:
  assumes "path_Dir name \<noteq> ''.''"
  obtains z where "name = path_Dir name @ slash # z" "split_on slash (path_Dir name) = butlast (split_on slash name)"
proof -
  define ps where "ps = split_on slash name"
  have l: "\<not> length ps \<le> 1" "path_Dir name = join_with slash (butlast ps)"
    using assms by (auto simp: path_Dir_def ps_def Let_def split: if_splits)
  have ne: "ps \<noteq> []" "butlast ps \<noteq> []" using l(1) by (cases ps; auto)+
  have "name = join_with slash ps" by (simp add: ps_def)
  also have "... = join_with slash (butlast ps @ [last ps])" using ne by simp
  also have "... = join_with slash (butlast ps) @ slash # last ps"
    by (simp only: join_with_append [OF ne(2), of "[last ps]"] list.distinct not_False_eq_True join_with.simps)
  finally have "name = path_Dir name @ slash # last ps" using l(2) by metis
  moreover have "split_on slash (path_Dir name) = butlast ps"
    unfolding l(2) by (rule split_join [OF ne(2)]) (auto simp: ps_def dest!: in_set_butlastD split_on_parts)
  ultimately show ?thesis using that by (simp add: ps_def)
qed

lemma path_Dir_less:
  assumes "path_Dir name \<noteq> ''.''"
  shows "path_Dir name < name"
proof -
  have "xs < xs @ y # ys" for xs ys :: string and y by (induction xs) (simp_all add: list_less_def)
  then show ?thesis using path_Dir_prefix [OF assms] by metis
qed

lemma validPath_Dir:
  assumes "validPath name = Inr ()" "path_Dir name \<noteq> ''.''"
  shows "validPath (path_Dir name) = Inr ()"
proof -
  obtain z where z: "name = path_Dir name @ slash # z" "split_on slash (path_Dir name) = butlast (split_on slash name)"
    using path_Dir_prefix [OF assms(2)] .
  have "valid_utf8 (path_Dir name)" using validPath_facts(1) [OF assms(1)] z(1) valid_utf8_cut by metis
  moreover have "length (path_Dir name) \<le> length name" "set (path_Dir name) \<subseteq> set name"
    using arg_cong [OF z(1), of length] arg_cong [OF z(1), of set] by auto
  moreover have "set (butlast (split_on slash name)) \<subseteq> set (split_on slash name)" by (auto dest: in_set_butlastD)
  ultimately show ?thesis
    using assms by (auto simp: validPath_def fs_ValidPath_def contains_any_def z(2) list_all_iff list_ex_iff split: if_splits)
qed

lemma split_at: "p \<noteq> [] \<Longrightarrow> butlast p @ [last p] = p" by simp

lemma parent_ok_listed:
  assumes "tree_listing D es" "e \<in> set es"
  shows "parent_ok (EPath e)"
  using assms ValidateEntry_kinds(2) unfolding tree_listing_def parent_ok_def by metis

text \<open>Every directory on the way to an entry is an entry.\<close>

lemma ancestors_listed:
  assumes "tree_listing D es" "e \<in> set es" "components (EPath e) = p @ z" "p \<noteq> []" "z \<noteq> []"
  shows "\<exists>d \<in> set es. EKind d = ''directory'' \<and> components (EPath d) = p"
  using assms(2,3,5)
proof (induction z arbitrary: e rule: rev_induct)
  case (snoc x z)
  have v: "validPath (EPath e) = Inr ()" using assms(1) snoc.prems(1) ValidateEntry_kinds(2) by (auto simp: tree_listing_def)
  have pd: "components (path_Dir (EPath e)) = p @ z"
    using components_path_Dir [OF v] snoc.prems(2) by (simp add: butlast_append)
  then have "path_Dir (EPath e) \<noteq> ''.''" using assms(4) by (auto simp: components_def)
  with assms(1) snoc.prems(1) obtain d where d: "d \<in> set es" "EKind d = ''directory''" "EPath d = path_Dir (EPath e)"
    by (auto simp: tree_listing_def)
  show ?case
  proof (cases "z = []")
    case True
    with d pd show ?thesis by auto
  next
    case False
    with snoc.IH [OF d(1)] d(3) pd show ?thesis by simp
  qed
qed simp

lemma listed_path_inject:
  assumes "tree_listing D es" "d \<in> set es" "e \<in> set es" "components (EPath d) = components (EPath e)"
  shows "d = e"
proof -
  have "validPath (EPath d) = Inr ()" "validPath (EPath e) = Inr ()"
    using assms ValidateEntry_kinds(2) by (auto simp: tree_listing_def)
  with assms(4) have "EPath d = EPath e" using components_inject by blast
  with assms show ?thesis by (auto simp: tree_listing_def distinct_map dest: inj_onD)
qed

lemma not_below_file:
  assumes "tree_listing D es" "f \<in> set es" "e \<in> set es" "EKind f = ''file''" "f \<noteq> e"
  shows "\<not> below (components (EPath f)) (components (EPath e))"
    and "\<not> below (components (EPath f)) (butlast (components (EPath e)))"
    and "\<not> below (components (EPath f)) (components (temp_name (EPath e) n))"
proof -
  have v: "validPath (EPath e) = Inr ()" "validPath (EPath f) = Inr ()"
    using assms ValidateEntry_kinds(2) by (auto simp: tree_listing_def)
  show *: "\<not> below (components (EPath f)) (components (EPath e))"
  proof
    assume "below (components (EPath f)) (components (EPath e))"
    then obtain z where z: "components (EPath e) = components (EPath f) @ z" by (auto simp: below_iff)
    show False
    proof (cases "z = []")
      case True
      with z listed_path_inject [OF assms(1-3)] assms(5) show False by simp
    next
      case False
      from ancestors_listed [OF assms(1,3) z components_nonempty [OF v(2)] False]
      obtain d where "d \<in> set es" "EKind d = ''directory''" "components (EPath d) = components (EPath f)" by blast
      with listed_path_inject [OF assms(1) this(1) assms(2)] assms(4) show False by simp
    qed
  qed
  show **: "\<not> below (components (EPath f)) (butlast (components (EPath e)))"
  proof
    assume "below (components (EPath f)) (butlast (components (EPath e)))"
    then obtain z where "butlast (components (EPath e)) = components (EPath f) @ z" by (auto simp: below_iff)
    then have "components (EPath e) = components (EPath f) @ (z @ [last (components (EPath e))])"
      using split_at [OF components_nonempty [OF v(1)]] by (metis append.assoc)
    with * show False by (auto simp: below_iff)
  qed
  show "\<not> below (components (EPath f)) (components (temp_name (EPath e) n))"
  proof
    assume "below (components (EPath f)) (components (temp_name (EPath e) n))"
    then obtain z where z: "components (temp_name (EPath e) n) = components (EPath f) @ z" by (auto simp: below_iff)
    show False
    proof (cases "z = []")
      case True
      with z scratch_below [of 0 "EPath e" n 0 "components (EPath f)"] scratch_valid [OF v(2)] v(1)
      show False by (auto simp: at_or_below_def)
    next
      case False
      then have "butlast (components (EPath e)) = components (EPath f) @ butlast z"
        using z temp_apart(2) [OF v(1), of n] by (simp add: butlast_append)
      with ** show False by (auto simp: below_iff)
    qed
  qed
qed

section \<open>The blocks of a tree on the wire\<close>

definition folder_name_ok :: "string \<Rightarrow> bool" where
  "folder_name_ok folder \<longleftrightarrow> folder \<noteq> [] \<and> length folder \<le> 256 \<and> valid_utf8 folder"

lemma blocks_from_sizes: "b \<in> set (blocks_from off data) \<Longrightarrow> 0 < BSize b \<and> BSize b \<le> BlockSize"
proof (induction off data rule: blocks_from_pieces_ind)
  case (2 off p rest)
  then show ?case by (auto simp: blocks_from_piece)
qed simp

lemma file_blocks:
  assumes "tree_listing D es" "e \<in> set es" "EKind e = ''file''"
  shows "EBlocks e = blocks_from 0 (D (EPath e))" "int (length (D (EPath e))) \<le> MaxFileSize"
    "e = entry_of (EPath e) (EMode e) (D (EPath e))"
proof -
  show e: "e = entry_of (EPath e) (EMode e) (D (EPath e))" using assms by (simp add: tree_listing_def)
  show "EBlocks e = blocks_from 0 (D (EPath e))" using arg_cong [OF e, of EBlocks] by (simp add: entry_of_def)
  have "ESize e = int (length (D (EPath e)))" using arg_cong [OF e, of ESize] by (simp add: entry_of_def)
  moreover have "ESize e \<le> MaxFileSize" using assms ValidateEntry_kinds(4) by (auto simp: tree_listing_def)
  ultimately show "int (length (D (EPath e))) \<le> MaxFileSize" by simp
qed

lemma listed_block:
  assumes "tree_listing D es" "e \<in> set es" "b \<in> set (EBlocks e)" "folder_name_ok folder"
  shows "block_request_ok folder (EPath e) (EHash e) b" "piece_ok b (cut (D (EPath e)) b)"
proof -
  have v: "ValidateEntry e = Inr ()" using assms(1,2) by (simp add: tree_listing_def)
  then have k: "EKind e = ''file''" using ValidateEntry_kinds(1) [OF v] assms(3) by (metis dir_entry_def Entry.select_convs(6) empty_iff list.set(1))
  note f = file_blocks [OF assms(1,2) k]
  show "piece_ok b (cut (D (EPath e)) b)"
    using cut_blocks_from [of "D (EPath e)" "[]" "D (EPath e)" 0] assms(3) f(1) by simp
  have l: "check_layout (ESize e) 0 (EBlocks e) = Inr ()" "0 \<le> ESize e" "ESize e \<le> MaxFileSize" "validHash (EHash e)"
    using v k by (auto simp: ValidateEntry_def split: sum.splits if_splits)
  have "small_block b" using check_layout_small [OF l(1)] l(2,3) assms(3) by simp
  moreover have "0 < BSize b \<and> BSize b \<le> BlockSize" using assms(3) f(1) blocks_from_sizes by simp
  moreover have "valid_utf8 (EPath e)" "length (EPath e) \<le> 4096"
    using validPath_facts [OF ValidateEntry_kinds(2) [OF v]] by simp_all
  ultimately show "block_request_ok folder (EPath e) (EHash e) b"
    using assms(4) l(4) by (simp add: block_request_ok_def small_block_def folder_name_ok_def BlockSize_def)
qed

text \<open>What the client asks for and what the server answers, entry by entry and block by block.\<close>

definition entry_requests :: "string \<Rightarrow> Entry \<Rightarrow> bytes list" where
  "entry_requests folder e = map (\<lambda>b. told (block_message folder (EPath e) (EHash e) b)) (EBlocks e)"

definition entry_answers :: "(string \<Rightarrow> bytes) \<Rightarrow> Entry \<Rightarrow> bytes list" where
  "entry_answers D e = map (\<lambda>b. block_told (cut (D (EPath e)) b)) (EBlocks e)"

definition tree_requests :: "string \<Rightarrow> Entry list \<Rightarrow> bytes list" where
  "tree_requests folder es = concat (map (entry_requests folder) es)"

definition tree_answers :: "(string \<Rightarrow> bytes) \<Rightarrow> Entry list \<Rightarrow> bytes list" where
  "tree_answers D es = concat (map (entry_answers D) es)"

text \<open>A connection on which \<open>answers\<close> arrive and on which \<open>out\<close> is sent once \<open>requests\<close> are.\<close>

definition waiting :: "bytes list \<Rightarrow> bytes list \<Rightarrow> bytes \<Rightarrow> wire \<Rightarrow> bool" where
  "waiting requests answers out c \<longleftrightarrow>
     \<not> shut c \<and> flushed c \<and> rx c = concat answers \<and> tx c @ concat requests = out"

lemma talks_waiting:
  assumes "talks w m x i o' flushed" "waiting (o' # requests) (i # answers) out c"
  shows "\<exists>c'. m (w\<lparr>conn := c\<rparr>) = (Inr x, w\<lparr>conn := c'\<rparr>) \<and> waiting requests answers out c'"
proof -
  have c: "\<not> shut c" "rx c = i @ concat answers" using assms(2) by (simp_all add: waiting_def)
  from talksE [OF assms(1) c] obtain c' where c': "m (w\<lparr>conn := c\<rparr>) = (Inr x, w\<lparr>conn := c'\<rparr>)" "rx c' = concat answers"
    "tx c' @ wbuf c' = tx c @ wbuf c @ o'" "\<not> shut c'" "flushed c'" .
  then show ?thesis using assms(2) by (intro exI [of _ c']) (auto simp: waiting_def)
qed

lemma client_serves:
  assumes "tree_listing D es" "e \<in> set es" "folder_name_ok folder"
  shows "serves_on (\<lambda>bs. waiting (map (\<lambda>b. told (block_message folder (EPath e) (EHash e) b)) bs @ rs)
      (map (\<lambda>b. block_told (cut (D (EPath e)) b)) bs @ as) out)
     (Some (client_ReadBlock folder (EPath e) (EHash e))) (EBlocks e) (cut (D (EPath e)))"
  unfolding serves_on_def
proof (rule exI, rule conjI [OF refl], rule ballI, rule conjI)
  fix b assume b: "b \<in> set (EBlocks e)"
  show "piece_ok b (cut (D (EPath e)) b)" by (rule listed_block [OF assms(1,2) b assms(3)])
  show "\<forall>rest w. quiet w \<longrightarrow> waiting (map (\<lambda>b. told (block_message folder (EPath e) (EHash e) b)) (b # rest) @ rs)
        (map (\<lambda>b. block_told (cut (D (EPath e)) b)) (b # rest) @ as) out (conn w) \<longrightarrow>
     (\<exists>c. client_ReadBlock folder (EPath e) (EHash e) b w = (Inr (cut (D (EPath e)) b), w\<lparr>conn := c\<rparr>)
     \<and> waiting (map (\<lambda>b. told (block_message folder (EPath e) (EHash e) b)) rest @ rs)
         (map (\<lambda>b. block_told (cut (D (EPath e)) b)) rest @ as) out c)"
  proof (intro allI impI)
  fix rest w
  assume w: "quiet w"
    and j: "waiting (map (\<lambda>b. told (block_message folder (EPath e) (EHash e) b)) (b # rest) @ rs)
        (map (\<lambda>b. block_told (cut (D (EPath e)) b)) (b # rest) @ as) out (conn w)"
  note ok = listed_block [OF assms(1,2) b assms(3)]
  from talks_waiting [OF talks_client_block [OF w ok] j [unfolded list.map append_Cons]]
  show "\<exists>c. client_ReadBlock folder (EPath e) (EHash e) b w = (Inr (cut (D (EPath e)) b), w\<lparr>conn := c\<rparr>)
     \<and> waiting (map (\<lambda>b. told (block_message folder (EPath e) (EHash e) b)) rest @ rs)
         (map (\<lambda>b. block_told (cut (D (EPath e)) b)) rest @ as) out c"
    by simp
  qed
qed

end
