(* ===== verification/Replica.thy ===== *)
theory Replica
  imports Listing
begin

text \<open>
  A replica that receives a tree entry by entry: what is here, what is still expected, and that every
  entry of the listing takes its step.
\<close>

section \<open>The state of a replica\<close>

text \<open>An entry that is here, and one for which there is room.\<close>

definition arrived :: "(string \<Rightarrow> bytes) \<Rightarrow> nat \<Rightarrow> string \<Rightarrow> world \<Rightarrow> Entry \<Rightarrow> bool" where
  "arrived D r folder w e \<longleftrightarrow>
     (if EKind e = ''directory'' then is_dir_at (trees (wfs w) r) (components (EPath e))
      else content (wfs w) r (components (EPath e)) = Some (D (EPath e)) \<and> installed r e (wfs w))
     \<and> select_manifest (wdb w) folder (EPath e) = Some (json_Marshal e)"

definition expected :: "nat \<Rightarrow> string \<Rightarrow> world \<Rightarrow> Entry \<Rightarrow> bool" where
  "expected r folder w e \<longleftrightarrow> lookup_node (trees (wfs w) r) (components (EPath e)) = Inl NotExist
     \<and> (\<forall>n. lookup_node (trees (wfs w) r) (components (temp_name (EPath e) n)) = Inl NotExist)
     \<and> select_manifest (wdb w) folder (EPath e) = None"

definition folder_there :: "config_Folder \<Rightarrow> nat \<Rightarrow> fsys \<Rightarrow> bool" where
  "folder_there f r s \<longleftrightarrow> mounts s (FPath f) = Some r \<and> is_dir_at (trees s r) []
     \<and> content s r [markerName] = Some (FID f @ [CHR 0x0A])"

definition room_for :: "string \<Rightarrow> Entry list \<Rightarrow> database \<Rightarrow> bool" where
  "room_for folder es db \<longleftrightarrow> (case usage_of db folder of (n, b) \<Rightarrow>
     n + int (length es) \<le> MaxEntries \<and> b + listing_bytes es \<le> MaxManifestBytes - 2)"

definition syncing :: "(string \<Rightarrow> bytes) \<Rightarrow> config_Folder \<Rightarrow> nat \<Rightarrow> Entry list \<Rightarrow> Entry list \<Rightarrow> world \<Rightarrow> bool" where
  "syncing D f r xs ys w \<longleftrightarrow> quiet w \<and> fs_wf (wfs w) \<and> db_inv (wdb w) \<and> folder_there f r (wfs w)
     \<and> (\<forall>e \<in> set xs. arrived D r (FID f) w e) \<and> (\<forall>e \<in> set ys. expected r (FID f) w e)
     \<and> length ys \<le> length (nonces w) \<and> room_for (FID f) ys (wdb w)"

section \<open>The budget\<close>

lemma upsert_row_usage:
  assumes "db_inv db" "select_manifest db f p = None" "upsert_row f p m db = Inr db'"
  shows "usage_of db' f = (case usage_of db f of (n, b) \<Rightarrow> (n + 1, b + int (length m) + 1))"
proof -
  have "insert_row f p m db = Inr db'" using assms(2,3) by (simp add: upsert_row_def)
  with insert_row_eq [OF assms(1,2), of m]
  have "usage_of db' f = usage_of (db\<lparr>entries_tbl := ((f, p), m) # entries_tbl db\<rparr>) f"
    by (auto simp: set_usage_def usage_of_def folder_rows_def split: if_splits)
  then show ?thesis by (simp add: usage_of_def folder_rows_Cons rows_bytes_def row_bytes_def)
qed

lemma room_for_first:
  assumes "db_inv db" "select_manifest db f (EPath e) = None" "room_for f (e # es) db"
  shows "usage_check (capacity_after db f (EPath e) (json_Marshal e))"
proof -
  have "0 \<le> listing_bytes es" by (induction es) (simp_all add: listing_bytes_def)
  with assms(3) usage_of_check [OF assms(1), of f] usage_default [OF assms(1), of f] assms(2)
  show ?thesis by (auto simp: room_for_def usage_check_def capacity_after_def listing_bytes_def split: prod.splits)
qed

lemma room_for_rest:
  assumes "db_inv db" "select_manifest db f (EPath e) = None" "room_for f (e # es) db"
    "upsert_row f (EPath e) (json_Marshal e) db = Inr db'"
  shows "room_for f es db'"
  using assms(3) upsert_row_usage [OF assms(1,2,4)] by (auto simp: room_for_def listing_bytes_def split: prod.splits)

section \<open>One entry\<close>

lemma kept_installed:
  assumes "kept X r s s'" "fs_wf s" "\<not> X (components (EPath e))" "installed r e s"
  shows "installed r e s'"
proof -
  from assms(4) obtain i where i: "file_ino (trees s r) (components (EPath e)) = Some i"
    "imode (inodes s i) = EMode e" "entry_of (EPath e) (EMode e) (idata (inodes s i)) = e"
    by (auto simp: installed_def)
  have "i < next_inode s" using file_ino_bound [OF assms(2) i(1)] .
  then have "inodes s' i = inodes s i" using assms(1) by (simp add: kept_def)
  moreover have "file_ino (trees s' r) (components (EPath e)) = Some i"
    using shape_file_ino [of "trees s' r" "components (EPath e)" "trees s r"] assms(1,3) i(1) by (simp add: kept_def)
  ultimately show ?thesis using i by (auto simp: installed_def)
qed

lemma kept_arrived:
  assumes "kept X r (wfs w) (wfs w')" "fs_wf (wfs w)" "\<not> X (components (EPath e))" "arrived D r folder w e"
    "select_manifest (wdb w') folder (EPath e) = select_manifest (wdb w) folder (EPath e)"
  shows "arrived D r folder w' e"
  using assms kept_dir [OF assms(1,3)] kept_content [OF assms(1-3)] kept_installed [OF assms(1-3)]
  by (auto simp: arrived_def)

lemma kept_expected:
  assumes "kept X r (wfs w) (wfs w')" "\<not> X (components (EPath e))" "\<And>n. \<not> X (components (temp_name (EPath e) n))"
    "expected r folder w e" "select_manifest (wdb w') folder (EPath e) = select_manifest (wdb w) folder (EPath e)"
  shows "expected r folder w' e"
  using assms kept_free [OF assms(1)] by (auto simp: expected_def)

lemma kept_folder_there:
  assumes "kept X r s s'" "fs_wf s" "\<not> X []" "\<not> X [markerName]" "folder_there f r s"
  shows "folder_there f r s'"
  using assms(5) kept_dir [OF assms(1,3)] kept_content [OF assms(1,2,4)] assms(1) by (auto simp: folder_there_def kept_def)

text \<open>Paths that are not those of an entry.\<close>

lemma entry_paths:
  assumes "validPath name = Inr ()"
  shows "\<not> below (components name) []" "\<not> below (components name) [markerName]"
    "components name \<noteq> []" "components name \<noteq> [markerName]"
proof -
  have ne: "components name \<noteq> []" by (rule components_nonempty [OF assms])
  have m: "markerName \<notin> set (components name)" using validPath_parts(5) [OF assms] by (auto simp: components_valid [OF assms])
  show "\<not> below (components name) []" "components name \<noteq> []" using ne by (simp_all add: below_def)
  show "components name \<noteq> [markerName]" using m by auto
  show "\<not> below (components name) [markerName]"
  proof
    assume "below (components name) [markerName]"
    then obtain z where "[markerName] = components name @ z" by (auto simp: below_iff)
    with ne have "components name = [markerName]" by (cases "components name") auto
    with m show False by simp
  qed
qed

lemma syncing_lacking:
  assumes t: "tree_listing D (xs @ e # ys)" and so: "sorted (map EPath (xs @ e # ys))"
    and s: "syncing D f r xs (e # ys) w" and l: "length (FID f) \<le> 256"
  shows "lacking (FPath f) (FID f) r (components (EPath e)) (wfs w)"
proof -
  have v: "validPath (EPath e) = Inr ()" using t ValidateEntry_kinds(2) by (simp add: tree_listing_def)
  have "is_dir_at (trees (wfs w) r) (butlast (components (EPath e)))"
  proof (cases "path_Dir (EPath e) = ''.''")
    case True
    then have "butlast (components (EPath e)) = []" using components_path_Dir [OF v] by (simp add: components_def)
    then show ?thesis using s by (simp add: syncing_def folder_there_def)
  next
    case False
    with t obtain d where d: "d \<in> set (xs @ e # ys)" "EKind d = ''directory''" "EPath d = path_Dir (EPath e)"
      by (auto simp: tree_listing_def)
    have "EPath d < EPath e" using path_Dir_less [OF False] d(3) by simp
    then have "d \<in> set xs" using d(1) so by (auto simp: sorted_append)
    then have "arrived D r (FID f) w d" using s by (simp add: syncing_def)
    then show ?thesis using d components_path_Dir [OF v] by (simp add: arrived_def)
  qed
  then show ?thesis using s l by (simp add: lacking_def syncing_def folder_there_def expected_def)
qed

section \<open>The steps\<close>

lemma listed_apart:
  assumes "tree_listing D (xs @ e # ys)" "d \<in> set xs \<union> set ys"
  shows "EPath d \<noteq> EPath e" "e \<noteq> d" "d \<in> set (xs @ e # ys)"
proof -
  have "distinct (map EPath (xs @ e # ys))" using assms(1) by (simp add: tree_listing_def)
  then have "EPath e \<notin> EPath ` (set xs \<union> set ys)" by (simp add: image_Un)
  then show "EPath d \<noteq> EPath e" using assms(2) by (metis imageI)
  then show "e \<noteq> d" by auto
  show "d \<in> set (xs @ e # ys)" using assms(2) by auto
qed

lemma temp_not_valid:
  assumes "validPath name = Inr ()" "validPath other = Inr ()"
  shows "components (temp_name name n) \<noteq> components other"
  using scratch_below [of 0 name n 0 "components other"] scratch_valid [OF assms(2), of 0] assms(1)
  by (auto simp: at_or_below_def)

lemma syncing_next:
  assumes t: "tree_listing D (xs @ e # ys)" and s: "syncing D f r xs (e # ys) w"
    and ap: "Apply (FID f) (FPath f) e (Some (client_ReadBlock folder name h)) w = (Inr (), w')"
    and ad: "adds r (FID f) e ns J w w'" "length ys \<le> length ns"
    and k: "kept X r (wfs w) (wfs w')" "\<not> X []" "\<not> X [markerName]"
    and apart: "\<And>d. d \<in> set xs \<union> set ys \<Longrightarrow> \<not> X (components (EPath d)) \<and> (\<forall>n. \<not> X (components (temp_name (EPath d) n)))"
    and here: "if EKind e = ''directory'' then is_dir_at (trees (wfs w') r) (components (EPath e))
        else content (wfs w') r (components (EPath e)) = Some (D (EPath e))"
  shows "syncing D f r (xs @ [e]) ys w'"
proof -
  have w: "quiet w" "calm w" "fs_wf (wfs w)" "db_inv (wdb w)" "folder_there f r (wfs w)" "mounts (wfs w) (FPath f) = Some r"
    "room_for (FID f) (e # ys) (wdb w)" "select_manifest (wdb w) (FID f) (EPath e) = None"
    using s quiet_calm by (simp_all add: syncing_def folder_there_def expected_def)
  have up: "upsert_row (FID f) (EPath e) (json_Marshal e) (wdb w) = Inr (wdb w')" using ad(1) by (simp add: adds_def)
  note sel = select_upsert_row [OF up]
  have other: "select_manifest (wdb w') (FID f) (EPath d) = select_manifest (wdb w) (FID f) (EPath d)" if "d \<in> set xs \<union> set ys" for d
    using listed_apart(1) [OF t that] by (simp add: sel)
  have "installed r e (wfs w')" if "EKind e \<noteq> ''directory''"
    using Apply_outcome(2) [OF client_fetch_steady w(2,3,6) ap refl that] .
  then have "arrived D r (FID f) w' e" using here by (simp add: arrived_def sel)
  moreover have "arrived D r (FID f) w' d" if "d \<in> set xs" for d
    using kept_arrived [OF k(1) w(3), of d D "FID f"] apart [of d] other [of d] that s by (auto simp: syncing_def)
  moreover have "expected r (FID f) w' d" if "d \<in> set ys" for d
    using kept_expected [OF k(1), of d "FID f"] apart [of d] other [of d] that s by (auto simp: syncing_def)
  moreover have "fs_wf (wfs w')" using Apply_calm_step [OF client_fetch_steady w(2,3) ap] by simp
  ultimately show ?thesis
    using ad upsert_row_inv [OF w(4) up] room_for_rest [OF w(4,8,7) up] kept_folder_there [OF k(1) w(3) k(2,3) w(5)]
    by (auto simp: syncing_def adds_def)
qed

lemma sync_step:
  assumes t: "tree_listing D (xs @ e # ys)" and so: "sorted (map EPath (xs @ e # ys))"
    and s: "syncing D f r xs (e # ys) w" and fo: "folder_name_ok (FID f)"
    and c: "waiting (entry_requests (FID f) e @ rs) (entry_answers D e @ as) out (conn w)"
  shows "\<exists>w'. Apply (FID f) (FPath f) e (Some (client_ReadBlock (FID f) (EPath e) (EHash e))) w = (Inr (), w')
     \<and> syncing D f r (xs @ [e]) ys w' \<and> waiting rs as out (conn w')"
proof -
  let ?p = "components (EPath e)" and ?es = "xs @ e # ys"
  have e: "e \<in> set ?es" "ValidateEntry e = Inr ()" using t by (auto simp: tree_listing_def)
  note v = ValidateEntry_kinds [OF e(2)]
  have l: "length (FID f) \<le> 256" using fo by (simp add: folder_name_ok_def)
  note lk = syncing_lacking [OF t so s l]
  have w: "quiet w" "fs_wf (wfs w)" "db_inv (wdb w)" "select_manifest (wdb w) (FID f) (EPath e) = None"
    "room_for (FID f) (e # ys) (wdb w)" "\<And>n. lookup_node (trees (wfs w) r) (components (temp_name (EPath e) n)) = Inl NotExist"
    using s by (simp_all add: syncing_def expected_def)
  note room = room_for_first [OF w(3,4,5)]
  note others = listed_apart [OF t]
  note paths = entry_paths [OF v(2)]
  show ?thesis
  proof (cases "EKind e = ''directory''")
    case True
    then have d: "e = dir_entry (EPath e) (EMode e)" using v(1) by auto
    have wt: "waiting rs as out (conn w)" using c arg_cong [OF d, of EBlocks] by (simp add: entry_requests_def entry_answers_def dir_entry_def)
    from Apply_adds_dir [OF w(1,3) lk v(2) parent_ok_listed [OF t e(1)] v(3) w(4), folded d, OF room]
    obtain w' where w': "Apply (FID f) (FPath f) e (Some (client_ReadBlock (FID f) (EPath e) (EHash e))) w = (Inr (), w')"
      "adds r (FID f) e (nonces w) (\<lambda>c. c = conn w) w w'" "kept (\<lambda>q. q = ?p) r (wfs w) (wfs w')"
      "is_dir_at (trees (wfs w') r) ?p" by blast
    have "syncing D f r (xs @ [e]) ys w'"
    proof (rule syncing_next [OF t s w'(1,2) _ w'(3)])
      show "length ys \<le> length (nonces w)" using s by (simp add: syncing_def)
      fix d assume "d \<in> set xs \<union> set ys"
      note d = others [OF this]
      then have "validPath (EPath d) = Inr ()" using t ValidateEntry_kinds(2) by (auto simp: tree_listing_def)
      from temp_not_valid [OF this v(2)] listed_path_inject [OF t d(3) e(1)] d(2)
      show "components (EPath d) \<noteq> ?p \<and> (\<forall>n. components (temp_name (EPath d) n) \<noteq> ?p)" by auto
    qed (use paths w'(4) True in auto)
    with w' wt show ?thesis by (auto simp: adds_def)
  next
    case False
    then have k: "EKind e = ''file''" using v(1) by auto
    note fb = file_blocks [OF t e(1) k]
    obtain n ns where n: "nonces w = n # ns" "length ys \<le> length ns"
      using s by (cases "nonces w") (auto simp: syncing_def)
    let ?J = "\<lambda>bs. waiting (map (\<lambda>b. told (block_message (FID f) (EPath e) (EHash e) b)) bs @ rs)
      (map (\<lambda>b. block_told (cut (D (EPath e)) b)) bs @ as) out"
    have sv: "serves_on ?J (Some (client_ReadBlock (FID f) (EPath e) (EHash e))) (blocks_from 0 (D (EPath e))) (cut (D (EPath e)))"
      using client_serves [OF t e(1) fo, of rs as out] by (simp only: fb(1))
    have j: "?J (blocks_from 0 (D (EPath e)) @ []) (conn w)"
      using c by (simp add: entry_requests_def entry_answers_def fb(1))
    from Apply_adds_file [where J = ?J, OF w(1-3) lk v(2) parent_ok_listed [OF t e(1)] v(3) fb(2) sv j w(4), folded fb(3), OF room n(1) w(6)]
    obtain w' where w': "Apply (FID f) (FPath f) e (Some (client_ReadBlock (FID f) (EPath e) (EHash e))) w = (Inr (), w')"
      "adds r (FID f) e ns (?J []) w w'" "content (wfs w') r ?p = Some (D (EPath e))" by blast
    have "syncing D f r (xs @ [e]) ys w'"
    proof (rule syncing_next [OF t s w'(1,2) n(2)])
      show "kept (below ?p) r (wfs w) (wfs w')" using w'(2) by (simp add: adds_def)
      fix d assume "d \<in> set xs \<union> set ys"
      from others(2,3) [OF this] show "\<not> below ?p (components (EPath d)) \<and> (\<forall>n. \<not> below ?p (components (temp_name (EPath d) n)))"
        using not_below_file [OF t e(1) _ k] by blast
    qed (use paths w'(3) k in auto)
    with w' show ?thesis by (auto simp: adds_def)
  qed
qed

lemma sync_entries:
  assumes "tree_listing D (xs @ ys)" "sorted (map EPath (xs @ ys))" "syncing D f r xs ys w" "folder_name_ok (FID f)"
    "waiting (tree_requests (FID f) ys @ rs) (tree_answers D ys @ as) out (conn w)"
  shows "\<exists>x w'. apply_entries f ys acc w = (Inr (x, None), w') \<and> syncing D f r (xs @ ys) [] w' \<and> waiting rs as out (conn w')"
  using assms
proof (induction ys arbitrary: xs w acc)
  case Nil
  then show ?case by (simp add: tree_requests_def tree_answers_def)
next
  case (Cons e ys)
  from sync_step [OF Cons.prems(1-4), of "tree_requests (FID f) ys @ rs" "tree_answers D ys @ as" out] Cons.prems(5)
  obtain w1 where w1: "Apply (FID f) (FPath f) e (Some (client_ReadBlock (FID f) (EPath e) (EHash e))) w = (Inr (), w1)"
    "syncing D f r (xs @ [e]) ys w1" "waiting (tree_requests (FID f) ys @ rs) (tree_answers D ys @ as) out (conn w1)"
    by (auto simp: tree_requests_def tree_answers_def)
  from Cons.IH [of "xs @ [e]" w1 "add_stats acc (stats w1)"] w1(2,3) Cons.prems(1,2,4)
  obtain x w' where "apply_entries f ys (add_stats acc (stats w1)) w1 = (Inr (x, None), w')" "syncing D f r (xs @ e # ys) [] w'"
    "waiting rs as out (conn w')" by auto
  with w1(1) show ?case by (auto simp: run_bind run_attempt)
qed

end
