(* ===== verification/Source.thy ===== *)
theory Source
  imports Replica
begin

text \<open>
  The side of a replication that serves: when the index of a folder holds a listing of its tree and the
  files hold the bytes it describes, \<open>Daemon.List\<close> answers with that listing and \<open>Daemon.ReadBlock\<close> with
  those bytes.
\<close>

section \<open>The source\<close>

lemma CheckFolder_there:
  assumes "quiet w" "folder_there f r (wfs w)" "length (FID f) \<le> 256"
  shows "CheckFolder (FPath f) (FID f) w = (Inr (), w)" "openFolder (FPath f) (FID f) w = (Inr r, w)"
proof -
  obtain m es where t: "trees (wfs w) r = Dir m es" using dir_lookup [of "trees (wfs w) r" "[]"] assms(2) by (auto simp: folder_there_def)
  have "checkMarker r (FID f) w = (Inr (), w)" using checkMarker_quiet [OF assms(1) _ assms(3)] assms(2) by (simp add: folder_there_def)
  then show "CheckFolder (FPath f) (FID f) w = (Inr (), w)" "openFolder (FPath f) (FID f) w = (Inr r, w)"
    using assms t by (simp_all add: CheckFolder_def openFolder_def run_simps sys_quiet fs_open_root_def folder_there_def)
qed

text \<open>The index of a shared folder holds the listing, and the files hold the bytes.\<close>

definition source_ok :: "(string \<Rightarrow> bytes) \<Rightarrow> Config \<Rightarrow> Status \<Rightarrow> string \<Rightarrow> config_Folder \<Rightarrow> nat \<Rightarrow> Entry list \<Rightarrow> world \<Rightarrow> bool" where
  "source_ok D c st peerID f r es w \<longleftrightarrow> quiet w \<and> index_ok (wdb w) \<and> folder_there f r (wfs w)
     \<and> shares c peerID (FID f) \<and> folder_named c (FID f) = f \<and> scan_available c st (FID f)
     \<and> (\<forall>e. e \<in> set es \<longleftrightarrow> valid_entry e \<and> select_manifest (wdb w) (FID f) (EPath e) = Some (json_Marshal e))
     \<and> (\<forall>e \<in> set es. EKind e = ''file'' \<longrightarrow> content (wfs w) r (components (EPath e)) = Some (D (EPath e)))"

lemma source_ok_conn [simp]: "source_ok D c st peerID f r es (w\<lparr>conn := x\<rparr>) = source_ok D c st peerID f r es w"
  by (simp add: source_ok_def)

lemma source_authorize:
  assumes "source_ok D c st peerID f r es w" "length (FID f) \<le> 256"
  shows "authorize c st peerID (FID f) w = (Inr f, w)"
  using assms CheckFolder_there(1) [of w f r] by (auto simp: authorize_Inr source_ok_def)

lemma source_List:
  assumes "source_ok D c st peerID f r es w" "length (FID f) \<le> 256"
  shows "\<exists>ls. Daemon_List c st peerID (FID f) w = (Inr ls, w) \<and> set ls = set es \<and> distinct (map EPath ls) \<and> sorted (map EPath ls)"
proof -
  have w: "quiet w" "index_ok (wdb w)" using assms(1) by (simp_all add: source_ok_def)
  obtain ls where ls: "list_rows (select_folder (wdb w) (FID f)) [] 2 = Inr ls" "sorted (map EPath ls)" "distinct (map EPath ls)"
    "\<And>e. e \<in> set ls \<longleftrightarrow> valid_entry e \<and> select_manifest (wdb w) (FID f) (EPath e) = Some (json_Marshal e)"
    by (rule listing_exact [OF w(2), of "FID f"]) (rule that)
  have "Store_List (FID f) w = (Inr ls, w)" using ls(1) w(1) by (simp add: Store_List_def run_simps sql_query_quiet)
  then have "Daemon_List c st peerID (FID f) w = (Inr ls, w)"
    using source_authorize [OF assms] by (simp add: Daemon_List_def run_bind)
  moreover have "set ls = set es" using ls(4) assms(1) by (auto simp: source_ok_def)
  ultimately show ?thesis using ls(2,3) by blast
qed

lemma check_parts_file:
  "quiet w \<Longrightarrow> ps \<noteq> [] \<Longrightarrow> lookup_node (trees (wfs w) r) (pre @ ps) = Inr (File i) \<Longrightarrow>
     check_parts r name miss pre ps w = (Inr (), w)"
proof (induction ps arbitrary: pre)
  case (Cons p ps)
  show ?case
  proof (cases "ps = []")
    case True
    with Cons.prems show ?thesis
      by (simp add: run_simps sys_quiet fs_lstat_def node_info_def ino_info_def)
  next
    case False
    then obtain a q where q: "ps = a # q" by (cases ps) auto
    have "is_dir_at (trees (wfs w) r) (pre @ [p])"
      using lookup_node_parent_dir [of "trees (wfs w) r" "pre @ [p]" a q] Cons.prems(3) q by simp
    then obtain m es where "lookup_node (trees (wfs w) r) (pre @ [p]) = Inr (Dir m es)" using dir_lookup by blast
    with Cons.IH [of "pre @ [p]"] Cons.prems False show ?thesis
      by (simp add: run_simps sys_quiet fs_lstat_def node_info_def plain_info_def)
  qed
qed simp

lemma blocks_from_nth:
  assumes "b \<in> set (blocks_from off data)" "off mod BlockSize = 0" "0 \<le> off"
  shows "BOffset b mod BlockSize = 0 \<and> off \<le> BOffset b \<and> BOffset b + BSize b \<le> off + int (length data)
     \<and> (BOffset b - off) div BlockSize < int (length (blocks_from off data))
     \<and> blocks_from off data ! nat ((BOffset b - off) div BlockSize) = b"
  using assms
proof (induction off data rule: blocks_from_pieces_ind)
  case (2 off p rest)
  let ?b = "\<lparr>BOffset = off, BSize = int (length p), BHash = hashBytes p\<rparr>"
  have bs: "blocks_from off (p @ rest) = ?b # blocks_from (off + int (length p)) rest" by (rule blocks_from_piece) (use 2 in auto)
  show ?case
  proof (cases "b = ?b")
    case True
    with 2(6) show ?thesis by (simp add: bs)
  next
    case False
    then have b: "b \<in> set (blocks_from (off + int (length p)) rest)" using 2(5) bs by simp
    then have "rest \<noteq> []" by auto
    then have p: "int (length p) = BlockSize" using 2(3) by simp
    have z: "(off + BlockSize) mod BlockSize = 0" using 2(6) by simp
    have IH: "BOffset b mod BlockSize = 0" "off + BlockSize \<le> BOffset b" "BOffset b + BSize b \<le> off + BlockSize + int (length rest)"
      "(BOffset b - (off + BlockSize)) div BlockSize < int (length (blocks_from (off + BlockSize) rest))"
      "blocks_from (off + BlockSize) rest ! nat ((BOffset b - (off + BlockSize)) div BlockSize) = b"
      using 2(4) b z 2(7) p by (simp_all add: BlockSize_def)
    have d: "(BOffset b - off) div BlockSize = (BOffset b - (off + BlockSize)) div BlockSize + 1"
      using div_add_self2 [of BlockSize "BOffset b - (off + BlockSize)"] by (simp add: BlockSize_def)
    have "0 \<le> (BOffset b - (off + BlockSize)) div BlockSize" using IH(2) by (simp add: BlockSize_def pos_imp_zdiv_nonneg_iff)
    then show ?thesis using IH p by (simp add: bs d nat_add_distrib)
  qed
qed simp

lemma source_ReadBlock:
  assumes t: "tree_listing D es" and s: "source_ok D c st peerID f r es w" and l: "length (FID f) \<le> 256"
    and e: "e \<in> set es" "b \<in> set (EBlocks e)"
  shows "Daemon_ReadBlock c st peerID (FID f) (EPath e) (EHash e) b w = (Inr (cut (D (EPath e)) b), w)"
proof -
  let ?c = "D (EPath e)"
  have q: "quiet w" and v: "ValidateEntry e = Inr ()" "select_manifest (wdb w) (FID f) (EPath e) = Some (json_Marshal e)"
    using s e(1) by (auto simp: source_ok_def valid_entry_def)
  have k: "EKind e = ''file''" using ValidateEntry_kinds(1) [OF v(1)] e(2) by (metis dir_entry_def Entry.select_convs(6) empty_iff list.set(1))
  note fb = file_blocks [OF t e(1) k]
  have p: "validPath (EPath e) = Inr ()" by (rule ValidateEntry_kinds [OF v(1)])
  have "content (wfs w) r (components (EPath e)) = Some ?c" using s e(1) k by (simp add: source_ok_def)
  then obtain i where i: "lookup_node (trees (wfs w) r) (components (EPath e)) = Inr (File i)" "idata (inodes (wfs w) i) = ?c"
    using content_lookup by blast
  have size: "ESize e = int (length ?c)" using arg_cong [OF fb(3), of ESize] by (simp add: entry_of_def)
  have b: "0 \<le> BOffset b" "BOffset b mod BlockSize = 0" "BOffset b + BSize b \<le> int (length ?c)"
    "BOffset b div BlockSize < int (length (EBlocks e))" "EBlocks e ! nat (BOffset b div BlockSize) = b" "0 < BSize b"
    using blocks_from_nth [of b 0 ?c] blocks_from_sizes [of b 0 ?c] e(2) fb(1) by simp_all
  have piece: "hashBytes (cut ?c b) = BHash b"
    using cut_blocks_from [of ?c "[]" ?c 0] e(2) fb(1) by (simp add: piece_ok_def)
  have get: "store_get (FID f) (EPath e) w = (Inr e, w)"
    using v q manifest.dec_enc [of e] by (simp add: store_get_def run_simps sql_query_quiet valid_entry_def)
  have cc: "checkComponents r (EPath e) False w = (Inr (), w)"
    using check_parts_file [OF q components_nonempty [OF p], of r "[]" i] i(1) p by (simp add: checkComponents_def run_simps components_valid)
  have op: "openFolder (FPath f) (FID f) w = (Inr r, w)" using CheckFolder_there(2) [OF q _ l] s by (simp add: source_ok_def)
  have "Store_ReadBlock (FID f) (FPath f) (EPath e) (EHash e) b w = (Inr (cut ?c b), w)"
    unfolding Store_ReadBlock_def
    using q p get v(1) k b op cc i size piece
    by (simp add: run_bind run_lift_sum run_fail_if ctx_Err_quiet sys_quiet fs_open_def fs_fstat_def handle_info_def ino_info_def fs_read_at_def cut_def)
  then show ?thesis using source_authorize [OF s l] by (simp add: Daemon_ReadBlock_def run_bind)
qed

end
