(* ===== verification/Convergence.thy ===== *)
theory Convergence
  imports Source
begin

text \<open>
  Both sides of a replication together: the requests a fresh replica sends, the answers of a source to
  them, and, after the scan of a local folder, the files of that folder on the disk of the replica.
\<close>

section \<open>A session of the server\<close>

text \<open>Requests that the server answers, and what it answers.\<close>

definition answers_to :: "Backend \<Rightarrow> string \<Rightarrow> world \<Rightarrow> bytes \<Rightarrow> bytes \<Rightarrow> bool" where
  "answers_to backend peer w rq an \<longleftrightarrow> (\<exists>m. control_ok m \<and> rq = told m \<and> talks w (handleRequest backend peer m) () [] an flushed)"

lemma serve_session:
  assumes "quiet w" "list_all2 (answers_to backend peer w) rqs ans" "\<not> shut c" "rx c = concat rqs" "flushed c" "length rqs < n"
  shows "\<exists>err c'. serve_requests n backend peer (w\<lparr>conn := c\<rparr>) = (Inl err, w\<lparr>conn := c'\<rparr>) \<and> tx c' = tx c @ concat ans"
  using assms(2-)
proof (induction n arbitrary: rqs ans c)
  case (Suc n)
  have dl: "Conn_SetDeadline (w\<lparr>conn := x\<rparr>) = (Inr (), w\<lparr>conn := x\<rparr>)" if "\<not> shut x" for x
    using assms(1) that by (simp add: net_quiet)
  show ?case
  proof (cases rqs)
    case Nil
    then have "ans = []" "rx c = []" using Suc.prems by simp_all
    then have "wire_read (w\<lparr>conn := c\<rparr>) = (Inl (IOError ''unexpected EOF''), w\<lparr>conn := c\<lparr>rx := []\<rparr>\<rparr>)"
      using assms(1) Suc.prems(2) by (simp add: wire_read_def readFrame_def run_bind net_quiet wire_take_def)
    with dl [OF Suc.prems(2)] \<open>ans = []\<close> show ?thesis by (simp add: run_bind)
  next
    case (Cons rq rqs')
    then obtain an ans' where a: "ans = an # ans'" "answers_to backend peer w rq an" "list_all2 (answers_to backend peer w) rqs' ans'"
      using Suc.prems(1) by (cases ans) auto
    from a(2) obtain m where m: "control_ok m" "rq = told m" "talks w (handleRequest backend peer m) () [] an flushed"
      by (auto simp: answers_to_def)
    have rx: "rx c = told m @ concat rqs'" using Suc.prems(3) Cons m(2) by simp
    from talksE [OF talks_wire_read [OF assms(1) m(1)] Suc.prems(2) rx] obtain c1 where c1:
      "wire_read (w\<lparr>conn := c\<rparr>) = (Inr (m, int (length (marshal_message m))), w\<lparr>conn := c1\<rparr>)" "rx c1 = concat rqs'"
      "tx c1 @ wbuf c1 = tx c @ wbuf c @ []" "\<not> shut c1" .
    from talksE [OF m(3) c1(4), of "concat rqs'"] c1(2) obtain c2 where c2:
      "handleRequest backend peer m (w\<lparr>conn := c1\<rparr>) = (Inr (), w\<lparr>conn := c2\<rparr>)" "rx c2 = concat rqs'"
      "tx c2 @ wbuf c2 = tx c1 @ wbuf c1 @ an" "\<not> shut c2" "flushed c2" by auto
    have tx: "tx c2 = tx c @ an" using c1(3) c2(3,5) Suc.prems(4) by (metis append.assoc append_Nil2)
    from Suc.IH [OF a(3) c2(4,2,5)] Suc.prems(5) Cons obtain err c3 where
      "serve_requests n backend peer (w\<lparr>conn := c2\<rparr>) = (Inl err, w\<lparr>conn := c3\<rparr>)" "tx c3 = tx c2 @ concat ans'" by auto
    with dl [OF Suc.prems(2)] dl [OF c1(4)] c1(1) c2(1) tx a(1) show ?thesis by (simp add: run_bind)
  qed
qed simp

lemma told_length: "rq = told m \<Longrightarrow> 1 \<le> length rq"
  by (simp add: framed_def length_frame_header)

lemma answers_length: "list_all2 (answers_to backend peer w) rqs ans \<Longrightarrow> length rqs \<le> length (concat rqs)"
proof (induction rqs ans rule: list_all2_induct)
  case (Cons rq rqs an ans)
  then show ?case using told_length by (fastforce simp: answers_to_def)
qed simp

text \<open>The source answers what a replica of the tree asks.\<close>

definition sync_requests :: "string \<Rightarrow> Entry list \<Rightarrow> bytes list" where
  "sync_requests folder es = told (list_message folder) # tree_requests folder es"

definition sync_answers :: "(string \<Rightarrow> bytes) \<Rightarrow> Entry list \<Rightarrow> bytes list" where
  "sync_answers D es = (entries_told es @ told end_message) # tree_answers D es"

lemma list_all2_concat_map: "(\<And>e. e \<in> set es \<Longrightarrow> list_all2 P (f e) (g e)) \<Longrightarrow> list_all2 P (concat (map f es)) (concat (map g es))"
  by (induction es) (auto intro: list_all2_appendI)

lemma source_answers:
  assumes t: "tree_listing D es" and s: "source_ok D c st peer f r es w" and fo: "folder_name_ok (FID f)"
    and es: "\<And>x. Daemon_List c st peer (FID f) (w\<lparr>conn := x\<rparr>) = (Inr es, w\<lparr>conn := x\<rparr>)"
    and budget: "int (length es) \<le> maxEntries" "listing_cost es \<le> maxIndexBytes"
  shows "list_all2 (answers_to (daemon_backend c st) peer w) (sync_requests (FID f) es) (sync_answers D es)"
proof -
  have q: "quiet w" using s by (simp add: source_ok_def)
  have f: "valid_utf8 (FID f)" "FID f \<noteq> []" "length (FID f) \<le> 256" using fo by (simp_all add: folder_name_ok_def)
  have "answers_to (daemon_backend c st) peer w (told (list_message (FID f))) (entries_told es @ told end_message)"
    unfolding answers_to_def
    by (intro exI [of _ "list_message (FID f)"] conjI control_ok_list f refl talks_handle_list q budget)
       (use t es in \<open>simp_all add: tree_listing_def daemon_backend_def\<close>)
  moreover have "answers_to (daemon_backend c st) peer w (told (block_message (FID f) (EPath e) (EHash e) b)) (block_told (cut (D (EPath e)) b))"
    if "e \<in> set es" "b \<in> set (EBlocks e)" for e b
  proof -
    note ok = listed_block [OF t that fo]
    have "backend_ReadBlock (daemon_backend c st) peer (FID f) (EPath e) (EHash e) b (w\<lparr>conn := x\<rparr>) = (Inr (cut (D (EPath e)) b), w\<lparr>conn := x\<rparr>)" for x
      using source_ReadBlock [OF t _ f(3) that, of c st peer r "w\<lparr>conn := x\<rparr>"] s by (simp add: daemon_backend_def)
    from talks_handle_block [OF q ok this] control_ok_block [OF ok(1)] show ?thesis unfolding answers_to_def by blast
  qed
  then have "list_all2 (answers_to (daemon_backend c st) peer w) (tree_requests (FID f) es) (tree_answers D es)"
    unfolding tree_requests_def tree_answers_def entry_requests_def entry_answers_def
    by (intro list_all2_concat_map) (simp add: list_all2_map1 list_all2_map2 list.rel_refl_strong)
  ultimately show ?thesis by (simp add: sync_requests_def sync_answers_def)
qed

section \<open>A replica that is still empty\<close>

definition fresh_replica :: "config_Folder \<Rightarrow> nat \<Rightarrow> world \<Rightarrow> bool" where
  "fresh_replica f r w \<longleftrightarrow> quiet w \<and> fs_wf (wfs w) \<and> db_inv (wdb w) \<and> mounts (wfs w) (FPath f) = Some r
     \<and> (\<exists>m i. trees (wfs w) r = Dir m [(markerName, File i)] \<and> idata (inodes (wfs w) i) = FID f @ [CHR 0x0A])
     \<and> (\<forall>p. select_manifest (wdb w) (FID f) p = None)"

lemma no_rows: "\<forall>p. select_manifest db f p = None \<Longrightarrow> folder_rows db f = []"
  by (force simp: select_manifest_def folder_rows_def map_of_eq_None_iff filter_empty_conv)

lemma fresh_syncing:
  assumes "fresh_replica f r w" "\<forall>e \<in> set es. validPath (EPath e) = Inr ()" "length es \<le> length (nonces w)"
    "int (length es) \<le> MaxEntries" "listing_bytes es \<le> MaxManifestBytes - 2"
  shows "syncing D f r [] es w"
proof -
  from assms(1) obtain m i where t: "trees (wfs w) r = Dir m [(markerName, File i)]" "idata (inodes (wfs w) i) = FID f @ [CHR 0x0A]"
    by (auto simp: fresh_replica_def)
  have free: "lookup_node (trees (wfs w) r) p = Inl NotExist" if "p \<noteq> []" "markerName \<notin> set p" for p
    using that by (cases p) (auto simp: t(1))
  have "expected r (FID f) w e" if "e \<in> set es" for e
  proof -
    have v: "validPath (EPath e) = Inr ()" using assms(2) that by simp
    have m: "markerName \<notin> set (components (EPath e))" using validPath_parts(5) [OF v] by (auto simp: components_valid [OF v])
    have "markerName \<notin> set (components (temp_name (EPath e) n))" for n
      using m by (auto simp: components_temp_name [OF v] markerName_def tempPrefix_def dest: in_set_butlastD)
    then show ?thesis
      using free m components_nonempty [OF v] temp_apart(1) [OF v] assms(1) by (simp add: expected_def fresh_replica_def)
  qed
  moreover have "folder_there f r (wfs w)"
    using assms(1) t by (simp add: folder_there_def fresh_replica_def is_dir_at_def content_def file_ino_def)
  moreover have "room_for (FID f) es (wdb w)"
    using assms(1,4,5) no_rows [of "wdb w" "FID f"] by (simp add: room_for_def usage_of_def rows_bytes_def fresh_replica_def)
  ultimately show ?thesis using assms(1,3) by (simp add: syncing_def fresh_replica_def)
qed

section \<open>From a source to a replica\<close>

lemma replica_receives:
  assumes t: "tree_listing D es" and so: "sorted (map EPath es)" and fo: "folder_name_ok (FID f)"
    and budget: "int (length es) \<le> maxEntries" "listing_cost es + int (length (marshal_message end_message)) \<le> maxIndexBytes"
      "listing_bytes es \<le> MaxManifestBytes - 2"
    and w: "fresh_replica f r w" "length es \<le> length (nonces w)"
    and c: "waiting (sync_requests (FID f) es) (sync_answers D es) out (conn w)"
  shows "\<exists>x w'. sync_folder i peer f True w = (Inr (True, int (length es), x, None), w')
     \<and> (\<forall>e \<in> set es. arrived D r (FID f) w' e) \<and> tx (conn w') = out"
proof -
  have q: "quiet w" and fl: "valid_utf8 (FID f)" "FID f \<noteq> []" "length (FID f) \<le> 256"
    using w(1) fo by (simp_all add: fresh_replica_def folder_name_ok_def)
  have v: "\<forall>e \<in> set es. ValidateEntry e = Inr ()" "\<forall>e \<in> set es. validPath (EPath e) = Inr ()"
    using t ValidateEntry_kinds(2) by (auto simp: tree_listing_def)
  have s: "syncing D f r [] es w"
    by (rule fresh_syncing [OF w(1) v(2) w(2) _ budget(3)]) (use budget(1) in \<open>simp add: maxEntries_def MaxEntries_def\<close>)
  have there: "CheckFolder (FPath f) (FID f) w = (Inr (), w)"
    using CheckFolder_there(1) [OF q _ fl(3), of r] s by (simp add: syncing_def)
  from talks_waiting [OF talks_client_List [OF q v(1) budget(1,2) fl(1,3)] c [unfolded sync_requests_def sync_answers_def]]
  obtain c1 where c1: "client_List (FID f) w = (Inr es, w\<lparr>conn := c1\<rparr>)" "waiting (tree_requests (FID f) es) (tree_answers D es) out c1"
    by auto
  have s1: "syncing D f r [] es (w\<lparr>conn := c1\<rparr>)" using s by (simp add: syncing_def arrived_def expected_def)
  have "\<exists>x w'. apply_entries f es zero_stats (w\<lparr>conn := c1\<rparr>) = (Inr (x, None), w') \<and> syncing D f r ([] @ es) [] w' \<and> waiting [] [] out (conn w')"
    by (rule sync_entries [OF _ _ s1 fo]) (use t so c1(2) in simp_all)
  then obtain x w' where w': "apply_entries f es zero_stats (w\<lparr>conn := c1\<rparr>) = (Inr (x, None), w')" "syncing D f r es [] w'"
    "waiting [] [] out (conn w')" by (simp only: append_Nil) blast
  have "sync_folder i peer f True w = (Inr (True, int (length es), x, None), w')"
    using there c1(1) w'(1) sort_key_id_if_sorted [OF so] by (simp add: sync_folder_def run_simps)
  with w'(2,3) show ?thesis by (auto simp: syncing_def waiting_def)
qed

lemma replica_converges:
  assumes tree: "tree_listing D es" "sorted (map EPath es)" and folder: "folder_name_ok (FID g)" "FID f = FID g"
    and budget: "int (length es) \<le> maxEntries" "listing_cost es + int (length (marshal_message end_message)) \<le> maxIndexBytes"
      "listing_bytes es \<le> MaxManifestBytes - 2"
    and source: "source_ok D c st me g s es v" and replica: "fresh_replica f r w" "length es \<le> length (nonces w)"
  shows "\<exists>requests answers.
     (\<forall>k. \<not> shut k \<and> flushed k \<and> rx k = requests \<longrightarrow>
        (\<exists>err k'. serve_requests (Suc (length requests)) (daemon_backend c st) me (v\<lparr>conn := k\<rparr>) = (Inl err, v\<lparr>conn := k'\<rparr>)
           \<and> tx k' = tx k @ answers))
   \<and> (\<forall>k. \<not> shut k \<and> flushed k \<and> rx k = answers \<longrightarrow>
        (\<exists>x w'. sync_folder i peer f True (w\<lparr>conn := k\<rparr>) = (Inr (True, int (length es), x, None), w')
           \<and> (\<forall>e \<in> set es. arrived D r (FID f) w' e) \<and> tx (conn w') = tx k @ requests))"
proof -
  have l: "length (FID g) \<le> 256" using folder(1) by (simp add: folder_name_ok_def)
  have q: "quiet v" using source by (simp add: source_ok_def)
  have list: "Daemon_List c st me (FID g) (v\<lparr>conn := k\<rparr>) = (Inr es, v\<lparr>conn := k\<rparr>)" for k
  proof -
    obtain ls where ls: "Daemon_List c st me (FID g) (v\<lparr>conn := k\<rparr>) = (Inr ls, v\<lparr>conn := k\<rparr>)" "set ls = set es"
      "distinct (map EPath ls)" "sorted (map EPath ls)" using source_List [of D c st me g s es "v\<lparr>conn := k\<rparr>"] source l by auto
    have "ls = es"
      using ls(2-4) tree by (intro map_sorted_distinct_set_unique [where f = EPath]) (auto simp: tree_listing_def distinct_map)
    with ls(1) show ?thesis by simp
  qed
  have cost: "listing_cost es \<le> maxIndexBytes" using budget(2) by simp
  note ans = source_answers [OF tree(1) source folder(1) list budget(1) cost]
  have serve: "\<exists>err k'. serve_requests (Suc (length (concat (sync_requests (FID g) es)))) (daemon_backend c st) me (v\<lparr>conn := k\<rparr>)
        = (Inl err, v\<lparr>conn := k'\<rparr>) \<and> tx k' = tx k @ concat (sync_answers D es)"
    if "\<not> shut k \<and> flushed k \<and> rx k = concat (sync_requests (FID g) es)" for k
    by (rule serve_session [OF q ans]) (use that answers_length [OF ans] in auto)
  have receive: "\<exists>x w'. sync_folder i peer f True (w\<lparr>conn := k\<rparr>) = (Inr (True, int (length es), x, None), w')
       \<and> (\<forall>e \<in> set es. arrived D r (FID f) w' e) \<and> tx (conn w') = tx k @ concat (sync_requests (FID g) es)"
    if "\<not> shut k \<and> flushed k \<and> rx k = concat (sync_answers D es)" for k
  proof (rule replica_receives [OF tree _ budget])
    show "fresh_replica f r (w\<lparr>conn := k\<rparr>)" "length es \<le> length (nonces (w\<lparr>conn := k\<rparr>))" "folder_name_ok (FID f)"
      using replica folder by (simp_all add: fresh_replica_def)
    show "waiting (sync_requests (FID f) es) (sync_answers D es) (tx k @ concat (sync_requests (FID g) es)) (conn (w\<lparr>conn := k\<rparr>))"
      using that folder(2) by (simp add: waiting_def)
  qed
  show ?thesis using serve receive by blast
qed

section \<open>A scanned folder\<close>

lemma scanned_index:
  assumes "index_ok (wdb w)" "Scan i p w = (Inr es, w')"
  shows "e \<in> set es \<longleftrightarrow> valid_entry e \<and> select_manifest (wdb w') i (EPath e) = Some (json_Marshal e)"
proof -
  have "replace_folder i es (wdb w) = Inr (wdb w')" using commits_Inr [OF Scan_commits] assms(2) by metis
  moreover have "db_inv (wdb w)" using assms(1) by (simp add: index_ok_def)
  ultimately have sel: "select_manifest (wdb w') i q = map_option json_Marshal (find (\<lambda>e. EPath e = q) es)" for q
    by (simp add: replace_folder_select)
  note dist = Scan_distinct [OF assms(2)] and valid = Scan_valid [OF assms(2)]
  show ?thesis
  proof
    assume "e \<in> set es"
    then show "valid_entry e \<and> select_manifest (wdb w') i (EPath e) = Some (json_Marshal e)"
      using valid find_unique [OF dist] by (simp add: sel)
  next
    assume "valid_entry e \<and> select_manifest (wdb w') i (EPath e) = Some (json_Marshal e)"
    then obtain x where "valid_entry e" "find (\<lambda>x. EPath x = EPath e) es = Some x" "json_Marshal x = json_Marshal e"
      by (auto simp: sel)
    then show "e \<in> set es" using valid manifest.enc_inject by (metis find_Some_iff nth_mem)
  qed
qed

lemma checkMarker_Inr:
  assumes "quiet w" "checkMarker r folder w = (Inr (), w')"
  shows "content (wfs w) r [markerName] = Some (folder @ [CHR 0x0A])" "length folder \<le> 256"
  using assms
  by (auto simp: checkMarker_def run_simps sys_quiet fs_lstat_def fs_open_def fs_read_limited_def content_def file_ino_def
      node_info_def ino_info_def split: sum.splits node.splits if_splits)

lemma CheckFolder_folder_there:
  assumes "quiet w" "fst (CheckFolder (FPath f) (FID f) w) = Inr ()" "mounts (wfs w) (FPath f) = Some r"
  shows "folder_there f r (wfs w)"
proof -
  obtain m es where t: "trees (wfs w) r = Dir m es"
    using assms by (cases "trees (wfs w) r") (auto simp: CheckFolder_def run_simps sys_quiet fs_open_root_def)
  have "fst (checkMarker r (FID f) w) = Inr ()"
    using assms t by (simp add: CheckFolder_def run_simps sys_quiet fs_open_root_def)
  then obtain w' where "checkMarker r (FID f) w = (Inr (), w')" by (metis prod.collapse)
  from checkMarker_Inr(1) [OF assms(1) this] show ?thesis
    using assms(3) t by (simp add: folder_there_def is_dir_at_def)
qed

lemma scan_recorded:
  assumes "scan_folders [i] d = (u, d')" "Scan i (FPath g) (dworld d) = (Inr es, v)"
    "map_of (CFolders (dcfg d)) i = Some g" "FSource g = ''local''"
  shows "dcfg d' = dcfg d" "dworld d' = v" "scan_available (dcfg d') (dstatus d') i"
  using assms
  by (auto simp: run_bind run_attempt zoom_def update_def Let_def time_Now_def ctx_Err_def updated_def folder_status_def
      folder_named_def scan_available_def split: sum.splits if_splits)

text \<open>A name of the source and the same name of the replica.\<close>

definition copied :: "fsys \<Rightarrow> nat \<Rightarrow> fsys \<Rightarrow> nat \<Rightarrow> string list \<Rightarrow> bool" where
  "copied s r s' r' n \<longleftrightarrow>
     (case lookup_node (trees s r) n of
        Inr (File i) \<Rightarrow> \<exists>j. lookup_node (trees s' r') n = Inr (File j)
          \<and> idata (inodes s' j) = idata (inodes s i) \<and> imode (inodes s' j) = imode (inodes s i) AND 511
      | Inr (Dir m es) \<Rightarrow> is_dir_at (trees s' r') n
      | _ \<Rightarrow> False)"

definition bytes_at :: "fsys \<Rightarrow> nat \<Rightarrow> string \<Rightarrow> bytes" where
  "bytes_at s r name = (case content s r (components name) of None \<Rightarrow> [] | Some c \<Rightarrow> c)"

lemma entry_of_fields: "e = entry_of n m c \<Longrightarrow> EKind e = ''file'' \<and> EPath e = n \<and> EMode e = m \<and> entry_of (EPath e) (EMode e) c = e"
  by (simp add: entry_of_def)

lemma shown_file:
  "shows_entry s r e \<Longrightarrow> EKind e = ''file'' \<Longrightarrow>
     \<exists>i. lookup_node (trees s r) (components (EPath e)) = Inr (File i) \<and> e = entry_of (EPath e) (imode (inodes s i) AND 511) (idata (inodes s i))"
  by (auto simp: shows_entry_def dest: arg_cong [of _ _ EKind] split: sum.splits node.splits)

lemma shown_listing:
  assumes "distinct (map EPath es)" "\<forall>e \<in> set es. ValidateEntry e = Inr () \<and> shows_entry s r e"
    "\<forall>n. validPath n = Inr () \<and> present s r n \<longrightarrow> n \<in> EPath ` set es"
  shows "tree_listing (bytes_at s r) es"
proof -
  have "(EKind e = ''file'' \<longrightarrow> entry_of (EPath e) (EMode e) (bytes_at s r (EPath e)) = e)
     \<and> (path_Dir (EPath e) = ''.'' \<or> (\<exists>d \<in> set es. EKind d = ''directory'' \<and> EPath d = path_Dir (EPath e)))" if "e \<in> set es" for e
  proof -
    have e: "ValidateEntry e = Inr ()" "shows_entry s r e" using assms(2) that by auto
    note v = ValidateEntry_kinds(2) [OF e(1)]
    obtain x where x: "lookup_node (trees s r) (components (EPath e)) = Inr x"
      using e(2) by (auto simp: shows_entry_def split: sum.splits)
    have "EKind e = ''file'' \<longrightarrow> entry_of (EPath e) (EMode e) (bytes_at s r (EPath e)) = e"
      using shown_file [OF e(2)] entry_of_fields by (fastforce simp: bytes_at_def content_def file_ino_def)
    moreover have "\<exists>d \<in> set es. EKind d = ''directory'' \<and> EPath d = path_Dir (EPath e)" if n: "path_Dir (EPath e) \<noteq> ''.''"
    proof -
      have c: "components (EPath e) = components (path_Dir (EPath e)) @ [last (components (EPath e))]"
        using components_path_Dir [OF v] components_nonempty [OF v] by simp
      then have d: "is_dir_at (trees s r) (components (path_Dir (EPath e)))"
        using x lookup_node_parent_dir [of "trees s r" _ _ "[]"] by metis
      then have "path_Dir (EPath e) \<in> EPath ` set es" using assms(3) validPath_Dir [OF v n] by (simp add: present_def)
      then obtain f where f: "f \<in> set es" "EPath f = path_Dir (EPath e)" by auto
      have "shows_entry s r f" using assms(2) f(1) by blast
      then have "EKind f = ''directory''"
        using dir_lookup [OF d] f(2) by (auto simp: shows_entry_def dest: arg_cong [of _ _ EKind])
      with f show ?thesis by blast
    qed
    ultimately show ?thesis by blast
  qed
  with assms(1,2) show ?thesis by (auto simp: tree_listing_def)
qed

text \<open>A scan that recorded its success makes the daemon a source of what it found.\<close>

lemma scanned_source:
  assumes w: "quiet (dworld d)" "index_ok (wdb (dworld d))" "map_of (CFolders (dcfg d)) i = Some g"
      "FSource g = ''local''" "FID g = i" "shares (dcfg d) peerID i"
    and run: "scan_folders [i] d = (u, d')" "Scan i (FPath g) (dworld d) = (Inr es, v)"
  obtains s where "mounts (wfs v) (FPath g) = Some s" "tree_listing (bytes_at (wfs v) s) es"
    "source_ok (bytes_at (wfs v) s) (dcfg d') (dstatus d') peerID g s es (dworld d')"
    "\<forall>e \<in> set es. shows_entry (wfs v) s e"
    "\<forall>n. validPath n = Inr () \<and> present (wfs v) s n \<longrightarrow> n \<in> EPath ` set es"
proof -
  note q = Scan_quiet [OF w(1) run(2)] and d' = scan_recorded [OF run w(3,4)]
  obtain s where at: "mounts (wfs v) (FPath g) = Some s" "\<forall>e \<in> set es. shows_entry (wfs v) s e" "covers (wfs v) s [] es"
    unfolding q(2) by (rule Scan_snapshot [OF run(2) quiet_calm [OF w(1)]])
  then have s: "mounts (wfs v) (FPath g) = Some s"
    "\<forall>e \<in> set es. ValidateEntry e = Inr () \<and> shows_entry (wfs v) s e"
    "\<forall>n. validPath n = Inr () \<and> present (wfs v) s n \<longrightarrow> n \<in> EPath ` set es"
    using Scan_valid [OF run(2)] by (auto simp: valid_entry_def covers_def)
  note listing = shown_listing [OF Scan_distinct [OF run(2)] s(2,3)]
  have there: "folder_there g s (wfs v)"
    using CheckFolder_folder_there [of v g s] q(1) q(3) [OF refl] s(1) w(5) by simp
  have c: "content (wfs v) s (components (EPath e)) = Some (bytes_at (wfs v) s (EPath e))"
    if "e \<in> set es" "EKind e = ''file''" for e
    using shown_file [of "wfs v" s e] that s(2) by (auto simp: bytes_at_def content_def file_ino_def)
  have "source_ok (bytes_at (wfs v) s) (dcfg d') (dstatus d') peerID g s es (dworld d')"
    using q(1) there d' w c scanned_index [OF w(2) run(2)] Scan_index_ok [OF run(2) w(2)]
    by (simp add: source_ok_def folder_named_def)
  with s listing that show ?thesis by blast
qed

text \<open>What a replica received is what the source holds.\<close>

lemma arrived_copied:
  assumes "arrived (bytes_at s0 r0) r folder w e" "shows_entry s0 r0 e"
  shows "copied s0 r0 (wfs w) r (components (EPath e))"
proof (cases "EKind e = ''directory''")
  case True
  then show ?thesis
    using assms by (auto simp: copied_def arrived_def shows_entry_def entry_of_def dest: arg_cong [of _ _ EKind] split: sum.splits node.splits)
next
  case False
  then obtain k where k: "lookup_node (trees s0 r0) (components (EPath e)) = Inr (File k)" "EMode e = imode (inodes s0 k) AND 511"
    using assms(2) by (auto simp: shows_entry_def entry_of_def dest: arg_cong [of _ _ EKind] arg_cong [of _ _ EMode] split: sum.splits node.splits)
  have "content (wfs w) r (components (EPath e)) = Some (idata (inodes s0 k))" "installed r e (wfs w)"
    using assms(1) False k(1) by (simp_all add: arrived_def bytes_at_def content_def file_ino_def)
  with k show ?thesis
    by (auto simp: copied_def installed_def content_def file_ino_def split: sum.splits node.splits)
qed

lemma entry_cost_bytes: "int (length (json_Marshal e)) + 1 \<le> entry_cost e"
  by (simp add: entry_cost_def marshal_message_def entry_message_def enc_message_def zero_message_def
      omit_string_def omit_int_def omit_nil_def json_keys json_Marshal_def)

lemma listing_bytes_cost: "(\<forall>e \<in> set es. valid_entry e) \<Longrightarrow> listing_bytes es \<le> listing_cost es"
  by (induction es) (auto simp: entry_cost_bytes add_mono)

text \<open>C33. A scanned local folder arrives at a replica. When the scan of a shared folder with a well-
  formed index succeeded, and its listing with the closing message fits the 64 MiB budget of the
  wire, there are the bytes of a conversation such that the serving daemon answers these requests
  with these answers, and a replica that so far has only the marker and no rows, getting these
  answers, sends these requests and ends with success: every file and directory with a valid name is
  there, files with the same bytes and permission bits, and every entry is in its index. On both
  machines no call fails, no other process acts and nothing is cancelled meanwhile; the folder id is
  valid UTF-8 of 1 to 256 bytes.\<close>

theorem scanned_folder_replicates:
  assumes source: "quiet (dworld d)" "index_ok (wdb (dworld d))" "map_of (CFolders (dcfg d)) i = Some g"
      "FSource g = ''local''" "FID g = i" "shares (dcfg d) me i"
    and scanned: "scan_folders [i] d = (u, d')" "Scan i (FPath g) (dworld d) = (Inr es, v)"
    and listing: "folder_name_ok i" "listing_cost es + int (length (marshal_message end_message)) \<le> maxIndexBytes"
    and replica: "fresh_replica f r w" "FID f = i" "length es \<le> length (nonces w)"
  shows "\<exists>s requests answers. mounts (wfs v) (FPath g) = Some s
     \<and> (\<forall>k. \<not> shut k \<and> flushed k \<and> rx k = requests \<longrightarrow>
          (\<exists>err k'. serve_requests (Suc (length requests)) (daemon_backend (dcfg d') (dstatus d')) me ((dworld d')\<lparr>conn := k\<rparr>)
             = (Inl err, (dworld d')\<lparr>conn := k'\<rparr>) \<and> tx k' = tx k @ answers))
     \<and> (\<forall>k. \<not> shut k \<and> flushed k \<and> rx k = answers \<longrightarrow>
          (\<exists>x w'. sync_folder j peer f True (w\<lparr>conn := k\<rparr>) = (Inr (True, int (length es), x, None), w') \<and> tx (conn w') = tx k @ requests
             \<and> (\<forall>n. validPath n = Inr () \<and> present (wfs v) s n \<longrightarrow> copied (wfs v) s (wfs w') r (components n))
             \<and> (\<forall>e \<in> set es. select_manifest (wdb w') i (EPath e) = Some (json_Marshal e))))"
proof -
  obtain s where s: "mounts (wfs v) (FPath g) = Some s" "tree_listing (bytes_at (wfs v) s) es"
    "source_ok (bytes_at (wfs v) s) (dcfg d') (dstatus d') me g s es (dworld d')"
    "\<forall>e \<in> set es. shows_entry (wfs v) s e"
    "\<forall>n. validPath n = Inr () \<and> present (wfs v) s n \<longrightarrow> n \<in> EPath ` set es"
    by (rule scanned_source [OF source scanned])
  let ?D = "bytes_at (wfs v) s" and ?es = "sort_key EPath es"
  have t: "tree_listing ?D ?es" using s(2) by (simp add: tree_listing_def distinct_map)
  have so: "source_ok ?D (dcfg d') (dstatus d') me g s ?es (dworld d')" using s(3) by (simp add: source_ok_def)
  have b: "int (length ?es) \<le> maxEntries" using Scan_fits [OF scanned(2)] by (simp add: maxEntries_def MaxEntries_def)
  have c: "listing_cost ?es = listing_cost es" unfolding listing_cost_def by (rule sum_list_sort_key)
  have "listing_bytes ?es = listing_bytes es" unfolding listing_bytes_def by (rule sum_list_sort_key)
  then have l: "listing_bytes ?es \<le> MaxManifestBytes - 2" using Scan_fits [OF scanned(2)] by simp
  have fo: "folder_name_ok (FID g)" "FID f = FID g" using listing(1) replica(2) source(5) by simp_all
  have n: "length ?es \<le> length (nonces w)" using replica(3) by simp
  obtain requests answers where
    served: "\<forall>k. \<not> shut k \<and> flushed k \<and> rx k = requests \<longrightarrow>
        (\<exists>err k'. serve_requests (Suc (length requests)) (daemon_backend (dcfg d') (dstatus d')) me ((dworld d')\<lparr>conn := k\<rparr>)
             = (Inl err, (dworld d')\<lparr>conn := k'\<rparr>) \<and> tx k' = tx k @ answers)" and
    synced: "\<forall>k. \<not> shut k \<and> flushed k \<and> rx k = answers \<longrightarrow>
        (\<exists>x w'. sync_folder j peer f True (w\<lparr>conn := k\<rparr>) = (Inr (True, int (length ?es), x, None), w')
           \<and> (\<forall>e \<in> set ?es. arrived ?D r (FID f) w' e) \<and> tx (conn w') = tx k @ requests)"
    using replica_converges [OF t _ fo b _ l so replica(1) n] listing(2) c by (simp only: sorted_sort_key) blast
  have "copied (wfs v) s (wfs w') r (components m)"
    if "\<forall>e \<in> set ?es. arrived ?D r (FID f) w' e" "validPath m = Inr ()" "present (wfs v) s m" for w' m
  proof -
    have "m \<in> EPath ` set es" using s(5) that(2,3) by blast
    then obtain e where "e \<in> set es" "EPath e = m" by auto
    with arrived_copied [of "wfs v" s r "FID f" w' e] that(1) s(4) show ?thesis by auto
  qed
  moreover have "select_manifest (wdb w') i (EPath e) = Some (json_Marshal e)"
    if "\<forall>e \<in> set ?es. arrived ?D r (FID f) w' e" "e \<in> set es" for w' e
    using that replica(2) by (simp add: arrived_def)
  ultimately have here: "(\<forall>n. validPath n = Inr () \<and> present (wfs v) s n \<longrightarrow> copied (wfs v) s (wfs w') r (components n))
      \<and> (\<forall>e \<in> set es. select_manifest (wdb w') i (EPath e) = Some (json_Marshal e))"
    if "\<forall>e \<in> set ?es. arrived ?D r (FID f) w' e" for w'
    using that by blast
  show ?thesis
  proof (rule exI [of _ s], rule exI [of _ requests], rule exI [of _ answers], intro conjI allI impI)
    fix k assume k: "\<not> shut k \<and> flushed k \<and> rx k = answers"
    obtain x w' where "sync_folder j peer f True (w\<lparr>conn := k\<rparr>) = (Inr (True, int (length es), x, None), w')"
      "\<forall>e \<in> set ?es. arrived ?D r (FID f) w' e" "tx (conn w') = tx k @ requests"
      using synced k by (metis length_sort)
    with here [of w'] show "\<exists>x w'. sync_folder j peer f True (w\<lparr>conn := k\<rparr>) = (Inr (True, int (length es), x, None), w')
        \<and> tx (conn w') = tx k @ requests
        \<and> (\<forall>n. validPath n = Inr () \<and> present (wfs v) s n \<longrightarrow> copied (wfs v) s (wfs w') r (components n))
        \<and> (\<forall>e \<in> set es. select_manifest (wdb w') i (EPath e) = Some (json_Marshal e))"
      by blast
  qed (use s(1) served in blast)+
qed

section \<open>A replica of the demonstration\<close>

definition demo_replica :: world where
  "demo_replica = demo_world\<lparr>wfs := demo_fs\<lparr>trees := (\<lambda>_. Dir 448 [(markerName, File 0)])\<rparr>\<rparr>"

lemma demo_fresh: "FPath f = ''/r'' \<Longrightarrow> FID f = ''f'' \<Longrightarrow> fresh_replica f 0 demo_replica"
  using demo_calm(2) db_inv_empty
  by (auto simp: quiet_def fresh_replica_def demo_replica_def demo_world_def demo_fs_def fs_wf_def select_manifest_def empty_database_def)

lemma demo_checked:
  "openFolder ''/r'' ''f'' demo_world = (Inr 0, demo_world)" "CheckFolder ''/r'' ''f'' demo_world = (Inr (), demo_world)"
  "checkMarker 0 ''f'' demo_world = (Inr (), demo_world)"
proof -
  have "folder_there \<lparr>FID = ''f'', FPath = ''/r'', FSource = [], FPeers = []\<rparr> 0 (wfs demo_world)"
    using demo_calm(3) by (simp add: folder_there_def demo_world_def demo_fs_def is_dir_at_def content_def file_ino_def)
  from CheckFolder_there [OF demo_calm(2) this] checkMarker_quiet [OF demo_calm(2), of 0 "''f''"] this
  show "openFolder ''/r'' ''f'' demo_world = (Inr 0, demo_world)" "CheckFolder ''/r'' ''f'' demo_world = (Inr (), demo_world)"
    "checkMarker 0 ''f'' demo_world = (Inr (), demo_world)" by (simp_all add: folder_there_def)
qed

lemma demo_visits:
  "scan_visit 0 ''.'' True acc demo_world = (Inr (False, acc), demo_world)"
  "scan_visit 0 markerName False acc demo_world = (Inr (False, acc), demo_world)"
  "scan_visit 0 ''a'' False ([], 0) demo_world = (Inr (False, ([demo_entry], int (length (json_Marshal demo_entry)) + 1)), demo_world)"
proof -
  show "scan_visit 0 ''.'' True acc demo_world = (Inr (False, acc), demo_world)"
    using demo_calm(2) by (simp add: scan_visit_def run_simps ctx_Err_quiet)
  show "scan_visit 0 markerName False acc demo_world = (Inr (False, acc), demo_world)"
    using demo_calm(2) by (simp add: scan_visit_def run_simps ctx_Err_quiet path_Base_def markerName_def)
  have a: "lookup_node (trees (wfs demo_world) 0) [''a''] = Inr (File 1)" by (simp add: demo_world_def demo_fs_def markerName_def)
  have l: "int (length (json_Marshal demo_entry)) + 1 \<le> MaxManifestBytes - 2"
    using length_enc_entry [of demo_entry] demo_entry_valid by (simp add: valid_entry_def MaxManifestBytes_def)
  show "scan_visit 0 ''a'' False ([], 0) demo_world = (Inr (False, ([demo_entry], int (length (json_Marshal demo_entry)) + 1)), demo_world)"
    using demo_calm(2) demo_valid(1) a demo_fingerprint l
    by (simp add: scan_visit_def run_simps ctx_Err_quiet path_Base_def markerName_def tempPrefix_def has_prefix_def
        checkComponents_def components_def sys_quiet fs_lstat_def node_info_def ino_info_def MaxEntries_def demo_entry_def)
qed

lemma demo_scan: "\<exists>v. Scan ''f'' ''/r'' demo_world = (Inr [demo_entry], v)"
proof -
  have f: "walk_fuel = Suc (Suc 4096)" by (simp add: walk_fuel_def)
  have sorted_names: "dir_entries [(markerName, File 0), (''a'', File 1)] = [(markerName, Regular), (''a'', Regular)]" by code_simp
  have root: "trees (wfs demo_world) 0 = Dir 448 [(markerName, File 0), (''a'', File 1)]" by (simp add: demo_world_def demo_fs_def)
  have dirs: "Root_ReadDir 0 (components ''.'') demo_world = (Inr [(markerName, Regular), (''a'', Regular)], demo_world)"
    using demo_calm(2) sorted_names root by (simp add: sys_quiet components_def fs_read_dir_def)
  have w: "walk_dir walk_fuel 0 ''.'' True ([], 0) demo_world
      = (Inr ([demo_entry], int (length (json_Marshal demo_entry)) + 1), demo_world)"
    using demo_visits dirs by (simp add: f walk_dir.simps run_simps path_Join_def)
  have lstat: "Root_Lstat 0 [] demo_world = (Inr (plain_info Directory 448), demo_world)"
    using demo_calm(2) root by (simp add: sys_quiet fs_lstat_def node_info_def)
  have l: "int (length (json_Marshal demo_entry)) + 1 \<le> MaxManifestBytes - 2"
    using length_enc_entry [of demo_entry] demo_entry_valid by (simp add: valid_entry_def MaxManifestBytes_def)
  have "\<exists>db. replace_folder ''f'' [demo_entry] empty_database = Inr db"
    using l by (simp add: replace_folder_def delete_folder_def folder_rows_def insert_row_def select_manifest_def
        entries_insert_def set_usage_def usage_check_def empty_database_def MaxManifestBytes_def MaxEntries_def)
  then obtain db where db: "replace_folder ''f'' [demo_entry] (wdb demo_world) = Inr db" by (auto simp: demo_world_def)
  have c: "ctx_done demo_world = False" using demo_calm(2) by (simp add: quiet_def)
  show ?thesis
    using demo_checked w lstat demo_calm(2) db c
    by (simp add: Scan_def run_bind plain_info_def sql_exec_def del: replace_folder_def)
qed

definition demo_copy :: config_Folder where
  "demo_copy = \<lparr>FID = ''f'', FPath = ''/r'', FSource = ''a'', FPeers = []\<rparr>"

theorem scanned_folder_replicates_witness:
  "\<exists>answers. \<forall>k. \<not> shut k \<and> flushed k \<and> rx k = answers \<longrightarrow>
     (\<exists>x w'. sync_folder demo_identity (peer_named demo_config ''a'') demo_copy True (demo_replica\<lparr>conn := k\<rparr>) = (Inr (True, 1, x, None), w')
        \<and> content (wfs w') 0 [''a''] = Some ''old'' \<and> select_manifest (wdb w') ''f'' ''a'' = Some (json_Marshal demo_entry))"
proof -
  let ?me = "replicate 64 (CHR ''a'')" and ?g = "\<lparr>FID = ''f'', FPath = ''/r'', FSource = ''local'', FPeers = [''a'']\<rparr>"
  obtain u d' where d': "scan_folders [''f''] demo_daemon = (u, d')" by fastforce
  obtain v where v: "Scan ''f'' ''/r'' demo_world = (Inr [demo_entry], v)" using demo_scan by blast
  have fs: "wfs v = wfs demo_world" by (rule Scan_quiet [OF demo_calm(2) v])
  have cost: "listing_cost [demo_entry] + int (length (marshal_message end_message)) \<le> maxIndexBytes"
    using control_ok_entry [OF demo_entry_valid] small_messages(3)
    by (simp add: control_ok_def entry_cost_def maxControl_def maxIndexBytes_def)
  have "\<exists>s requests answers. mounts (wfs v) (FPath ?g) = Some s
     \<and> (\<forall>k. \<not> shut k \<and> flushed k \<and> rx k = requests \<longrightarrow>
          (\<exists>err k'. serve_requests (Suc (length requests)) (daemon_backend (dcfg d') (dstatus d')) ?me ((dworld d')\<lparr>conn := k\<rparr>)
             = (Inl err, (dworld d')\<lparr>conn := k'\<rparr>) \<and> tx k' = tx k @ answers))
     \<and> (\<forall>k. \<not> shut k \<and> flushed k \<and> rx k = answers \<longrightarrow>
          (\<exists>x w'. sync_folder demo_identity (peer_named demo_config ''a'') demo_copy True (demo_replica\<lparr>conn := k\<rparr>)
               = (Inr (True, int (length [demo_entry]), x, None), w') \<and> tx (conn w') = tx k @ requests
             \<and> (\<forall>n. validPath n = Inr () \<and> present (wfs v) s n \<longrightarrow> copied (wfs v) s (wfs w') 0 (components n))
             \<and> (\<forall>e \<in> set [demo_entry]. select_manifest (wdb w') ''f'' (EPath e) = Some (json_Marshal e))))"
  proof (rule scanned_folder_replicates [where d = demo_daemon and g = ?g])
    show "quiet (dworld demo_daemon)" "index_ok (wdb (dworld demo_daemon))"
      using demo_calm(2) index_ok_empty by (simp_all add: demo_daemon_def) (simp add: demo_world_def)
    show "fresh_replica demo_copy 0 demo_replica" by (rule demo_fresh) (simp_all add: demo_copy_def)
    show "scan_folders [''f''] demo_daemon = (u, d')" by (rule d')
    show "Scan ''f'' (FPath ?g) (dworld demo_daemon) = (Inr [demo_entry], v)" using v by (simp add: demo_daemon_def)
  qed (use cost in \<open>simp_all add: demo_daemon_def demo_config_def shares_def peer_named_def folder_name_ok_def
      valid_utf8_ascii demo_copy_def demo_replica_def demo_world_def\<close>)
  then obtain s answers where s: "mounts (wfs v) ''/r'' = Some s" and
    all: "\<And>k. \<not> shut k \<and> flushed k \<and> rx k = answers \<Longrightarrow>
      \<exists>x w'. sync_folder demo_identity (peer_named demo_config ''a'') demo_copy True (demo_replica\<lparr>conn := k\<rparr>) = (Inr (True, 1, x, None), w')
        \<and> (\<forall>n. validPath n = Inr () \<and> present (wfs v) s n \<longrightarrow> copied (wfs v) s (wfs w') 0 (components n))
        \<and> select_manifest (wdb w') ''f'' ''a'' = Some (json_Marshal demo_entry)"
    by (simp add: demo_entry_def entry_of_def) blast
  have "s = 0" using s demo_calm(3) fs by simp
  have old: "content (wfs w') 0 [''a''] = Some ''old''"
    if "\<forall>n. validPath n = Inr () \<and> present (wfs v) s n \<longrightarrow> copied (wfs v) s (wfs w') 0 (components n)" for w'
  proof -
    have "lookup_node (trees (wfs v) s) [''a''] = Inr (File 1)" "idata (inodes (wfs v) 1) = ''old''"
      using fs by (simp_all add: demo_world_def demo_fs_def markerName_def)
    moreover have "components ''a'' = [''a'']" by (simp add: components_def)
    ultimately show ?thesis
      using that [THEN spec, of "''a''"] demo_valid(1)
      by (auto simp: copied_def present_def content_def file_ino_def)
  qed
  show ?thesis using all old by blast
qed

end
