(* ===== verification/Spec2Isabelle.thy ===== *)
theory Spec2Isabelle
  imports Initialising Convergence
begin

text \<open>
  Backuply replicates folders between machines. Each folder has one source; the other machines that
  list it fetch its index and the blocks they miss over TLS and install the files. The program is one
  process: the command line (\<^verbatim>\<open>cmd/backuply\<close>) reads a configuration (\<^verbatim>\<open>internal/config\<close>), makes or loads
  the identity of the device (\<^verbatim>\<open>internal/identity\<close>) and starts the daemon (\<^verbatim>\<open>internal/daemon\<close>), which scans
  local folders into an SQLite index and applies the entries of peers (\<^verbatim>\<open>internal/store\<close>) and talks to
  the daemons of other machines (\<^verbatim>\<open>internal/transport\<close>). All Go files that are not tests are modelled.

  \<^bold>\<open>How a Go function is modelled.\<close> A function that returns \<open>(T, error)\<close> and changes a state is a function
  \<open>'s \<Rightarrow> (error + 'a) \<times> 's\<close>, composed by \<open>bind\<close>, with \<open>attempt\<close> where the code looks at an error itself and
  \<open>deferring\<close> for \<^verbatim>\<open>defer\<close> (Prelude). The state of the store, the transport and the identity is a \<open>world\<close>
  (World): the file system, the tables of the index, the connection, the context. Each system call,
  SQL statement and network call first takes an event of the list \<open>pending\<close>: another process changes
  the file system in any way, the context is cancelled, the call fails, or nothing happens. A theorem
  about every world is a theorem about every such schedule; \<open>calm\<close> names the worlds in which no other
  process acts, \<open>quiet\<close> those in which no call fails and nothing is cancelled either. \<open>moment w k\<close> is the
  file system after \<open>k\<close> events and \<open>elapsed w w'\<close> the number of events a call took, so that a property can
  speak of a moment of the call. The daemon, one run of it, the machine with its locks and the process have
  states of their own that contain the smaller one, and \<open>zoom\<close> lifts an operation along the locale
  \<open>substate\<close>.

  \<^bold>\<open>Theories.\<close>
  Shared: Prelude (errors, monad, weakest preconditions, \<open>within\<close>: a relation between the states
  before and after that holds along every run, the locales \<open>machine\<close> and \<open>substate\<close>), Bytes and Gostrings
  and Paths (the functions of Go's \<^verbatim>\<open>strings\<close>, \<^verbatim>\<open>bytes\<close>, \<^verbatim>\<open>strconv\<close>, \<^verbatim>\<open>bufio\<close>, \<^verbatim>\<open>net\<close>, \<^verbatim>\<open>time\<close>, \<^verbatim>\<open>path\<close> and
  \<^verbatim>\<open>path/filepath\<close> that are used; the locale \<open>codec\<close>), Sha256 (the hash, computed), Json (\<^verbatim>\<open>encoding/json\<close> as
  used), Filesystem (trees of names over inodes, the calls of \<^verbatim>\<open>os.Root\<close> and \<^verbatim>\<open>os.File\<close>), Effects (what
  these calls leave alone).
  \<^verbatim>\<open>internal/model/model.go\<close>: Model.
  \<^verbatim>\<open>internal/store/store.go\<close>: Index (tables, triggers, constraints as pure statements) and Store; Catalog
  holds the invariant \<open>index_ok\<close>. \<^verbatim>\<open>files.go\<close>: Files, with Fingerprint for its properties and the locales
  \<open>reading\<close> and \<open>keeping_files\<close>. \<^verbatim>\<open>apply.go\<close>: Apply, with the locale \<open>applying\<close>, then Install, Applying and
  Download. \<^verbatim>\<open>scan.go\<close>: Scan and Walk. Shapes and
  Listing describe the trees and the listings of a replication. Folder collects the properties of the store.
  \<^verbatim>\<open>internal/transport/transport.go\<close>: Network (connection, buffered reader and writer), Message, Transport
  (frames, requests, client), Sessions (\<open>Serve\<close> as a step relation); Frames, Conversation and Peer hold
  the properties.
  \<^verbatim>\<open>internal/identity/identity.go\<close>: Certificate, Identity, Enrolment.
  \<^verbatim>\<open>internal/config/config.go\<close>: Config, Configured.
  \<^verbatim>\<open>internal/daemon/daemon.go\<close>: Daemon (status, scans, replication, requests), Locking (\<^verbatim>\<open>lock_linux.go\<close>,
  \<^verbatim>\<open>lock_other.go\<close>, \<open>New\<close>, \<open>Close\<close>), Running (\<open>Run\<close>); Serving, Replication, Goroutines, Shutdown and Lifetime
  hold the properties; Replica (the replica's side), Source (the server's side) and Convergence (both)
  show that a scanned folder arrives.
  \<^verbatim>\<open>cmd/backuply/main.go\<close>: Command, and Initialising for what \<open>init\<close> achieves.

  \<^bold>\<open>What is shown.\<close>
  Store: \<open>Apply\<close> never replaces a file that was edited here or restores one that was deleted here, installs
  a file completely or leaves the old one, touches no other file and no other row, and does
  install what is missing; a scan is a snapshot of the tree and replaces exactly the rows of its
  folder; a fingerprint describes bytes the file really had; what is served are blocks of the index;
  the index stays within its limits, opening an old one counts its entries again, and the indexes that
  daemons leave (\<open>index_history\<close>) are well formed.
  Transport: what one side sends is what the other side gets; data and failures of a peer never
  get further than the session; loops end; what is read from a peer is bounded; errors of the backend
  are not told; only devices with an allowed certificate are answered, at most \<open>maxSessions\<close> at a time.
  Identity: an existing identity is never replaced, a new one is private and is the one loaded next.
  Configuration: exactly the configurations that satisfy the rules are accepted, roots never overlap,
  and a file is accepted exactly when its lines are lawful statements (\<open>statement_of\<close>, \<open>lawful\<close>), with
  the configuration that they mean (\<open>meaning\<close>).
  Daemon: one instance for a state directory, a folder is listed only to its peers (and a session
  cannot tell that other folders exist), replication keeps local edits, never touches local
  sources and brings a scanned folder to a fresh replica, the status keeps its shape, \<open>Run\<close> goes forward through its phases, can always be brought to its
  end and leaves nothing behind.
  Command line: \<open>init\<close> prepares exactly what \<open>run\<close> needs.

  \<^bold>\<open>Bounds and fuel.\<close> \<open>walk_fuel\<close> is 4098: a name at depth \<open>d\<close> has at least \<open>2d - 1\<close> bytes and names longer than
  4096 bytes are refused, so no walk runs out of it (Walk). The loops over a connection get one more
  than the number of bytes that still arrive, and every round consumes a byte (\<open>connection_loops_end\<close>).
  \<open>replicate_rounds n\<close> is the first \<open>n\<close> rounds of a loop that is meant not to end; its properties hold for all
  \<open>n\<close>. Sizes, offsets and counters are integers where the code rules out an overflow, \<open>add64\<close> where it does
  not, words for modes, key usage and SHA-256.

  \<^bold>\<open>What is simplified.\<close>
  The mutex of the store makes \<open>Apply\<close> and \<open>Scan\<close> exclude each other, so each is one program; the mutex of
  the daemon and the gate of a client are modelled in the same way. In the machine of \<open>Run\<close> one step is
  the scan of one folder, the synchronisation of one folder or one request; inside such a step other
  processes and the context act between the calls, other goroutines of the daemon do not. A request
  reads the status once. A transaction is one event. \<open>Apply\<close> returns its statistics through the world.
  Results of \<^verbatim>\<open>Close\<close> that the code ignores are ignored; deadlines are failures of calls; \<^verbatim>\<open>fsync\<close> has no
  effect on what is seen; a path through a symbolic link that leaves a root is an error of the call.
  \<^verbatim>\<open>os.ReadFile\<close> is one event. The creation of the database file, the listener for peers and the mode of
  the control socket do not show in the file system. Go maps are association lists in the order in
  which the code visits them, and no property depends on that order. \<open>sort.Slice\<close> is a stable sort: any
  other order of equal paths is what the stable sort makes of another listing. Lower casing and the matching of
  JSON keys without case are restricted to ASCII. An error is a value and not its text.

  \<^bold>\<open>What is an argument.\<close> The cryptography of the standard library (\<open>crypto\<close>: keys, certificates, PEM), the
  resolution of paths outside the folders (\<open>paths\<close>), the exchange on the control socket, the JSON form
  of the status and, for the \<open>run\<close> command, one execution of \<open>Run\<close> (\<open>environment\<close>). The hypotheses on them
  are \<open>crypto_sound\<close> (for the template of this program, a serial number of at most 16 bytes and a time from
  1970 to 2262: what is written with a key and a certificate is read back, and such a certificate
  is valid) and \<open>symlinks_sound\<close> (resolved paths are absolute and clean); Enrolment and Configured
  have instances.

  \<^bold>\<open>Not modelled.\<close> The text that goes to the standard error and the format of the log, the usage text,
  signals, the HTTP server of the control socket beyond its start and its end, TLS below the
  certificates, tests, build files and scripts.
\<close>

end
